(* ===== verification/EGS_Prelude.thy ===== *)
theory EGS_Prelude
  imports Main "HOL-Library.Word"
begin

text \<open>
  Prelude of the EasyGameServer development: the machine types of the Win32 build, the ways an
  operation of the code can go wrong, bounded memory, C strings and the ordered map of the C++
  library, with the rewrite rules the component theories share.
  A fallible operation has type \<open>'a res\<close>: \<open>Inl\<close> names what goes wrong, \<open>Inr\<close> is the result.
\<close>

named_theorems res_simps \<open>rewrite rules for results and bounded memory\<close>

section \<open>Machine types\<close>

type_synonym byte = "8 word"
type_synonym short = "16 word"
type_synonym int32 = "32 word"
type_synonym dword = "32 word"
type_synonym float32 = "32 word"
type_synonym float64 = "64 word"
type_synonym SOCKET = nat

text \<open>
  \<open>size_t\<close> and the \<open>uint32_t\<close> counters are 32 bits wide: natural numbers with the wrap-around
  written out.
\<close>

abbreviation SIZE_MOD :: nat where
  "SIZE_MOD \<equiv> 4294967296"

definition sz_add :: "nat \<Rightarrow> nat \<Rightarrow> nat" where
  "sz_add a b = (a + b) mod SIZE_MOD"

definition sz_sub :: "nat \<Rightarrow> nat \<Rightarrow> nat" where
  "sz_sub a b = (a + (SIZE_MOD - b mod SIZE_MOD)) mod SIZE_MOD"

definition sz_of_short :: "short \<Rightarrow> nat" where
  "sz_of_short s = unat (scast s :: 32 word)"

lemma sz_add_small [simp]: "a + b < SIZE_MOD \<Longrightarrow> sz_add a b = a + b"
  by (simp add: sz_add_def)

lemma sz_sub_small [simp]:
  assumes "b \<le> a" and "a < SIZE_MOD"
  shows "sz_sub a b = a - b"
proof -
  have "a + (SIZE_MOD - b mod SIZE_MOD) = (a - b) + SIZE_MOD"
    using assms by simp
  then have "sz_sub a b = ((a - b) + SIZE_MOD) mod SIZE_MOD"
    by (simp only: sz_sub_def)
  also have "\<dots> = (a - b) mod SIZE_MOD"
    by (rule mod_add_self2)
  finally show ?thesis
    using assms by simp
qed

lemma sz_add_less [simp]: "sz_add a b < SIZE_MOD"
  by (simp add: sz_add_def)

lemma sz_sub_less [simp]: "sz_sub a b < SIZE_MOD"
  by (simp add: sz_sub_def)

lemma sint_short_bounds: "- 32768 \<le> sint (s :: short)" "sint (s :: short) < 32768"
  using sint_greater_eq [of s] sint_less [of s] by simp_all

lemma sz_of_short_int: "int (sz_of_short s) = sint s mod 4294967296"
proof -
  have "scast s = (word_of_int (sint s) :: 32 word)"
    by transfer (simp add: take_bit_signed_take_bit)
  then have "int (sz_of_short s) = uint (word_of_int (sint s) :: 32 word)"
    by (simp only: sz_of_short_def uint_nat)
  also have "\<dots> = sint s mod 2 ^ LENGTH(32)"
    by (rule uint_word_of_int)
  finally show ?thesis
    by simp
qed

lemma sz_of_short_nonneg: "0 \<le> sint s \<Longrightarrow> sz_of_short s = nat (sint s)"
  using sz_of_short_int [of s] sint_short_bounds [of s] by simp

lemma sz_of_short_neg:
  assumes "sint s < 0"
  shows "SIZE_MOD - 32768 \<le> sz_of_short s"
proof -
  have "sint s mod 4294967296 = (sint s + 4294967296) mod 4294967296"
    by simp
  also have "\<dots> = sint s + 4294967296"
    using assms sint_short_bounds [of s] by (intro mod_pos_pos_trivial) simp_all
  finally show ?thesis
    using sz_of_short_int [of s] sint_short_bounds [of s] by simp
qed

text \<open>The kinds of thread of the server; \<open>LThreadType\<close> of the running thread is thread-local.\<close>

datatype ThreadType = THREAD_MAIN | THREAD_CLIENT | THREAD_DATABASE

section \<open>Results\<close>

text \<open>
  What can go wrong: an access outside an object, a dereferenced null pointer or freed object, a
  failed \<open>assert\<close>, a failed \<open>CRASH_ASSERT\<close>, the invalid-parameter handler of the C runtime
  (which ends the process), a thread that goes to sleep on a condition variable, and an exception.
\<close>

datatype fault =
    OutOfBounds
  | NullDeref
  | DanglingPointer
  | AssertFailed
  | CrashAsserted
  | InvalidParameter
  | Sleeping
  | Thrown

type_synonym 'a res = "fault + 'a"

fun rbind :: "'a res \<Rightarrow> ('a \<Rightarrow> 'b res) \<Rightarrow> 'b res" where
  "rbind (Inl e) f = Inl e"
| "rbind (Inr x) f = f x"

definition ensure :: "fault \<Rightarrow> bool \<Rightarrow> unit res" where
  "ensure e b = (if b then Inr () else Inl e)"

abbreviation C_assert :: "bool \<Rightarrow> unit res" where
  "C_assert \<equiv> ensure AssertFailed"

lemma ensure_True [simp, res_simps]: "b \<Longrightarrow> ensure e b = Inr ()"
  by (simp add: ensure_def)

lemma ensure_eq_Inr [simp]: "ensure e b = Inr u \<longleftrightarrow> b"
  by (simp add: ensure_def)

text \<open>\<open>CRASH_ASSERT\<close> writes through a null pointer when its argument is false.\<close>

definition CRASH_ASSERT :: "bool \<Rightarrow> unit res" where
  "CRASH_ASSERT isOk = (if isOk then Inr () else Inl CrashAsserted)"

lemma CRASH_ASSERT_True [simp, res_simps]: "b \<Longrightarrow> CRASH_ASSERT b = Inr ()"
  by (simp add: CRASH_ASSERT_def)

lemma CRASH_ASSERT_False [simp, res_simps]: "\<not> b \<Longrightarrow> CRASH_ASSERT b = Inl CrashAsserted"
  by (simp add: CRASH_ASSERT_def)

lemma CRASH_ASSERT_eq [simp]:
  "CRASH_ASSERT b = Inr u \<longleftrightarrow> b" "CRASH_ASSERT b = Inl e \<longleftrightarrow> \<not> b \<and> e = CrashAsserted"
  by (auto simp: CRASH_ASSERT_def)

lemma rbind_eq_Inr: "rbind m f = Inr y \<longleftrightarrow> (\<exists>x. m = Inr x \<and> f x = Inr y)"
  by (cases m) auto

lemma rbind_eq_Inl: "rbind m f = Inl e \<longleftrightarrow> m = Inl e \<or> (\<exists>x. m = Inr x \<and> f x = Inl e)"
  by (cases m) auto

lemma rbind_assoc: "rbind (rbind m f) g = rbind m (\<lambda>x. rbind (f x) g)"
  by (cases m) auto

text \<open>
  An operation that may not return is \<open>None\<close> when it does not. \<open>then_do\<close> goes on with its result.
\<close>

definition then_do :: "'a res option \<Rightarrow> ('a \<Rightarrow> 'b res option) \<Rightarrow> 'b res option" where
  "then_do m f = (case m of None \<Rightarrow> None | Some (Inl e) \<Rightarrow> Some (Inl e) | Some (Inr x) \<Rightarrow> f x)"

lemma then_do_simps [simp]:
  "then_do None f = None" "then_do (Some (Inl e)) f = Some (Inl e)" "then_do (Some (Inr x)) f = f x"
  by (simp_all add: then_do_def)

lemma then_do_eq_Inr: "then_do m f = Some (Inr y) \<longleftrightarrow> (\<exists>x. m = Some (Inr x) \<and> f x = Some (Inr y))"
  by (auto simp: then_do_def split: option.splits sum.splits)

section \<open>Bounded memory\<close>

text \<open>
  A buffer is the list of its bytes. \<open>memcpy\<close> out of it and into it is defined inside its bounds
  and a fault outside.
\<close>

definition mem_read :: "byte list \<Rightarrow> nat \<Rightarrow> nat \<Rightarrow> byte list res" where
  "mem_read buf p n = (if p + n \<le> length buf then Inr (take n (drop p buf)) else Inl OutOfBounds)"

definition mem_write :: "byte list \<Rightarrow> nat \<Rightarrow> byte list \<Rightarrow> byte list res" where
  "mem_write buf p bs =
     (if p + length bs \<le> length buf
      then Inr (take p buf @ bs @ drop (p + length bs) buf) else Inl OutOfBounds)"

definition deref :: "'a option \<Rightarrow> 'a res" where
  "deref p = (case p of None \<Rightarrow> Inl NullDeref | Some x \<Rightarrow> Inr x)"

lemma mem_read_in [simp, res_simps]:
  "p + n \<le> length buf \<Longrightarrow> mem_read buf p n = Inr (take n (drop p buf))"
  by (simp add: mem_read_def)

lemma mem_write_in [simp, res_simps]:
  "p + length bs \<le> length buf \<Longrightarrow>
     mem_write buf p bs = Inr (take p buf @ bs @ drop (p + length bs) buf)"
  by (simp add: mem_write_def)

lemma mem_write_length: "mem_write buf p bs = Inr buf' \<Longrightarrow> length buf' = length buf"
  by (auto simp: mem_write_def split: if_splits)

lemma deref_simps [simp, res_simps]: "deref (Some x) = Inr x" "deref None = Inl NullDeref"
  by (simp_all add: deref_def)

text \<open>Reading back what was written, and reading beside it.\<close>

lemma read_written:
  assumes "p + length bs \<le> length buf"
  shows "take (length bs) (drop p (take p buf @ bs @ drop (p + length bs) buf)) = bs"
  using assms by simp

lemma read_before_written:
  assumes "q + n \<le> p" and "p + length bs \<le> length buf"
  shows "take n (drop q (take p buf @ bs @ drop (p + length bs) buf)) = take n (drop q buf)"
proof -
  have "drop q (take p buf @ bs @ drop (p + length bs) buf)
      = take (p - q) (drop q buf) @ bs @ drop (p + length bs) buf"
    using assms by (simp add: drop_take)
  moreover have "n \<le> length (take (p - q) (drop q buf))"
    using assms by simp
  ultimately have "take n (drop q (take p buf @ bs @ drop (p + length bs) buf))
      = take n (take (p - q) (drop q buf))"
    by simp
  then show ?thesis
    using assms by (simp add: min_def)
qed

lemma read_after_written:
  assumes "p + length bs \<le> q" and "p + length bs \<le> length buf"
  shows "take n (drop q (take p buf @ bs @ drop (p + length bs) buf)) = take n (drop q buf)"
proof -
  have "drop q (take p buf @ bs @ drop (p + length bs) buf) = drop q buf"
    using assms by simp
  then show ?thesis by simp
qed

section \<open>C strings\<close>

text \<open>The bytes before the first zero byte, or \<open>None\<close> if there is none.\<close>

fun strnlen :: "byte list \<Rightarrow> nat option" where
  "strnlen [] = None"
| "strnlen (b # bs) = (if b = 0 then Some 0 else map_option Suc (strnlen bs))"

text \<open>
  \<open>strcpy_s (dst) (src)\<close> with an array destination: copies up to and including the zero byte.
  When there is no zero byte among the first \<open>sizeof dst\<close> bytes of the source the runtime calls
  the invalid-parameter handler; a source object that ends before that is read out of bounds.
\<close>

definition strcpy_s :: "byte list \<Rightarrow> byte list \<Rightarrow> byte list res" where
  "strcpy_s dst src =
     (case strnlen (take (length dst) src) of
        Some k \<Rightarrow> Inr (take (Suc k) src @ drop (Suc k) dst)
      | None \<Rightarrow> if length src < length dst then Inl OutOfBounds else Inl InvalidParameter)"

lemma strnlen_less: "strnlen bs = Some k \<Longrightarrow> k < length bs"
  by (induction bs arbitrary: k) (auto split: if_splits)

lemma strnlen_Some_iff: "(\<exists>k. strnlen bs = Some k) \<longleftrightarrow> 0 \<in> set bs"
  by (induction bs) auto

lemma strnlen_None_iff: "strnlen bs = None \<longleftrightarrow> 0 \<notin> set bs"
  by (induction bs) auto

lemma strnlen_append: "strnlen xs = Some k \<Longrightarrow> strnlen (xs @ ys) = Some k"
  by (induction xs arbitrary: k) (auto split: if_splits)

lemma strnlen_take: "strnlen bs = Some k \<Longrightarrow> k < n \<Longrightarrow> strnlen (take n bs) = Some k"
proof (induction bs arbitrary: k n)
  case (Cons b bs)
  then show ?case by (cases n) (auto split: if_splits)
qed simp

lemma strnlen_take_Suc: "strnlen bs = Some k \<Longrightarrow> strnlen (take (Suc k) bs @ ys) = Some k"
  by (rule strnlen_append) (simp add: strnlen_take)

lemma strcpy_s_ok:
  assumes "strnlen src = Some k" and "k < length dst"
  shows "strcpy_s dst src = Inr (take (Suc k) src @ drop (Suc k) dst)"
  using assms by (simp add: strcpy_s_def strnlen_take)

lemma strcpy_s_too_long:
  assumes "strnlen src = Some k" and "length dst \<le> k"
  shows "strcpy_s dst src = Inl InvalidParameter"
proof -
  have "strnlen (take (length dst) src) = None"
  proof (cases "strnlen (take (length dst) src)")
    case (Some j)
    from strnlen_append [OF this, of "drop (length dst) src"] strnlen_less [OF this] assms show ?thesis by simp
  qed simp
  then show ?thesis using strnlen_less [OF assms(1)] assms(2) by (simp add: strcpy_s_def)
qed

lemma strcpy_s_length:
  assumes "strcpy_s dst src = Inr r"
  shows "length r = length dst"
proof -
  from assms obtain k where k: "strnlen (take (length dst) src) = Some k"
      and r: "r = take (Suc k) src @ drop (Suc k) dst"
    by (auto simp: strcpy_s_def split: option.splits if_splits)
  from k have "k < length (take (length dst) src)" by (rule strnlen_less)
  then have "Suc k \<le> length src" and "Suc k \<le> length dst" by simp_all
  with r show ?thesis by (simp only: length_append length_take length_drop min.absorb2 le_add_diff_inverse)
qed

lemma strcpy_s_terminated:
  assumes "strcpy_s dst src = Inr r"
  shows "\<exists>k < length dst. strnlen r = Some k \<and> strnlen src = Some k \<and> take k r = take k src"
proof -
  from assms obtain k where k: "strnlen (take (length dst) src) = Some k"
      and r: "r = take (Suc k) src @ drop (Suc k) dst"
    by (auto simp: strcpy_s_def split: option.splits if_splits)
  from strnlen_less [OF k] have len: "k < length dst" "k < length src" by auto
  have src: "strnlen src = Some k"
    using strnlen_append [OF k, of "drop (length dst) src"] by simp
  then have "strnlen r = Some k" by (simp add: r strnlen_take_Suc)
  moreover have "take k r = take k src" using len by (simp add: r min_def)
  ultimately show ?thesis using len src by blast
qed

text \<open>\<open>strlen\<close> of a string without a zero byte runs off its object.\<close>

definition strlen :: "byte list \<Rightarrow> nat res" where
  "strlen s = (case strnlen s of None \<Rightarrow> Inl OutOfBounds | Some k \<Rightarrow> Inr k)"

lemma strlen_ok: "strnlen s = Some k \<Longrightarrow> strlen s = Inr k"
  by (simp add: strlen_def)

text \<open>Strings in arrays: a zero byte within the array, and the characters before it.\<close>

definition terminated :: "nat \<Rightarrow> byte list \<Rightarrow> bool" where
  "terminated n s \<longleftrightarrow> length s = n \<and> 0 \<in> set s"

definition c_string :: "byte list \<Rightarrow> byte list" where
  "c_string s = takeWhile (\<lambda>b. b \<noteq> 0) s"

lemma strnlen_c_string: "strnlen s = Some k \<Longrightarrow> take k s = c_string s"
  unfolding c_string_def by (induction s arbitrary: k) (auto split: if_splits)

lemma terminated_strnlen:
  assumes "terminated n s"
  obtains k where "strnlen s = Some k" "k < n" "take k s = c_string s"
  using assms strnlen_Some_iff [of s] strnlen_less [of s] strnlen_c_string [of s]
  by (auto simp: terminated_def)

lemma strcpy_s_terminated_array:
  "strcpy_s dst src = Inr r \<Longrightarrow> terminated (length dst) r"
  using strcpy_s_terminated [of dst src r] strcpy_s_length [of dst src r] strnlen_Some_iff [of r]
  by (auto simp: terminated_def)

section \<open>Ordered maps\<close>

text \<open>
  \<open>std::map\<close>: an association list in key order. \<open>insert\<close> leaves an entry that is already there.
\<close>

fun map_insert :: "'k::linorder \<Rightarrow> 'v \<Rightarrow> ('k \<times> 'v) list \<Rightarrow> ('k \<times> 'v) list" where
  "map_insert k v [] = [(k, v)]"
| "map_insert k v ((k', v') # m) =
     (if k < k' then (k, v) # (k', v') # m
      else if k = k' then (k', v') # m
      else (k', v') # map_insert k v m)"

definition map_erase :: "'k \<Rightarrow> ('k \<times> 'v) list \<Rightarrow> ('k \<times> 'v) list" where
  "map_erase k m = filter (\<lambda>e. fst e \<noteq> k) m"

definition map_ok :: "('k::linorder \<times> 'v) list \<Rightarrow> bool" where
  "map_ok m \<longleftrightarrow> sorted (map fst m) \<and> distinct (map fst m)"

lemma set_map_insert_keys: "fst ` set (map_insert k v m) = insert k (fst ` set m)"
  by (induction k v m rule: map_insert.induct) auto

lemma map_ok_insert [intro]: "map_ok m \<Longrightarrow> map_ok (map_insert k v m)"
  unfolding map_ok_def
proof (induction k v m rule: map_insert.induct)
  case (2 k v k' v' m)
  then show ?case
    using set_map_insert_keys [of k v m] by auto
qed simp

lemma map_of_insert:
  "map_ok m \<Longrightarrow> map_of (map_insert k v m) = (if k \<in> dom (map_of m) then map_of m else (map_of m)(k \<mapsto> v))"
proof (induction k v m rule: map_insert.induct)
  case (2 k v k' v' m)
  from "2.prems" have ok: "map_ok m" and less: "\<And>x. x \<in> fst ` set m \<Longrightarrow> k' < x"
    by (auto simp: map_ok_def order_le_less)
  show ?case
  proof (cases "k < k'")
    case True
    then have "k \<notin> fst ` set m" using less [of k] by (meson less_asym)
    then have "map_of m k = None" by (simp add: map_of_eq_None_iff)
    with True show ?thesis by (auto split: if_splits)
  next
    case False
    with "2.IH" ok show ?thesis by (auto simp: fun_eq_iff)
  qed
qed simp

lemma map_insert_present: "map_ok m \<Longrightarrow> k \<in> fst ` set m \<Longrightarrow> map_insert k v m = m"
proof (induction k v m rule: map_insert.induct)
  case (2 k v k' v' m)
  from "2.prems"(1) have ok: "map_ok m" and less: "\<And>x. x \<in> fst ` set m \<Longrightarrow> k' \<le> x"
    by (auto simp: map_ok_def)
  show ?case
  proof (cases "k = k'")
    case False
    with "2.prems"(2) have "k \<in> fst ` set m" by auto
    with less [of k] False have "k' < k" by auto
    with False "2.IH" ok \<open>k \<in> fst ` set m\<close> show ?thesis by auto
  qed simp
qed simp

lemma set_map_insert_fresh:
  "k \<notin> fst ` set m \<Longrightarrow> set (map_insert k v m) = insert (k, v) (set m)"
  by (induction k v m rule: map_insert.induct) auto

lemma map_ok_erase [intro]: "map_ok m \<Longrightarrow> map_ok (map_erase k m)"
  unfolding map_ok_def map_erase_def
  by (induction m) (auto simp: image_iff)

lemma set_map_erase [simp]: "set (map_erase k m) = {e \<in> set m. fst e \<noteq> k}"
  by (simp add: map_erase_def)

lemma map_of_erase: "map_of (map_erase k m) = (map_of m)(k := None)"
  by (induction m) (auto simp: map_erase_def fun_eq_iff)

lemma map_ok_map_of: "map_ok m \<Longrightarrow> map_of m k = Some v \<longleftrightarrow> (k, v) \<in> set m"
  by (simp add: map_ok_def map_of_eq_Some_iff)

end
