(* ===== verification/Circular_Buffer.thy ===== *)
theory Circular_Buffer
  imports EGS_Prelude
begin

text \<open>
  The class \<open>CircularBuffer\<close> of \<open>EasyServer/EasyServer/CircularBuffer.h\<close> and
  \<open>CircularBuffer.cpp\<close>: a byte queue with two regions, A (read first) and B (at the start of the
  array, in front of A). Pointers are offsets from \<open>mBuffer\<close>; \<open>nullptr\<close> is \<open>None\<close>.
  The operations are defined on every extension of the record, since the game client has a copy
  of the class with one more field.
\<close>

section \<open>State and operations\<close>

record circular_buffer =
  mBuffer :: "byte list"
  mBufferEnd :: nat
  mARegionPointer :: nat
  mARegionSize :: nat
  mBRegionPointer :: "nat option"
  mBRegionSize :: nat

text \<open>\<open>new char[capacity]\<close> is not initialised: \<open>junk\<close> gives the bytes found there.\<close>

definition CircularBuffer :: "(nat \<Rightarrow> byte) \<Rightarrow> nat \<Rightarrow> circular_buffer" where
  "CircularBuffer junk capacity =
     \<lparr>mBuffer = map junk [0..<capacity], mBufferEnd = capacity,
      mARegionPointer = 0, mARegionSize = 0, mBRegionPointer = None, mBRegionSize = 0\<rparr>"

definition AllocateB :: "'a circular_buffer_scheme \<Rightarrow> 'a circular_buffer_scheme" where
  "AllocateB cb = cb\<lparr>mBRegionPointer := Some 0\<rparr>"

definition GetAFreeSpace :: "'a circular_buffer_scheme \<Rightarrow> nat" where
  "GetAFreeSpace cb = sz_sub (sz_sub (mBufferEnd cb) (mARegionPointer cb)) (mARegionSize cb)"

definition GetSpaceBeforeA :: "'a circular_buffer_scheme \<Rightarrow> nat" where
  "GetSpaceBeforeA cb = mARegionPointer cb"

definition GetBFreeSpace :: "'a circular_buffer_scheme \<Rightarrow> nat" where
  "GetBFreeSpace cb =
     (case mBRegionPointer cb of
        None \<Rightarrow> 0
      | Some b \<Rightarrow> sz_sub (sz_sub (mARegionPointer cb) b) (mBRegionSize cb))"

definition GetFreeSpaceSize :: "'a circular_buffer_scheme \<Rightarrow> nat \<times> 'a circular_buffer_scheme" where
  "GetFreeSpaceSize cb =
     (if mBRegionPointer cb \<noteq> None then (GetBFreeSpace cb, cb)
      else if GetAFreeSpace cb < GetSpaceBeforeA cb
        then (let cb' = AllocateB cb in (GetBFreeSpace cb', cb'))
        else (GetAFreeSpace cb, cb))"

definition GetStoredSize :: "'a circular_buffer_scheme \<Rightarrow> nat" where
  "GetStoredSize cb = sz_add (mARegionSize cb) (mBRegionSize cb)"

definition GetContiguiousBytes :: "'a circular_buffer_scheme \<Rightarrow> nat" where
  "GetContiguiousBytes cb = (if mARegionSize cb > 0 then mARegionSize cb else mBRegionSize cb)"

definition GetBuffer :: "'a circular_buffer_scheme \<Rightarrow> nat" where
  "GetBuffer cb =
     (case mBRegionPointer cb of
        Some b \<Rightarrow> b + mBRegionSize cb
      | None \<Rightarrow> mARegionPointer cb + mARegionSize cb)"

definition Commit :: "'a circular_buffer_scheme \<Rightarrow> nat \<Rightarrow> 'a circular_buffer_scheme" where
  "Commit cb len =
     (if mBRegionPointer cb \<noteq> None
      then cb\<lparr>mBRegionSize := sz_add (mBRegionSize cb) len\<rparr>
      else cb\<lparr>mARegionSize := sz_add (mARegionSize cb) len\<rparr>)"

definition GetBufferStart :: "'a circular_buffer_scheme \<Rightarrow> nat option" where
  "GetBufferStart cb =
     (if mARegionSize cb > 0 then Some (mARegionPointer cb) else mBRegionPointer cb)"

text \<open>
  \<open>Peek\<close>: the bytes put into \<open>destbuf\<close>, or \<open>None\<close> where the code returns \<open>false\<close>.
\<close>

definition Peek :: "'a circular_buffer_scheme \<Rightarrow> nat \<Rightarrow> byte list option res" where
  "Peek cb bytes =
     (if GetStoredSize cb < bytes then Inr None
      else
        rbind (if mARegionSize cb > 0
               then (let aRead = (if bytes > mARegionSize cb then mARegionSize cb else bytes)
                     in rbind (mem_read (mBuffer cb) (mARegionPointer cb) aRead)
                          (\<lambda>d. Inr (d, bytes - aRead)))
               else Inr ([], bytes))
          (\<lambda>(destA, cnt).
        rbind (if cnt > 0 \<and> mBRegionSize cb > 0
               then rbind (C_assert (cnt \<le> mBRegionSize cb)) (\<lambda>_.
                    rbind (deref (mBRegionPointer cb)) (\<lambda>b.
                    rbind (mem_read (mBuffer cb) b cnt) (\<lambda>d.
                    Inr (destA @ d, cnt - cnt))))
               else Inr (destA, cnt))
          (\<lambda>(dest, cnt).
        rbind (C_assert (cnt = 0)) (\<lambda>_.
        Inr (Some dest)))))"

text \<open>
  The end of \<open>Read\<close> and of \<open>Remove\<close>: when A is empty, region B is moved to the start of the array
  and becomes A; when B is empty too, A starts again at the start of the array.
\<close>

definition PromoteB :: "'a circular_buffer_scheme \<Rightarrow> 'a circular_buffer_scheme res" where
  "PromoteB cb =
     (if mARegionSize cb = 0
      then if mBRegionSize cb > 0
           then rbind (if mBRegionPointer cb \<noteq> Some 0
                       then rbind (deref (mBRegionPointer cb)) (\<lambda>b.
                            rbind (mem_read (mBuffer cb) b (mBRegionSize cb)) (\<lambda>d.
                            mem_write (mBuffer cb) 0 d))
                       else Inr (mBuffer cb))
                  (\<lambda>buf. Inr (cb\<lparr>mBuffer := buf, mARegionPointer := 0, mARegionSize := mBRegionSize cb,
                                  mBRegionPointer := None, mBRegionSize := 0\<rparr>))
           else Inr (cb\<lparr>mBRegionPointer := None, mBRegionSize := 0,
                        mARegionPointer := 0, mARegionSize := 0\<rparr>)
      else Inr cb)"

definition Read ::
    "'a circular_buffer_scheme \<Rightarrow> nat \<Rightarrow> (byte list option \<times> 'a circular_buffer_scheme) res" where
  "Read cb bytes =
     (if GetStoredSize cb < bytes then Inr (None, cb)
      else
        rbind (if mARegionSize cb > 0
               then (let aRead = (if bytes > mARegionSize cb then mARegionSize cb else bytes)
                     in rbind (mem_read (mBuffer cb) (mARegionPointer cb) aRead)
                          (\<lambda>d. Inr (d, bytes - aRead,
                                 cb\<lparr>mARegionSize := mARegionSize cb - aRead,
                                    mARegionPointer := mARegionPointer cb + aRead\<rparr>)))
               else Inr ([], bytes, cb))
          (\<lambda>(destA, cnt, cb).
        rbind (if cnt > 0 \<and> mBRegionSize cb > 0
               then rbind (C_assert (cnt \<le> mBRegionSize cb)) (\<lambda>_.
                    rbind (deref (mBRegionPointer cb)) (\<lambda>b.
                    rbind (mem_read (mBuffer cb) b cnt) (\<lambda>d.
                    Inr (destA @ d, cnt - cnt,
                         cb\<lparr>mBRegionSize := sz_sub (mBRegionSize cb) cnt,
                            mBRegionPointer := Some (b + cnt)\<rparr>))))
               else Inr (destA, cnt, cb))
          (\<lambda>(dest, cnt, cb).
        rbind (C_assert (cnt = 0)) (\<lambda>_.
        rbind (PromoteB cb) (\<lambda>cb.
        Inr (Some dest, cb))))))"

text \<open>\<open>Write\<close>: \<open>data\<close> is the memory that may be read from the source pointer on.\<close>

definition Write ::
    "'a circular_buffer_scheme \<Rightarrow> byte list \<Rightarrow> nat \<Rightarrow> (bool \<times> 'a circular_buffer_scheme) res" where
  "Write cb data bytes =
     (let writeB = (\<lambda>cb.
            if GetBFreeSpace cb < bytes then Inr (False, cb)
            else rbind (deref (mBRegionPointer cb)) (\<lambda>b.
                 rbind (mem_read data 0 bytes) (\<lambda>d.
                 rbind (mem_write (mBuffer cb) (b + mBRegionSize cb) d) (\<lambda>buf.
                 Inr (True, cb\<lparr>mBuffer := buf, mBRegionSize := sz_add (mBRegionSize cb) bytes\<rparr>)))))
      in if mBRegionPointer cb \<noteq> None then writeB cb
         else if GetAFreeSpace cb < GetSpaceBeforeA cb then writeB (AllocateB cb)
         else if GetAFreeSpace cb < bytes then Inr (False, cb)
         else rbind (mem_read data 0 bytes) (\<lambda>d.
              rbind (mem_write (mBuffer cb) (mARegionPointer cb + mARegionSize cb) d) (\<lambda>buf.
              Inr (True, cb\<lparr>mBuffer := buf, mARegionSize := sz_add (mARegionSize cb) bytes\<rparr>))))"

definition Remove :: "'a circular_buffer_scheme \<Rightarrow> nat \<Rightarrow> 'a circular_buffer_scheme res" where
  "Remove cb len =
     (let (cnt, cb) =
            (if mARegionSize cb > 0
             then (let aRemove = (if len > mARegionSize cb then mARegionSize cb else len)
                   in (len - aRemove, cb\<lparr>mARegionSize := mARegionSize cb - aRemove,
                                          mARegionPointer := mARegionPointer cb + aRemove\<rparr>))
             else (len, cb));
          cb = (if cnt > 0 \<and> mBRegionSize cb > 0
                then (let bRemove = (if cnt > mBRegionSize cb then mBRegionSize cb else cnt)
                      in cb\<lparr>mBRegionSize := mBRegionSize cb - bRemove,
                            mBRegionPointer := map_option (\<lambda>b. b + bRemove) (mBRegionPointer cb)\<rparr>)
                else cb)
      in PromoteB cb)"

section \<open>Invariant and contents\<close>

text \<open>
  What the class keeps between its fields: A lies in the array and starts at its start when it is
  empty; B exists only in front of a non-empty A and starts at the start of the array.
\<close>

definition cb_ok :: "'a circular_buffer_scheme \<Rightarrow> bool" where
  "cb_ok cb \<longleftrightarrow>
     mBufferEnd cb = length (mBuffer cb) \<and> length (mBuffer cb) < SIZE_MOD \<and>
     mARegionPointer cb + mARegionSize cb \<le> length (mBuffer cb) \<and>
     (mARegionSize cb = 0 \<longrightarrow> mARegionPointer cb = 0) \<and>
     (case mBRegionPointer cb of
        None \<Rightarrow> mBRegionSize cb = 0
      | Some b \<Rightarrow> b = 0 \<and> 0 < mARegionSize cb \<and> mBRegionSize cb \<le> mARegionPointer cb)"

text \<open>The bytes in the queue, in the order they are read.\<close>

definition contents :: "'a circular_buffer_scheme \<Rightarrow> byte list" where
  "contents cb =
     take (mARegionSize cb) (drop (mARegionPointer cb) (mBuffer cb)) @
     (case mBRegionPointer cb of
        None \<Rightarrow> []
      | Some b \<Rightarrow> take (mBRegionSize cb) (drop b (mBuffer cb)))"

text \<open>The largest number of bytes the next \<open>Write\<close> accepts.\<close>

definition room :: "'a circular_buffer_scheme \<Rightarrow> nat" where
  "room cb = fst (GetFreeSpaceSize cb)"

lemma cb_ok_cases:
  assumes "cb_ok cb"
  obtains (A) "mBRegionPointer cb = None" "mBRegionSize cb = 0"
      "mBufferEnd cb = length (mBuffer cb)" "length (mBuffer cb) < SIZE_MOD"
      "mARegionPointer cb + mARegionSize cb \<le> length (mBuffer cb)"
      "mARegionSize cb = 0 \<longrightarrow> mARegionPointer cb = 0"
  | (AB) "mBRegionPointer cb = Some 0" "0 < mARegionSize cb"
      "mBRegionSize cb \<le> mARegionPointer cb"
      "mBufferEnd cb = length (mBuffer cb)" "length (mBuffer cb) < SIZE_MOD"
      "mARegionPointer cb + mARegionSize cb \<le> length (mBuffer cb)"
  using assms by (cases "mBRegionPointer cb") (auto simp: cb_ok_def)

lemma length_contents: "cb_ok cb \<Longrightarrow> length (contents cb) = mARegionSize cb + mBRegionSize cb"
  by (erule cb_ok_cases) (auto simp: contents_def)

lemma GetStoredSize_contents: "cb_ok cb \<Longrightarrow> GetStoredSize cb = length (contents cb)"
  by (frule length_contents, erule cb_ok_cases) (auto simp: GetStoredSize_def)

lemma room_alt:
  assumes "cb_ok cb"
  shows "room cb =
    (if mBRegionPointer cb \<noteq> None then mARegionPointer cb - mBRegionSize cb
     else max (length (mBuffer cb) - mARegionPointer cb - mARegionSize cb) (mARegionPointer cb))"
  using assms
  by (cases rule: cb_ok_cases)
    (auto simp: room_def GetFreeSpaceSize_def GetBFreeSpace_def GetAFreeSpace_def
        GetSpaceBeforeA_def AllocateB_def Let_def max_def)

section \<open>What each operation does to the contents\<close>

lemma Peek_contents:
  assumes "cb_ok cb"
  shows "Peek cb n = Inr (if n \<le> length (contents cb) then Some (take n (contents cb)) else None)"
proof (cases "n \<le> length (contents cb)")
  case False
  with assms show ?thesis by (simp add: Peek_def GetStoredSize_contents)
next
  case True
  with assms have n: "n \<le> mARegionSize cb + mBRegionSize cb" by (simp add: length_contents)
  from assms show ?thesis
  proof (cases rule: cb_ok_cases)
    case A
    with n show ?thesis
      by (cases "mARegionSize cb = 0") (auto simp: Peek_def GetStoredSize_def contents_def Let_def)
  next
    case AB
    with n show ?thesis
      by (auto simp: Peek_def GetStoredSize_def contents_def Let_def)
  qed
qed

lemma PromoteB_contents:
  assumes "mBufferEnd cb = length (mBuffer cb)" "length (mBuffer cb) < SIZE_MOD"
    and "mARegionPointer cb + mARegionSize cb \<le> length (mBuffer cb)"
    and "case mBRegionPointer cb of None \<Rightarrow> mBRegionSize cb = 0
         | Some b \<Rightarrow> b + mBRegionSize cb \<le> length (mBuffer cb)"
    and "mARegionSize cb > 0 \<Longrightarrow> cb_ok cb"
  shows "\<exists>cb'. PromoteB cb = Inr cb' \<and> cb_ok cb' \<and> contents cb' = contents cb \<and>
    length (mBuffer cb') = length (mBuffer cb)"
proof (cases "mARegionSize cb > 0")
  case True
  with assms(5) show ?thesis by (simp add: PromoteB_def)
next
  case False
  with assms(1-4) show ?thesis
    by (auto simp: PromoteB_def cb_ok_def contents_def split: option.splits)
qed

lemma Remove_contents:
  assumes "cb_ok cb"
  shows "\<exists>cb'. Remove cb n = Inr cb' \<and> cb_ok cb' \<and> contents cb' = drop n (contents cb) \<and> length (mBuffer cb') = length (mBuffer cb)"
  using assms
proof (cases rule: cb_ok_cases)
  case A
  then show ?thesis
    by (cases "n < mARegionSize cb") (auto simp: Remove_def PromoteB_def cb_ok_def contents_def drop_take Let_def add.commute)
next
  case AB
  show ?thesis
  proof (cases "n < mARegionSize cb")
    case True
    with AB show ?thesis by (auto simp: Remove_def PromoteB_def cb_ok_def contents_def drop_take Let_def add.commute)
  next
    case False
    let ?m = "min (n - mARegionSize cb) (mBRegionSize cb)"
    let ?cb = "cb\<lparr>mARegionSize := 0, mARegionPointer := mARegionPointer cb + mARegionSize cb,
      mBRegionSize := mBRegionSize cb - ?m, mBRegionPointer := Some ?m\<rparr>"
    from AB have "\<exists>cb'. PromoteB ?cb = Inr cb' \<and> cb_ok cb' \<and> contents cb' = contents ?cb \<and>
        length (mBuffer cb') = length (mBuffer ?cb)"
      by (intro PromoteB_contents) auto
    moreover have "Remove cb n = PromoteB ?cb"
      using AB False by (cases cb) (auto simp: Remove_def Let_def min_def)
    moreover have "contents ?cb = drop n (contents cb)"
      using AB False by (cases "n - mARegionSize cb \<le> mBRegionSize cb") (auto simp: contents_def drop_take)
    ultimately show ?thesis by simp
  qed
qed

lemma Read_false: "cb_ok cb \<Longrightarrow> length (contents cb) < n \<Longrightarrow> Read cb n = Inr (None, cb)"
  by (simp add: Read_def GetStoredSize_contents)

lemma Read_Remove:
  assumes "cb_ok cb" and n: "n \<le> length (contents cb)"
  shows "Read cb n = rbind (Remove cb n) (\<lambda>cb'. Inr (Some (take n (contents cb)), cb'))"
  using assms(1)
proof (cases rule: cb_ok_cases)
  case A
  with n show ?thesis
    by (cases "mARegionSize cb = 0")
      (auto simp: Read_def Remove_def GetStoredSize_def contents_def Let_def)
next
  case AB
  with n show ?thesis
    by (auto simp: Read_def Remove_def GetStoredSize_def contents_def Let_def)
qed

lemma Read_contents:
  assumes "cb_ok cb" and "n \<le> length (contents cb)"
  shows "\<exists>cb'. Read cb n = Inr (Some (take n (contents cb)), cb') \<and> cb_ok cb' \<and>
    contents cb' = drop n (contents cb) \<and> length (mBuffer cb') = length (mBuffer cb)"
  using Remove_contents [OF assms(1), of n] by (auto simp: Read_Remove [OF assms])

lemma Write_full:
  assumes "cb_ok cb" and "room cb < n"
  shows "\<exists>cb'. Write cb data n = Inr (False, cb') \<and> cb_ok cb' \<and> contents cb' = contents cb \<and>
    room cb' = room cb \<and> length (mBuffer cb') = length (mBuffer cb)"
  using assms(1)
proof (cases rule: cb_ok_cases)
  case A
  with assms show ?thesis
    by (auto simp: Write_def room_def GetFreeSpaceSize_def GetBFreeSpace_def GetAFreeSpace_def
        GetSpaceBeforeA_def AllocateB_def contents_def cb_ok_def Let_def split: if_splits)
next
  case AB
  with assms show ?thesis
    by (auto simp: Write_def room_def GetFreeSpaceSize_def GetBFreeSpace_def Let_def)
qed

lemma Write_contents:
  assumes "cb_ok cb" and "n \<le> room cb" and "n \<le> length data"
  shows "\<exists>cb'. Write cb data n = Inr (True, cb') \<and> cb_ok cb' \<and>
    contents cb' = contents cb @ take n data \<and> length (mBuffer cb') = length (mBuffer cb)"
  using assms(1)
proof (cases rule: cb_ok_cases)
  case A
  with assms show ?thesis
    by (auto simp: Write_def room_def GetFreeSpaceSize_def GetBFreeSpace_def GetAFreeSpace_def
        GetSpaceBeforeA_def AllocateB_def contents_def cb_ok_def drop_take Let_def split: if_splits)
next
  case AB
  with assms show ?thesis
    by (auto simp: Write_def room_def GetFreeSpaceSize_def GetBFreeSpace_def Let_def contents_def cb_ok_def)
qed

section \<open>The paths of the network code\<close>

text \<open>
  A receive is posted with the free region and its length; the kernel fills it later, and
  \<open>Commit\<close> takes the bytes in. A region is posted on a buffer that \<open>GetFreeSpaceSize\<close> has left.
\<close>

definition KernelWrite :: "'a circular_buffer_scheme \<Rightarrow> nat \<Rightarrow> byte list \<Rightarrow> 'a circular_buffer_scheme res" where
  "KernelWrite cb off bs = rbind (mem_write (mBuffer cb) off bs) (\<lambda>buf. Inr (cb\<lparr>mBuffer := buf\<rparr>))"

definition settled :: "'a circular_buffer_scheme \<Rightarrow> bool" where
  "settled cb \<longleftrightarrow>
     mBRegionPointer cb \<noteq> None \<or>
     mARegionPointer cb \<le> length (mBuffer cb) - mARegionPointer cb - mARegionSize cb"

lemma GetFreeSpaceSize_eq:
  assumes "cb_ok cb"
  shows "GetFreeSpaceSize cb = (room cb, if settled cb then cb else AllocateB cb)"
  using assms
  by (cases rule: cb_ok_cases)
    (auto simp: room_def settled_def GetFreeSpaceSize_def GetAFreeSpace_def GetSpaceBeforeA_def
      Let_def)

lemma AllocateB_ok:
  assumes "cb_ok cb" and "\<not> settled cb"
  shows "cb_ok (AllocateB cb)" "contents (AllocateB cb) = contents cb" "settled (AllocateB cb)"
    "room (AllocateB cb) = room cb" "length (mBuffer (AllocateB cb)) = length (mBuffer cb)"
  using assms
  by (auto simp: cb_ok_def contents_def settled_def AllocateB_def room_def GetFreeSpaceSize_def
      GetBFreeSpace_def GetAFreeSpace_def GetSpaceBeforeA_def Let_def)

lemma GetFreeSpaceSize_ok:
  assumes "cb_ok cb"
  shows "fst (GetFreeSpaceSize cb) = room cb"
    and "cb_ok (snd (GetFreeSpaceSize cb))"
    and "settled (snd (GetFreeSpaceSize cb))"
    and "contents (snd (GetFreeSpaceSize cb)) = contents cb"
    and "room (snd (GetFreeSpaceSize cb)) = room cb"
    and "length (mBuffer (snd (GetFreeSpaceSize cb))) = length (mBuffer cb)"
  using assms AllocateB_ok [OF assms] by (auto simp: GetFreeSpaceSize_eq)

lemma Receive_contents:
  assumes "cb_ok cb" and "settled cb" and "length bs \<le> room cb"
  shows "\<exists>cb'. KernelWrite cb (GetBuffer cb) bs = Inr cb' \<and>
    cb_ok (Commit cb' (length bs)) \<and> contents (Commit cb' (length bs)) = contents cb @ bs \<and>
    length (mBuffer (Commit cb' (length bs))) = length (mBuffer cb)"
  using assms(1)
proof (cases rule: cb_ok_cases)
  case A
  with assms show ?thesis
    by (auto simp: KernelWrite_def room_alt settled_def GetBuffer_def Commit_def contents_def
        cb_ok_def drop_take)
next
  case AB
  with assms show ?thesis
    by (auto simp: KernelWrite_def room_alt settled_def GetBuffer_def Commit_def contents_def
        cb_ok_def)
qed

lemma GetContiguiousBytes_zero: "cb_ok cb \<Longrightarrow> GetContiguiousBytes cb = 0 \<longleftrightarrow> contents cb = []"
  by (erule cb_ok_cases) (auto simp: GetContiguiousBytes_def contents_def)

lemma GetContiguiousBytes_le: "cb_ok cb \<Longrightarrow> GetContiguiousBytes cb \<le> length (contents cb)"
  by (erule cb_ok_cases) (auto simp: GetContiguiousBytes_def contents_def)

lemma GetContiguiousBytes_read:
  assumes "cb_ok cb" and "contents cb \<noteq> []"
  shows "\<exists>p. GetBufferStart cb = Some p \<and>
    mem_read (mBuffer cb) p (GetContiguiousBytes cb) =
      Inr (take (GetContiguiousBytes cb) (contents cb))"
  using assms(1)
proof (cases rule: cb_ok_cases)
  case A
  with assms show ?thesis
    by (auto simp: GetBufferStart_def GetContiguiousBytes_def contents_def)
next
  case AB
  then show ?thesis
    by (auto simp: GetBufferStart_def GetContiguiousBytes_def contents_def)
qed

lemma CircularBuffer_ok:
  "capacity < SIZE_MOD \<Longrightarrow> cb_ok (CircularBuffer junk capacity)"
  "contents (CircularBuffer junk capacity) = []"
  "length (mBuffer (CircularBuffer junk capacity)) = capacity"
  by (simp_all add: CircularBuffer_def cb_ok_def contents_def)

lemma room_empty: "cb_ok cb \<Longrightarrow> contents cb = [] \<Longrightarrow> room cb = length (mBuffer cb)"
  by (frule room_alt) (auto simp: cb_ok_def contents_def split: option.splits)

lemma contents_le_capacity: "cb_ok cb \<Longrightarrow> length (contents cb) \<le> length (mBuffer cb)"
  by (frule length_contents) (auto simp: cb_ok_def split: option.splits)

lemma room_le: "cb_ok cb \<Longrightarrow> room cb + length (contents cb) \<le> length (mBuffer cb)"
  by (frule length_contents, frule room_alt) (auto simp: cb_ok_def split: option.splits)

section \<open>The interface: a byte queue\<close>

text \<open>
  What the sessions and the clients rely on, independently of the two regions.
\<close>

locale byte_queue =
  fixes ok :: "'q \<Rightarrow> bool"
    and stored :: "'q \<Rightarrow> byte list"
    and free :: "'q \<Rightarrow> nat"
    and peek :: "'q \<Rightarrow> nat \<Rightarrow> byte list option res"
    and rd :: "'q \<Rightarrow> nat \<Rightarrow> (byte list option \<times> 'q) res"
    and wr :: "'q \<Rightarrow> byte list \<Rightarrow> nat \<Rightarrow> (bool \<times> 'q) res"
    and rm :: "'q \<Rightarrow> nat \<Rightarrow> 'q res"
  assumes peek_law:
      "ok q \<Longrightarrow> peek q n = Inr (if n \<le> length (stored q) then Some (take n (stored q)) else None)"
    and read_law: "ok q \<Longrightarrow> n \<le> length (stored q) \<Longrightarrow>
      \<exists>q'. rd q n = Inr (Some (take n (stored q)), q') \<and> ok q' \<and> stored q' = drop n (stored q)"
    and read_false: "ok q \<Longrightarrow> length (stored q) < n \<Longrightarrow> rd q n = Inr (None, q)"
    and write_law: "ok q \<Longrightarrow> n \<le> free q \<Longrightarrow> n \<le> length d \<Longrightarrow>
      \<exists>q'. wr q d n = Inr (True, q') \<and> ok q' \<and> stored q' = stored q @ take n d"
    and write_false: "ok q \<Longrightarrow> free q < n \<Longrightarrow>
      \<exists>q'. wr q d n = Inr (False, q') \<and> ok q' \<and> stored q' = stored q \<and> free q' = free q"
    and remove_law: "ok q \<Longrightarrow> \<exists>q'. rm q n = Inr q' \<and> ok q' \<and> stored q' = drop n (stored q)"
begin

lemma write_outcome:
  assumes "ok q" and "n \<le> length d"
  obtains q' where "wr q d n = Inr (n \<le> free q, q')" "ok q'"
    "stored q' = (if n \<le> free q then stored q @ take n d else stored q)"
  using write_law [OF assms(1) _ assms(2)] write_false [OF assms(1), of n d]
  by (cases "n \<le> free q") (auto simp: not_le)

lemma read_outcome:
  assumes "ok q"
  obtains q' where
    "rd q n = Inr (if n \<le> length (stored q) then Some (take n (stored q)) else None, q')" "ok q'"
    "stored q' = (if n \<le> length (stored q) then drop n (stored q) else stored q)"
    "length (stored q) < n \<Longrightarrow> q' = q"
  using read_law [OF assms] read_false [OF assms] assms
  by (cases "n \<le> length (stored q)") (force simp: not_le)+

text \<open>A message that has been peeked at is the one that is read next.\<close>

lemma peek_then_read:
  assumes "ok q" and "peek q n = Inr (Some h)" and "rd q m = Inr (Some d, q')" and "n \<le> m"
  shows "take n d = h"
proof -
  from assms(1,2) have h: "h = take n (stored q)" by (auto simp: peek_law split: if_splits)
  from assms(1,3) have "d = take m (stored q)"
    using read_law [OF assms(1), of m] read_false [OF assms(1), of m]
    by (cases "m \<le> length (stored q)") auto
  with h \<open>n \<le> m\<close> show ?thesis by (simp add: min_def)
qed

text \<open>A message written to an empty queue is the one that is read.\<close>

lemma write_then_read:
  assumes "ok q" and "stored q = []" and "n \<le> free q" and "n \<le> length d"
  shows "\<exists>q' q''. wr q d n = Inr (True, q') \<and> rd q' n = Inr (Some (take n d), q'') \<and>
    ok q'' \<and> stored q'' = []"
proof -
  from write_law [OF assms(1,3,4)] assms(2) obtain q' where
    q': "wr q d n = Inr (True, q')" "ok q'" "stored q' = take n d" by auto
  moreover from read_law [OF q'(2), of n] q'(3) assms(4) obtain q'' where
    "rd q' n = Inr (Some (take n d), q'')" "ok q''" "stored q'' = []" by auto
  ultimately show ?thesis by blast
qed

end

interpretation cbq: byte_queue cb_ok contents room Peek Read Write Remove
proof unfold_locales
  fix q :: "'a circular_buffer_scheme" and n :: nat and d :: "byte list"
  assume ok: "cb_ok q"
  show "Peek q n = Inr (if n \<le> length (contents q) then Some (take n (contents q)) else None)"
    using ok by (rule Peek_contents)
  show "\<exists>q'. Remove q n = Inr q' \<and> cb_ok q' \<and> contents q' = drop n (contents q)"
    using Remove_contents [OF ok] by blast
  show "\<exists>q'. Write q d n = Inr (False, q') \<and> cb_ok q' \<and> contents q' = contents q \<and> room q' = room q"
    if "room q < n" using Write_full [OF ok that] by blast
  show "\<exists>q'. Write q d n = Inr (True, q') \<and> cb_ok q' \<and> contents q' = contents q @ take n d"
    if "n \<le> room q" "n \<le> length d" using Write_contents [OF ok that] by blast
  show "Read q n = Inr (None, q)" if "length (contents q) < n"
    using ok that by (rule Read_false)
  show "\<exists>q'. Read q n = Inr (Some (take n (contents q)), q') \<and> cb_ok q' \<and> contents q' = drop n (contents q)"
    if "n \<le> length (contents q)" using Read_contents [OF ok that] by blast
qed

section \<open>Runs of operations\<close>

datatype cb_op = OpWrite "byte list" | OpReceive "byte list" | OpPeek nat | OpRead nat | OpRemove nat

text \<open>
  One operation: the next buffer, the bytes taken in and the bytes taken out. \<open>OpReceive\<close> is a
  receive of at most the posted length.
\<close>

fun cb_step :: "circular_buffer \<Rightarrow> cb_op \<Rightarrow> (circular_buffer \<times> byte list \<times> byte list) res" where
  "cb_step cb (OpWrite d) =
     rbind (Write cb d (length d)) (\<lambda>(done, cb'). Inr (cb', if done then d else [], []))"
| "cb_step cb (OpReceive d) =
     (let (n, cb1) = GetFreeSpaceSize cb
      in rbind (KernelWrite cb1 (GetBuffer cb1) (take n d)) (\<lambda>cb2.
           Inr (Commit cb2 (length (take n d)), take n d, [])))"
| "cb_step cb (OpPeek n) = rbind (Peek cb n) (\<lambda>_. Inr (cb, [], []))"
| "cb_step cb (OpRead n) =
     rbind (Read cb n) (\<lambda>(out, cb'). Inr (cb', [], case out of None \<Rightarrow> [] | Some bs \<Rightarrow> bs))"
| "cb_step cb (OpRemove n) = rbind (Remove cb n) (\<lambda>cb'. Inr (cb', [], take n (contents cb)))"

fun cb_run :: "circular_buffer \<Rightarrow> cb_op list \<Rightarrow> (circular_buffer \<times> byte list \<times> byte list) res" where
  "cb_run cb [] = Inr (cb, [], [])"
| "cb_run cb (p # ps) =
     rbind (cb_step cb p) (\<lambda>(cb1, i1, o1).
     rbind (cb_run cb1 ps) (\<lambda>(cb2, i2, o2). Inr (cb2, i1 @ i2, o1 @ o2)))"

lemma cb_step_stream:
  assumes "cb_ok cb"
  shows "\<exists>cb' i out. cb_step cb p = Inr (cb', i, out) \<and> cb_ok cb' \<and> contents cb @ i = out @ contents cb' \<and>
    length (mBuffer cb') = length (mBuffer cb)"
proof (cases p)
  case (OpWrite d)
  then show ?thesis
    using Write_contents [OF assms, of "length d" d] Write_full [OF assms, of "length d" d]
    by (cases "length d \<le> room cb") auto
next
  case (OpReceive d)
  let ?n = "fst (GetFreeSpaceSize cb)" and ?cb = "snd (GetFreeSpaceSize cb)"
  from GetFreeSpaceSize_ok [OF assms] Receive_contents [of ?cb "take ?n d"]
  obtain cb2 where "KernelWrite ?cb (GetBuffer ?cb) (take ?n d) = Inr cb2"
      "cb_ok (Commit cb2 (length (take ?n d)))"
      "contents (Commit cb2 (length (take ?n d))) = contents cb @ take ?n d"
      "length (mBuffer (Commit cb2 (length (take ?n d)))) = length (mBuffer cb)"
    by auto
  with OpReceive show ?thesis by (auto simp: case_prod_beta Let_def)
next
  case (OpPeek n)
  with assms show ?thesis by (auto simp: Peek_contents)
next
  case (OpRead n)
  then show ?thesis
    using Read_contents [OF assms, of n] Read_false [OF assms, of n] assms
    by (cases "n \<le> length (contents cb)") auto
next
  case (OpRemove n)
  then show ?thesis using Remove_contents [OF assms, of n] by auto
qed

text \<open>
  C16: Starting from any well-formed buffer, every sequence of writes, receives, peeks, reads and
  removes runs without a failed assertion or an access outside the array, and the stream is kept:
  what was stored followed by what was taken in is what came out followed by what is still stored.
\<close>

theorem cb_run_stream:
  assumes "cb_ok cb"
  shows "\<exists>cb' i out. cb_run cb ps = Inr (cb', i, out) \<and> cb_ok cb' \<and>
    contents cb @ i = out @ contents cb' \<and> length (mBuffer cb') = length (mBuffer cb)"
  using assms
proof (induction ps arbitrary: cb)
  case Nil
  then show ?case by simp
next
  case (Cons p ps)
  from cb_step_stream [OF Cons.prems, of p] obtain cb1 i1 o1 where
    1: "cb_step cb p = Inr (cb1, i1, o1)" "cb_ok cb1" "contents cb @ i1 = o1 @ contents cb1"
      "length (mBuffer cb1) = length (mBuffer cb)" by blast
  from Cons.IH [OF 1(2)] obtain cb2 i2 o2 where
    2: "cb_run cb1 ps = Inr (cb2, i2, o2)" "cb_ok cb2" "contents cb1 @ i2 = o2 @ contents cb2"
      "length (mBuffer cb2) = length (mBuffer cb1)" by blast
  from 1(3) 2(3) have "contents cb @ i1 @ i2 = (o1 @ o2) @ contents cb2"
    by (metis append.assoc)
  with 1 2 show ?case by auto
qed

theorem cb_run_stream_witness:
  "\<exists>cb' i out. cb_run (CircularBuffer (\<lambda>_. 0) 4)
      [OpWrite [1, 2, 3, 4], OpRead 3, OpWrite [5, 6], OpReceive [7, 8], OpRead 3] = Inr (cb', i, out) \<and>
    cb_ok cb' \<and> contents (CircularBuffer (\<lambda>_. 0) 4) @ i = out @ contents cb' \<and>
    length (mBuffer cb') = length (mBuffer (CircularBuffer (\<lambda>_. 0) 4))"
  by (rule cb_run_stream) (simp add: CircularBuffer_ok)

section \<open>Half of the array is always usable\<close>

text \<open>
  Region B is made only when the space in front of A is larger than the space behind it, and taking
  bytes out moves A further to the end. So while B exists, A starts in the second half of what A
  does not use itself.
\<close>

definition balanced :: "'a circular_buffer_scheme \<Rightarrow> bool" where
  "balanced cb \<longleftrightarrow> (mBRegionPointer cb \<noteq> None \<longrightarrow> length (mBuffer cb) < 2 * mARegionPointer cb + mARegionSize cb)"

lemma balanced_room:
  assumes "cb_ok cb" and "balanced cb"
  shows "length (mBuffer cb) \<le> 2 * (room cb + length (contents cb))"
  using assms(1)
proof (cases rule: cb_ok_cases)
  case A
  then show ?thesis using assms(1) by (auto simp: room_alt length_contents)
next
  case AB
  then show ?thesis using assms by (auto simp: room_alt length_contents balanced_def)
qed

lemma balanced_CircularBuffer: "balanced (CircularBuffer junk n)"
  by (simp add: balanced_def CircularBuffer_def)

lemma balanced_PromoteB:
  assumes "PromoteB cb = Inr cb'" and "mARegionSize cb > 0 \<Longrightarrow> balanced cb"
  shows "balanced cb'"
  using assms by (auto simp: PromoteB_def balanced_def rbind_eq_Inr split: if_splits)

lemma balanced_Remove:
  assumes "cb_ok cb" and "balanced cb" and "Remove cb n = Inr cb'"
  shows "balanced cb'"
  using assms(3) unfolding Remove_def Let_def case_prod_beta
proof (rule balanced_PromoteB)
qed (use assms(1,2) in \<open>auto simp: balanced_def cb_ok_def split: if_splits option.splits\<close>)

lemma balanced_Read:
  assumes "cb_ok cb" and "balanced cb" and "Read cb n = Inr (d, cb')"
  shows "balanced cb'"
proof (cases "n \<le> length (contents cb)")
  case True
  with assms(3) obtain cb1 where "Remove cb n = Inr cb1" "cb' = cb1"
    using Read_Remove [OF assms(1), of n] by (auto simp: rbind_eq_Inr)
  with balanced_Remove [OF assms(1,2)] show ?thesis by simp
next
  case False
  with Read_false [OF assms(1), of n] assms(2,3) show ?thesis by simp
qed

lemma balanced_Write:
  assumes "cb_ok cb" and "balanced cb" and "Write cb data n = Inr (done, cb')"
  shows "balanced cb'"
  using assms(1)
proof (cases rule: cb_ok_cases)
  case A
  with assms(3) show ?thesis
    by (auto simp: Write_def Let_def balanced_def AllocateB_def GetAFreeSpace_def GetSpaceBeforeA_def rbind_eq_Inr
        mem_write_def GetBFreeSpace_def split: if_splits)
next
  case AB
  with assms(2,3) show ?thesis
    by (auto simp: Write_def Let_def balanced_def rbind_eq_Inr mem_write_def split: if_splits)
qed

lemma balanced_GetFreeSpaceSize: "cb_ok cb \<Longrightarrow> balanced cb \<Longrightarrow> balanced (snd (GetFreeSpaceSize cb))"
  by (auto simp: GetFreeSpaceSize_def AllocateB_def balanced_def GetAFreeSpace_def GetSpaceBeforeA_def Let_def
      cb_ok_def)

lemma balanced_KernelWrite: "KernelWrite cb off bs = Inr cb' \<Longrightarrow> balanced (Commit cb' n) = balanced cb \<or> 
    mBRegionPointer cb = None"
  by (auto simp: KernelWrite_def Commit_def balanced_def rbind_eq_Inr mem_write_def split: if_splits)

lemma balanced_step:
  assumes "cb_ok cb" and "balanced cb" and "cb_step cb p = Inr (cb', i, out)"
  shows "balanced cb'"
proof (cases p)
  case (OpReceive d)
  let ?cb = "snd (GetFreeSpaceSize cb)"
  from assms(3) OpReceive obtain cb2 where w: "KernelWrite ?cb (GetBuffer ?cb) (take (fst (GetFreeSpaceSize cb)) d) = Inr cb2"
      and cb': "cb' = Commit cb2 (length (take (fst (GetFreeSpaceSize cb)) d))"
    by (auto simp: case_prod_beta Let_def rbind_eq_Inr)
  then have "mBRegionPointer cb' = mBRegionPointer ?cb"
    by (auto simp: KernelWrite_def rbind_eq_Inr Commit_def)
  with balanced_KernelWrite [OF w] balanced_GetFreeSpaceSize [OF assms(1,2)] cb' show ?thesis
    by (auto simp: balanced_def)
qed (use assms in \<open>auto simp: rbind_eq_Inr elim: balanced_Write balanced_Read balanced_Remove\<close>)

lemma balanced_run:
  assumes "cb_ok cb" and "balanced cb" and "cb_run cb ps = Inr (cb', i, out)"
  shows "balanced cb'"
  using assms
proof (induction ps arbitrary: cb i out)
  case (Cons p ps)
  from Cons.prems(3) obtain cb1 i1 o1 i2 o2 where
    1: "cb_step cb p = Inr (cb1, i1, o1)" "cb_run cb1 ps = Inr (cb', i2, o2)"
    by (auto simp: rbind_eq_Inr)
  with cb_step_stream [OF Cons.prems(1), of p] have "cb_ok cb1" by auto
  from Cons.IH [OF this balanced_step [OF Cons.prems(1,2) 1(1)] 1(2)] show ?case .
qed simp

lemma cb_run_ok: "cb_ok cb \<Longrightarrow> cb_run cb ps = Inr (cb', i, out) \<Longrightarrow> cb_ok cb' \<and> length (mBuffer cb') = length (mBuffer cb)"
proof (induction ps arbitrary: cb i out)
  case (Cons p ps)
  from Cons.prems(2) obtain cb1 i1 o1 i2 o2 where
    1: "cb_step cb p = Inr (cb1, i1, o1)" "cb_run cb1 ps = Inr (cb', i2, o2)"
    by (auto simp: rbind_eq_Inr)
  with cb_step_stream [OF Cons.prems(1), of p] have "cb_ok cb1" "length (mBuffer cb1) = length (mBuffer cb)" by auto
  with Cons.IH [OF _ 1(2)] show ?case by simp
qed simp

text \<open>
  A new buffer, after any sequence of operations, takes every write that leaves it at most half
  full, although its two regions can make the rest of the array unusable.
\<close>

theorem write_half_capacity:
  assumes "capacity < SIZE_MOD" and "cb_run (CircularBuffer junk capacity) ps = Inr (cb, i, out)"
    and "2 * (length (contents cb) + length d) \<le> capacity"
  shows "\<exists>cb'. Write cb d (length d) = Inr (True, cb') \<and> contents cb' = contents cb @ d"
proof -
  note new = CircularBuffer_ok(1) [OF assms(1), of junk]
  from cb_run_ok [OF new assms(2)] balanced_run [OF new balanced_CircularBuffer assms(2)]
  have cb: "cb_ok cb" "length (mBuffer cb) = capacity" "balanced cb" by (simp_all add: CircularBuffer_ok(3))
  from balanced_room [OF cb(1,3)] cb(2) assms(3) have "length d \<le> room cb" by simp
  from Write_contents [OF cb(1) this, of d] show ?thesis by auto
qed

theorem write_half_capacity_witness:
  "\<exists>cb i out cb'. cb_run (CircularBuffer (\<lambda>_. 0) 4) [OpWrite [1, 2, 3], OpRead 2] = Inr (cb, i, out) \<and>
    contents cb = [3] \<and> Write cb [4] 1 = Inr (True, cb') \<and> contents cb' = [3, 4]"
proof -
  have "case cb_run (CircularBuffer (\<lambda>_. 0) 4) [OpWrite [1, 2, 3], OpRead 2] of
      Inr (cb, i, out) \<Rightarrow> contents cb = [3] | Inl e \<Rightarrow> False"
    by (simp add: CircularBuffer_def Write_def Read_def PromoteB_def GetStoredSize_def GetAFreeSpace_def
        GetSpaceBeforeA_def contents_def mem_read_def mem_write_def upt_rec Let_def)
  then obtain cb i out where cb: "cb_run (CircularBuffer (\<lambda>_. 0) 4) [OpWrite [1, 2, 3], OpRead 2] = Inr (cb, i, out)"
    "contents cb = [3]" by (auto split: sum.splits)
  from write_half_capacity [OF _ cb(1), of "[4]"] cb show ?thesis by auto
qed

end
