(* ===== verification/Client_Buffer.thy ===== *)
theory Client_Buffer
  imports Circular_Buffer
begin

text \<open>
  The game client's copy of the class \<open>CircularBuffer\<close>
  (\<open>Cocos2dxGameClient/Classes/CircularBuffer.h\<close> and \<open>CircularBuffer.cpp\<close>). Its functions are the
  server's, token for token; the class has one more field, \<open>mCapacity\<close>, and one more operation,
  \<open>BufferReset\<close>. The shared functions are the server's definitions at the client's record type.
\<close>

section \<open>State and operations\<close>

record client_buffer = circular_buffer +
  mCapacity :: nat

definition client_CircularBuffer :: "(nat \<Rightarrow> byte) \<Rightarrow> nat \<Rightarrow> client_buffer" where
  "client_CircularBuffer junk capacity =
     \<lparr>mBuffer = map junk [0..<capacity], mBufferEnd = capacity,
      mARegionPointer = 0, mARegionSize = 0, mBRegionPointer = None, mBRegionSize = 0,
      mCapacity = capacity\<rparr>"

definition BufferReset :: "client_buffer \<Rightarrow> client_buffer res" where
  "BufferReset cb =
     (let cb = cb\<lparr>mBRegionPointer := None, mARegionSize := 0, mBRegionSize := 0\<rparr> in
      rbind (mem_write (mBuffer cb) 0 (replicate (mCapacity cb) 0)) (\<lambda>buf.
      Inr (cb\<lparr>mBuffer := buf, mBufferEnd := mCapacity cb, mARegionPointer := 0\<rparr>)))"

definition client_GetFreeSpaceSize :: "client_buffer \<Rightarrow> nat \<times> client_buffer" where
  "client_GetFreeSpaceSize cb = GetFreeSpaceSize cb"

definition client_GetStoredSize :: "client_buffer \<Rightarrow> nat" where
  "client_GetStoredSize cb = GetStoredSize cb"

definition client_GetContiguiousBytes :: "client_buffer \<Rightarrow> nat" where
  "client_GetContiguiousBytes cb = GetContiguiousBytes cb"

definition client_GetBuffer :: "client_buffer \<Rightarrow> nat" where
  "client_GetBuffer cb = GetBuffer cb"

definition client_Commit :: "client_buffer \<Rightarrow> nat \<Rightarrow> client_buffer" where
  "client_Commit cb len = Commit cb len"

definition client_GetBufferStart :: "client_buffer \<Rightarrow> nat option" where
  "client_GetBufferStart cb = GetBufferStart cb"

definition client_AllocateB :: "client_buffer \<Rightarrow> client_buffer" where
  "client_AllocateB cb = AllocateB cb"

definition client_GetAFreeSpace :: "client_buffer \<Rightarrow> nat" where
  "client_GetAFreeSpace cb = GetAFreeSpace cb"

definition client_GetSpaceBeforeA :: "client_buffer \<Rightarrow> nat" where
  "client_GetSpaceBeforeA cb = GetSpaceBeforeA cb"

definition client_GetBFreeSpace :: "client_buffer \<Rightarrow> nat" where
  "client_GetBFreeSpace cb = GetBFreeSpace cb"

definition client_Peek :: "client_buffer \<Rightarrow> nat \<Rightarrow> byte list option res" where
  "client_Peek cb bytes = Peek cb bytes"

definition client_Read :: "client_buffer \<Rightarrow> nat \<Rightarrow> (byte list option \<times> client_buffer) res" where
  "client_Read cb bytes = Read cb bytes"

definition client_Write :: "client_buffer \<Rightarrow> byte list \<Rightarrow> nat \<Rightarrow> (bool \<times> client_buffer) res" where
  "client_Write cb data bytes = Write cb data bytes"

definition client_Remove :: "client_buffer \<Rightarrow> nat \<Rightarrow> client_buffer res" where
  "client_Remove cb len = Remove cb len"

lemmas client_cb_defs =
  client_GetFreeSpaceSize_def client_GetStoredSize_def client_GetContiguiousBytes_def client_GetBuffer_def
  client_Commit_def client_GetBufferStart_def client_Peek_def client_Read_def client_Write_def
  client_Remove_def client_AllocateB_def client_GetAFreeSpace_def client_GetSpaceBeforeA_def
  client_GetBFreeSpace_def

section \<open>The capacity\<close>

definition client_buffer_ok :: "client_buffer \<Rightarrow> bool" where
  "client_buffer_ok cb \<longleftrightarrow> cb_ok cb \<and> balanced cb \<and> mCapacity cb = length (mBuffer cb)"

lemma mCapacity_PromoteB: "PromoteB cb = Inr cb' \<Longrightarrow> mCapacity cb' = mCapacity cb"
  by (auto simp: PromoteB_def rbind_eq_Inr split: if_splits)

lemma mCapacity_Remove: "Remove cb n = Inr cb' \<Longrightarrow> mCapacity cb' = mCapacity cb"
  by (auto simp: Remove_def Let_def dest!: mCapacity_PromoteB split: if_splits)

lemma mCapacity_Write: "Write cb d n = Inr (done, cb') \<Longrightarrow> mCapacity cb' = mCapacity cb"
  by (auto simp: Write_def Let_def rbind_eq_Inr AllocateB_def split: if_splits)

lemma client_buffer_ok_new:
  "capacity < SIZE_MOD \<Longrightarrow> client_buffer_ok (client_CircularBuffer junk capacity)"
  "contents (client_CircularBuffer junk capacity) = []"
  "mCapacity (client_CircularBuffer junk capacity) = capacity"
  by (simp_all add: client_CircularBuffer_def client_buffer_ok_def cb_ok_def contents_def balanced_def)

lemma client_Remove_ok:
  assumes "client_buffer_ok cb"
  shows "\<exists>cb'. client_Remove cb n = Inr cb' \<and> client_buffer_ok cb' \<and> contents cb' = drop n (contents cb)"
proof -
  from assms Remove_contents [of cb n] obtain cb' where
    "Remove cb n = Inr cb'" "cb_ok cb'" "contents cb' = drop n (contents cb)"
    "length (mBuffer cb') = length (mBuffer cb)" by (auto simp: client_buffer_ok_def)
  with assms balanced_Remove [of cb n cb'] mCapacity_Remove [of cb n cb'] show ?thesis
    by (intro exI [of _ cb']) (simp add: client_buffer_ok_def client_Remove_def)
qed

lemma client_Read_ok:
  assumes "client_buffer_ok cb" and "n \<le> length (contents cb)"
  shows "\<exists>cb'. client_Read cb n = Inr (Some (take n (contents cb)), cb') \<and> client_buffer_ok cb' \<and>
    contents cb' = drop n (contents cb)"
  using client_Remove_ok [OF assms(1), of n] Read_Remove [OF _ assms(2)] assms(1)
  by (auto simp: client_cb_defs client_buffer_ok_def)

lemma client_Read_capacity:
  assumes "client_buffer_ok cb" and "client_Read cb n = Inr (d, cb')"
  shows "mCapacity cb' = mCapacity cb"
proof (cases "n \<le> length (contents cb)")
  case True
  with assms obtain cb1 where "Remove cb n = Inr cb1" "cb' = cb1"
    using Read_Remove [of cb n] by (auto simp: client_buffer_ok_def client_Read_def rbind_eq_Inr)
  with mCapacity_Remove show ?thesis by simp
next
  case False
  with assms Read_false [of cb n] show ?thesis by (simp add: client_buffer_ok_def client_Read_def)
qed

lemma client_Write_keeps:
  assumes "client_buffer_ok cb" and "client_Write cb d n = Inr (done, cb')" and "cb_ok cb'"
    and "length (mBuffer cb') = length (mBuffer cb)"
  shows "client_buffer_ok cb'"
  using assms balanced_Write [of cb d n "done" cb'] mCapacity_Write [of cb d n "done" cb']
  by (simp add: client_buffer_ok_def client_Write_def)

lemma client_Write_ok:
  assumes "client_buffer_ok cb" and "n \<le> room cb" and "n \<le> length d"
  shows "\<exists>cb'. client_Write cb d n = Inr (True, cb') \<and> client_buffer_ok cb' \<and> contents cb' = contents cb @ take n d"
proof -
  from assms Write_contents [of cb n d] obtain cb' where
    "client_Write cb d n = Inr (True, cb')" "cb_ok cb'" "contents cb' = contents cb @ take n d"
    "length (mBuffer cb') = length (mBuffer cb)" by (auto simp: client_buffer_ok_def client_cb_defs)
  with client_Write_keeps [OF assms(1)] show ?thesis by blast
qed

lemma client_Write_full:
  assumes "client_buffer_ok cb" and "room cb < n"
  shows "\<exists>cb'. client_Write cb d n = Inr (False, cb') \<and> client_buffer_ok cb' \<and> contents cb' = contents cb \<and>
    room cb' = room cb"
proof -
  from assms Write_full [of cb n d] obtain cb' where
    "client_Write cb d n = Inr (False, cb')" "cb_ok cb'" "contents cb' = contents cb" "room cb' = room cb"
    "length (mBuffer cb') = length (mBuffer cb)" by (auto simp: client_buffer_ok_def client_cb_defs)
  with client_Write_keeps [OF assms(1)] show ?thesis by blast
qed

lemma client_room: "client_buffer_ok cb \<Longrightarrow> mCapacity cb \<le> 2 * (room cb + length (contents cb))"
  using balanced_room [of cb] by (auto simp: client_buffer_ok_def)

section \<open>The client's buffer as a byte queue\<close>

interpretation client_cbq: byte_queue client_buffer_ok contents room client_Peek client_Read client_Write client_Remove
proof unfold_locales
  fix q :: client_buffer and n :: nat and d :: "byte list"
  assume ok: "client_buffer_ok q"
  show "client_Peek q n = Inr (if n \<le> length (contents q) then Some (take n (contents q)) else None)"
    using ok by (simp add: client_cb_defs client_buffer_ok_def Peek_contents)
  show "client_Read q n = Inr (None, q)" if "length (contents q) < n"
    using ok that by (simp add: client_cb_defs client_buffer_ok_def Read_false)
qed (simp_all add: client_Read_ok client_Write_ok client_Write_full client_Remove_ok)



end
