(* ===== verification/Packet_Type.thy ===== *)
theory Packet_Type
  imports EGS_Prelude
begin

text \<open>
  The wire format of \<open>PacketType.h\<close>, shared by the server and both clients: the packet types,
  the packed structures (\<open>pragma pack (push, 1)\<close>, so no padding) and their bytes in memory on a
  little-endian machine. A \<open>float\<close> is its 32 bits. Fields of a derived structure carry a prefix
  for the structure.
\<close>

unbundle bit_operations_syntax

section \<open>Constants and packet types\<close>

definition MAX_CHAT_LEN :: nat where "MAX_CHAT_LEN = 256"

definition MAX_NAME_LEN :: nat where "MAX_NAME_LEN = 30"

definition MAX_COMMENT_LEN :: nat where "MAX_COMMENT_LEN = 40"

datatype PacketTypes =
    PKT_NONE
  | PKT_CS_LOGIN
  | PKT_SC_LOGIN
  | PKT_CS_CHAT
  | PKT_SC_CHAT
  | PKT_CS_MOVE
  | PKT_SC_MOVE
  | PKT_MAX

fun PacketTypes_value :: "PacketTypes \<Rightarrow> int" where
  "PacketTypes_value PKT_NONE = 0"
| "PacketTypes_value PKT_CS_LOGIN = 1"
| "PacketTypes_value PKT_SC_LOGIN = 2"
| "PacketTypes_value PKT_CS_CHAT = 11"
| "PacketTypes_value PKT_SC_CHAT = 12"
| "PacketTypes_value PKT_CS_MOVE = 21"
| "PacketTypes_value PKT_SC_MOVE = 22"
| "PacketTypes_value PKT_MAX = 1024"

text \<open>An enumeration is compared by its values.\<close>

lemma PacketTypes_value_inject [simp]: "PacketTypes_value t = PacketTypes_value u \<longleftrightarrow> t = u"
  by (cases t; cases u) simp_all

instantiation PacketTypes :: linorder
begin

definition less_eq_PacketTypes :: "PacketTypes \<Rightarrow> PacketTypes \<Rightarrow> bool" where
  "t \<le> u \<longleftrightarrow> PacketTypes_value t \<le> PacketTypes_value u"

definition less_PacketTypes :: "PacketTypes \<Rightarrow> PacketTypes \<Rightarrow> bool" where
  "t < u \<longleftrightarrow> PacketTypes_value t < PacketTypes_value u"

instance
  by standard (auto simp: less_eq_PacketTypes_def less_PacketTypes_def dest: antisym)

end

abbreviation pkt_short :: "PacketTypes \<Rightarrow> short" where
  "pkt_short t \<equiv> word_of_int (PacketTypes_value t)"

section \<open>Integers in memory\<close>

definition bytes16 :: "16 word \<Rightarrow> byte list" where
  "bytes16 w = [ucast w, ucast (drop_bit 8 w)]"

definition bytes32 :: "32 word \<Rightarrow> byte list" where
  "bytes32 w = [ucast w, ucast (drop_bit 8 w), ucast (drop_bit 16 w), ucast (drop_bit 24 w)]"

definition word16_at :: "byte list \<Rightarrow> nat \<Rightarrow> 16 word" where
  "word16_at bs i = ucast (bs ! i) OR push_bit 8 (ucast (bs ! (i + 1)))"

definition word32_at :: "byte list \<Rightarrow> nat \<Rightarrow> 32 word" where
  "word32_at bs i =
     ucast (bs ! i) OR push_bit 8 (ucast (bs ! (i + 1))) OR
     push_bit 16 (ucast (bs ! (i + 2))) OR push_bit 24 (ucast (bs ! (i + 3)))"

lemma length_bytes [simp]: "length (bytes16 w) = 2" "length (bytes32 v) = 4"
  by (simp_all add: bytes16_def bytes32_def)

lemma word16_at_bytes16: "word16_at (bytes16 w) 0 = w"
  by (rule bit_word_eqI) (auto simp: word16_at_def bytes16_def bit_simps)

lemma word32_at_bytes32: "word32_at (bytes32 w) 0 = w"
proof (rule bit_word_eqI)
  fix n assume "n < LENGTH(32)"
  then consider "n < 8" | "8 \<le> n" "n < 16" | "16 \<le> n" "n < 24" | "24 \<le> n" "n < 32"
    by fastforce
  then show "bit (word32_at (bytes32 w) 0) n = bit w n"
    by cases (auto simp: word32_at_def bytes32_def bit_simps)
qed

lemma byte_bit_high [simp]: "8 \<le> n \<Longrightarrow> \<not> bit (b :: byte) n"
  using bit_imp_le_length [of b n] by auto

lemma word16_at_append: "word16_at (xs @ ys) (length xs + i) = word16_at ys i"
  by (simp add: word16_at_def nth_append add.assoc)

lemma word32_at_append: "word32_at (xs @ ys) (length xs + i) = word32_at ys i"
  by (simp add: word32_at_def nth_append add.assoc)

lemma word16_at_prefix: "i + 2 \<le> length xs \<Longrightarrow> word16_at (xs @ ys) i = word16_at xs i"
  by (simp add: word16_at_def nth_append)

lemma word32_at_prefix: "i + 4 \<le> length xs \<Longrightarrow> word32_at (xs @ ys) i = word32_at xs i"
  by (simp add: word32_at_def nth_append)

lemma bytes16_word16_at:
  "i + 2 \<le> length bs \<Longrightarrow> bytes16 (word16_at bs i) = take 2 (drop i bs)"
proof -
  assume i: "i + 2 \<le> length bs"
  then have "take 2 (drop i bs) = [bs ! i, bs ! (i + 1)]"
    by (intro nth_equalityI) (auto simp: less_Suc_eq numeral_2_eq_2)
  moreover have "ucast (word16_at bs i) = bs ! i" "ucast (drop_bit 8 (word16_at bs i)) = bs ! (i + 1)"
    by (rule bit_word_eqI; simp add: word16_at_def bit_simps)+
  ultimately show ?thesis by (simp add: bytes16_def)
qed

lemma bytes32_word32_at:
  "i + 4 \<le> length bs \<Longrightarrow> bytes32 (word32_at bs i) = take 4 (drop i bs)"
proof -
  assume i: "i + 4 \<le> length bs"
  then have "take 4 (drop i bs) = [bs ! i, bs ! (i + 1), bs ! (i + 2), bs ! (i + 3)]"
    by (intro nth_equalityI) (auto simp: less_Suc_eq numeral_eq_Suc)
  moreover have "ucast (word32_at bs i) = bs ! i" "ucast (drop_bit 8 (word32_at bs i)) = bs ! (i + 1)"
     "ucast (drop_bit 16 (word32_at bs i)) = bs ! (i + 2)" "ucast (drop_bit 24 (word32_at bs i)) = bs ! (i + 3)"
    by (rule bit_word_eqI; simp add: word32_at_def bit_simps)+
  ultimately show ?thesis by (simp add: bytes32_def)
qed

text \<open>Reading a field of a structure that has just been laid out, and the other way round.\<close>

lemma word_at_fields [simp]:
  "word16_at (bytes16 w @ ys) 0 = w" "word16_at (bytes16 w) 0 = w"
  "word32_at (bytes32 v @ ys) 0 = v" "word32_at (bytes32 v) 0 = v"
  using word16_at_append [of "[]" "bytes16 w @ ys" 0] word32_at_append [of "[]" "bytes32 v @ ys" 0]
  by (simp_all add: word16_at_prefix word32_at_prefix word16_at_bytes16 word32_at_bytes32)

lemma word_at_skip [simp]:
  "length xs \<le> i \<Longrightarrow> word16_at (xs @ ys) i = word16_at ys (i - length xs)"
  "length xs \<le> i \<Longrightarrow> word32_at (xs @ ys) i = word32_at ys (i - length xs)"
  using word16_at_append [of xs ys "i - length xs"] word32_at_append [of xs ys "i - length xs"]
  by simp_all

lemma slice_append:
  "j = i + a \<Longrightarrow> take a (drop i bs) @ take b (drop j bs) = take (a + b) (drop i bs)"
  "take a bs @ take b (drop a bs) = take (a + b) bs"
  "j = i + a \<Longrightarrow> take a (drop i bs) @ drop j bs = drop i bs"
  by (simp_all add: take_add add.commute) (metis append_take_drop_id drop_drop)

lemmas layout_simps = bytes16_word16_at bytes32_word32_at slice_append

section \<open>The structures\<close>

record PacketHeader =
  mSize :: short
  mType :: short

definition sizeof_PacketHeader :: nat where "sizeof_PacketHeader = 4"

definition PacketHeader_init :: PacketHeader where
  "PacketHeader_init = \<lparr>mSize = 0, mType = pkt_short PKT_NONE\<rparr>"

definition header_bytes :: "'a PacketHeader_scheme \<Rightarrow> byte list" where
  "header_bytes p = bytes16 (mSize p) @ bytes16 (mType p)"

definition PacketHeader_at :: "byte list \<Rightarrow> PacketHeader" where
  "PacketHeader_at bs = \<lparr>mSize = word16_at bs 0, mType = word16_at bs 2\<rparr>"

subsection \<open>Login\<close>

record LoginRequest = PacketHeader +
  lr_mPlayerId :: int32

definition sizeof_LoginRequest :: nat where "sizeof_LoginRequest = 8"

definition LoginRequest_init :: LoginRequest where
  "LoginRequest_init =
     \<lparr>mSize = of_nat sizeof_LoginRequest, mType = pkt_short PKT_CS_LOGIN, lr_mPlayerId = -1\<rparr>"

definition LoginRequest_bytes :: "LoginRequest \<Rightarrow> byte list" where
  "LoginRequest_bytes p = header_bytes p @ bytes32 (lr_mPlayerId p)"

definition LoginRequest_at :: "byte list \<Rightarrow> LoginRequest" where
  "LoginRequest_at bs =
     \<lparr>mSize = word16_at bs 0, mType = word16_at bs 2, lr_mPlayerId = word32_at bs 4\<rparr>"

record LoginResult = PacketHeader +
  ls_mPlayerId :: int32
  ls_mPosX :: float32
  ls_mPosY :: float32
  ls_mName :: "byte list"

definition sizeof_LoginResult :: nat where "sizeof_LoginResult = 16 + MAX_NAME_LEN"

text \<open>The constructor leaves the position uninitialised.\<close>

definition LoginResult_init :: "float32 \<Rightarrow> float32 \<Rightarrow> LoginResult" where
  "LoginResult_init junkX junkY =
     \<lparr>mSize = of_nat sizeof_LoginResult, mType = pkt_short PKT_SC_LOGIN, ls_mPlayerId = -1,
      ls_mPosX = junkX, ls_mPosY = junkY, ls_mName = replicate MAX_NAME_LEN 0\<rparr>"

definition LoginResult_bytes :: "LoginResult \<Rightarrow> byte list" where
  "LoginResult_bytes p =
     header_bytes p @ bytes32 (ls_mPlayerId p) @ bytes32 (ls_mPosX p) @ bytes32 (ls_mPosY p) @ ls_mName p"

definition LoginResult_at :: "byte list \<Rightarrow> LoginResult" where
  "LoginResult_at bs =
     \<lparr>mSize = word16_at bs 0, mType = word16_at bs 2, ls_mPlayerId = word32_at bs 4,
      ls_mPosX = word32_at bs 8, ls_mPosY = word32_at bs 12, ls_mName = take MAX_NAME_LEN (drop 16 bs)\<rparr>"

subsection \<open>Chat\<close>

record ChatBroadcastRequest = PacketHeader +
  cr_mPlayerId :: int32
  cr_mChat :: "byte list"

definition sizeof_ChatBroadcastRequest :: nat where
  "sizeof_ChatBroadcastRequest = 8 + MAX_CHAT_LEN"

definition ChatBroadcastRequest_init :: ChatBroadcastRequest where
  "ChatBroadcastRequest_init =
     \<lparr>mSize = of_nat sizeof_ChatBroadcastRequest, mType = pkt_short PKT_CS_CHAT, cr_mPlayerId = -1,
      cr_mChat = replicate MAX_CHAT_LEN 0\<rparr>"

definition ChatBroadcastRequest_bytes :: "ChatBroadcastRequest \<Rightarrow> byte list" where
  "ChatBroadcastRequest_bytes p = header_bytes p @ bytes32 (cr_mPlayerId p) @ cr_mChat p"

definition ChatBroadcastRequest_at :: "byte list \<Rightarrow> ChatBroadcastRequest" where
  "ChatBroadcastRequest_at bs =
     \<lparr>mSize = word16_at bs 0, mType = word16_at bs 2, cr_mPlayerId = word32_at bs 4,
      cr_mChat = take MAX_CHAT_LEN (drop 8 bs)\<rparr>"

record ChatBroadcastResult = PacketHeader +
  cs_mPlayerId :: int32
  cs_mName :: "byte list"
  cs_mChat :: "byte list"

definition sizeof_ChatBroadcastResult :: nat where
  "sizeof_ChatBroadcastResult = 8 + MAX_NAME_LEN + MAX_CHAT_LEN"

definition ChatBroadcastResult_init :: ChatBroadcastResult where
  "ChatBroadcastResult_init =
     \<lparr>mSize = of_nat sizeof_ChatBroadcastResult, mType = pkt_short PKT_SC_CHAT, cs_mPlayerId = -1,
      cs_mName = replicate MAX_NAME_LEN 0, cs_mChat = replicate MAX_CHAT_LEN 0\<rparr>"

definition ChatBroadcastResult_bytes :: "ChatBroadcastResult \<Rightarrow> byte list" where
  "ChatBroadcastResult_bytes p =
     header_bytes p @ bytes32 (cs_mPlayerId p) @ cs_mName p @ cs_mChat p"

definition ChatBroadcastResult_at :: "byte list \<Rightarrow> ChatBroadcastResult" where
  "ChatBroadcastResult_at bs =
     \<lparr>mSize = word16_at bs 0, mType = word16_at bs 2, cs_mPlayerId = word32_at bs 4,
      cs_mName = take MAX_NAME_LEN (drop 8 bs), cs_mChat = take MAX_CHAT_LEN (drop (8 + MAX_NAME_LEN) bs)\<rparr>"

subsection \<open>Move\<close>

record MoveRequest = PacketHeader +
  mr_mPlayerId :: int32
  mr_mPosX :: float32
  mr_mPosY :: float32

definition sizeof_MoveRequest :: nat where "sizeof_MoveRequest = 16"

definition MoveRequest_init :: MoveRequest where
  "MoveRequest_init =
     \<lparr>mSize = of_nat sizeof_MoveRequest, mType = pkt_short PKT_CS_MOVE, mr_mPlayerId = -1,
      mr_mPosX = 0, mr_mPosY = 0\<rparr>"

definition MoveRequest_bytes :: "MoveRequest \<Rightarrow> byte list" where
  "MoveRequest_bytes p =
     header_bytes p @ bytes32 (mr_mPlayerId p) @ bytes32 (mr_mPosX p) @ bytes32 (mr_mPosY p)"

definition MoveRequest_at :: "byte list \<Rightarrow> MoveRequest" where
  "MoveRequest_at bs =
     \<lparr>mSize = word16_at bs 0, mType = word16_at bs 2, mr_mPlayerId = word32_at bs 4,
      mr_mPosX = word32_at bs 8, mr_mPosY = word32_at bs 12\<rparr>"

record MoveBroadcastResult = PacketHeader +
  ms_mPlayerId :: int32
  ms_mPosX :: float32
  ms_mPosY :: float32

definition sizeof_MoveBroadcastResult :: nat where "sizeof_MoveBroadcastResult = 16"

definition MoveBroadcastResult_init :: MoveBroadcastResult where
  "MoveBroadcastResult_init =
     \<lparr>mSize = of_nat sizeof_MoveBroadcastResult, mType = pkt_short PKT_SC_MOVE, ms_mPlayerId = -1,
      ms_mPosX = 0, ms_mPosY = 0\<rparr>"

definition MoveBroadcastResult_bytes :: "MoveBroadcastResult \<Rightarrow> byte list" where
  "MoveBroadcastResult_bytes p =
     header_bytes p @ bytes32 (ms_mPlayerId p) @ bytes32 (ms_mPosX p) @ bytes32 (ms_mPosY p)"

definition MoveBroadcastResult_at :: "byte list \<Rightarrow> MoveBroadcastResult" where
  "MoveBroadcastResult_at bs =
     \<lparr>mSize = word16_at bs 0, mType = word16_at bs 2, ms_mPlayerId = word32_at bs 4,
      ms_mPosX = word32_at bs 8, ms_mPosY = word32_at bs 12\<rparr>"

section \<open>Round trips\<close>

lemmas sizeof_defs =
  sizeof_PacketHeader_def sizeof_LoginRequest_def sizeof_LoginResult_def
  sizeof_ChatBroadcastRequest_def sizeof_ChatBroadcastResult_def
  sizeof_MoveRequest_def sizeof_MoveBroadcastResult_def
  MAX_NAME_LEN_def MAX_CHAT_LEN_def MAX_COMMENT_LEN_def

lemmas bytes_defs =
  header_bytes_def LoginRequest_bytes_def LoginResult_bytes_def
  ChatBroadcastRequest_bytes_def ChatBroadcastResult_bytes_def
  MoveRequest_bytes_def MoveBroadcastResult_bytes_def

lemmas at_defs =
  PacketHeader_at_def LoginRequest_at_def LoginResult_at_def
  ChatBroadcastRequest_at_def ChatBroadcastResult_at_def
  MoveRequest_at_def MoveBroadcastResult_at_def

lemma length_packet_bytes [simp]:
  "length (header_bytes h) = sizeof_PacketHeader"
  "length (LoginRequest_bytes p1) = sizeof_LoginRequest"
  "length (ls_mName p2) = MAX_NAME_LEN \<Longrightarrow> length (LoginResult_bytes p2) = sizeof_LoginResult"
  "length (cr_mChat p3) = MAX_CHAT_LEN \<Longrightarrow>
     length (ChatBroadcastRequest_bytes p3) = sizeof_ChatBroadcastRequest"
  "length (cs_mName p4) = MAX_NAME_LEN \<Longrightarrow> length (cs_mChat p4) = MAX_CHAT_LEN \<Longrightarrow>
     length (ChatBroadcastResult_bytes p4) = sizeof_ChatBroadcastResult"
  "length (MoveRequest_bytes p5) = sizeof_MoveRequest"
  "length (MoveBroadcastResult_bytes p6) = sizeof_MoveBroadcastResult"
  by (simp_all add: bytes_defs sizeof_defs)

text \<open>
  A header read from the front of a packet is the packet's header: \<open>PacketHeader_at\<close> of the first
  four bytes of any structure gives its size and type.
\<close>

lemma PacketHeader_at_packet:
  "PacketHeader_at (take 4 (header_bytes p @ rest)) = \<lparr>mSize = mSize p, mType = mType p\<rparr>"
  by (simp add: PacketHeader_at_def header_bytes_def)

lemma packet_roundtrip:
  "LoginRequest_at (LoginRequest_bytes p1) = p1"
  "length (ls_mName p2) = MAX_NAME_LEN \<Longrightarrow> LoginResult_at (LoginResult_bytes p2) = p2"
  "length (cr_mChat p3) = MAX_CHAT_LEN \<Longrightarrow>
     ChatBroadcastRequest_at (ChatBroadcastRequest_bytes p3) = p3"
  "length (cs_mName p4) = MAX_NAME_LEN \<Longrightarrow> length (cs_mChat p4) = MAX_CHAT_LEN \<Longrightarrow>
     ChatBroadcastResult_at (ChatBroadcastResult_bytes p4) = p4"
  "MoveRequest_at (MoveRequest_bytes p5) = p5"
  "MoveBroadcastResult_at (MoveBroadcastResult_bytes p6) = p6"
  by (simp_all add: at_defs bytes_defs sizeof_defs)

lemma packet_roundtrip_bytes:
  "length bs = sizeof_LoginRequest \<Longrightarrow> LoginRequest_bytes (LoginRequest_at bs) = bs"
  "length bs = sizeof_LoginResult \<Longrightarrow> LoginResult_bytes (LoginResult_at bs) = bs"
  "length bs = sizeof_ChatBroadcastRequest \<Longrightarrow>
     ChatBroadcastRequest_bytes (ChatBroadcastRequest_at bs) = bs"
  "length bs = sizeof_ChatBroadcastResult \<Longrightarrow>
     ChatBroadcastResult_bytes (ChatBroadcastResult_at bs) = bs"
  "length bs = sizeof_MoveRequest \<Longrightarrow> MoveRequest_bytes (MoveRequest_at bs) = bs"
  "length bs = sizeof_MoveBroadcastResult \<Longrightarrow>
     MoveBroadcastResult_bytes (MoveBroadcastResult_at bs) = bs"
  by (simp_all add: at_defs bytes_defs sizeof_defs layout_simps)

lemma PacketHeader_at_header [simp]: "PacketHeader_at (header_bytes p) = \<lparr>mSize = mSize p, mType = mType p\<rparr>"
  by (simp add: PacketHeader_at_def header_bytes_def)



end
