(* ===== verification/Packet_Streams.thy ===== *)
theory Packet_Streams
  imports Packet_Type
begin

text \<open>
  What travels on a connection: the requests that clients send, the packets that the server sends,
  their bytes, and how a stream of bytes falls into packets by the size in each header, which is how
  both receive loops cut it (\<open>ClientSession::OnRead\<close> and \<open>TcpClient::processPacket\<close>).
\<close>

section \<open>Requests\<close>

datatype client_packet =
    LoginPacket LoginRequest
  | ChatPacket ChatBroadcastRequest
  | MovePacket MoveRequest

fun packet_bytes :: "client_packet \<Rightarrow> byte list" where
  "packet_bytes (LoginPacket p) = LoginRequest_bytes p"
| "packet_bytes (ChatPacket p) = ChatBroadcastRequest_bytes p"
| "packet_bytes (MovePacket p) = MoveRequest_bytes p"

text \<open>Size and type as the constructors of the client set them.\<close>

fun packet_ok :: "client_packet \<Rightarrow> bool" where
  "packet_ok (LoginPacket p) = (mSize p = mSize LoginRequest_init \<and> mType p = mType LoginRequest_init)"
| "packet_ok (ChatPacket p) =
     (mSize p = mSize ChatBroadcastRequest_init \<and> mType p = mType ChatBroadcastRequest_init \<and>
      length (cr_mChat p) = MAX_CHAT_LEN)"
| "packet_ok (MovePacket p) = (mSize p = mSize MoveRequest_init \<and> mType p = mType MoveRequest_init)"

lemma length_client_packet:
  "packet_ok p \<Longrightarrow> length (packet_bytes p) =
     (case p of LoginPacket _ \<Rightarrow> 8 | ChatPacket _ \<Rightarrow> 264 | MovePacket _ \<Rightarrow> 16)"
  by (cases p) (simp_all add: sizeof_defs)

lemma sz_of_short_packet [simp]:
  "sz_of_short 8 = 8" "sz_of_short 264 = 264" "sz_of_short 16 = 16" "sz_of_short 46 = 46" "sz_of_short 294 = 294"
  by (simp_all add: sz_of_short_nonneg)

section \<open>Packets of the server\<close>

datatype server_packet =
    LoginPacketResult LoginResult
  | ChatPacketResult ChatBroadcastResult
  | MovePacketResult MoveBroadcastResult

fun server_bytes :: "server_packet \<Rightarrow> byte list" where
  "server_bytes (LoginPacketResult p) = LoginResult_bytes p"
| "server_bytes (ChatPacketResult p) = ChatBroadcastResult_bytes p"
| "server_bytes (MovePacketResult p) = MoveBroadcastResult_bytes p"

text \<open>Size and type as the constructors of the server set them, a real player, terminated strings.\<close>

fun server_packet_ok :: "server_packet \<Rightarrow> bool" where
  "server_packet_ok (LoginPacketResult p) =
     (mSize p = mSize (LoginResult_init 0 0) \<and> mType p = mType (LoginResult_init 0 0) \<and>
      ls_mPlayerId p \<noteq> -1 \<and> terminated MAX_NAME_LEN (ls_mName p))"
| "server_packet_ok (ChatPacketResult p) =
     (mSize p = mSize ChatBroadcastResult_init \<and> mType p = mType ChatBroadcastResult_init \<and>
      cs_mPlayerId p \<noteq> -1 \<and> terminated MAX_NAME_LEN (cs_mName p) \<and> terminated MAX_CHAT_LEN (cs_mChat p))"
| "server_packet_ok (MovePacketResult p) =
     (mSize p = mSize MoveBroadcastResult_init \<and> mType p = mType MoveBroadcastResult_init \<and>
      ms_mPlayerId p \<noteq> -1)"

lemma length_server_packet:
  "server_packet_ok p \<Longrightarrow> length (server_bytes p) =
     (case p of LoginPacketResult _ \<Rightarrow> 46 | ChatPacketResult _ \<Rightarrow> 294 | MovePacketResult _ \<Rightarrow> 16)"
  by (cases p) (simp_all add: sizeof_defs terminated_def)

section \<open>Framing\<close>

text \<open>A rest that does not hold a complete packet.\<close>

definition incomplete :: "byte list \<Rightarrow> bool" where
  "incomplete rest \<longleftrightarrow> length rest < sizeof_PacketHeader \<or>
     length rest < sz_of_short (mSize (PacketHeader_at (take sizeof_PacketHeader rest)))"

text \<open>A complete packet: as long as its header says.\<close>

definition framed :: "byte list \<Rightarrow> bool" where
  "framed bs \<longleftrightarrow> sizeof_PacketHeader \<le> length bs \<and>
     sz_of_short (mSize (PacketHeader_at (take sizeof_PacketHeader bs))) = length bs"

lemma framed_client_packet: "packet_ok p \<Longrightarrow> framed (packet_bytes p)"
  using length_client_packet [of p]
  by (cases p) (auto simp: framed_def bytes_defs LoginRequest_init_def ChatBroadcastRequest_init_def
      MoveRequest_init_def sizeof_defs PacketHeader_at_def)

lemma header_server_packet:
  assumes "server_packet_ok p"
  shows "PacketHeader_at (take sizeof_PacketHeader (server_bytes p)) =
    (case p of LoginPacketResult _ \<Rightarrow> \<lparr>mSize = 46, mType = 2\<rparr> | ChatPacketResult _ \<Rightarrow> \<lparr>mSize = 294, mType = 12\<rparr>
     | MovePacketResult _ \<Rightarrow> \<lparr>mSize = 16, mType = 22\<rparr>)"
  using assms
  by (cases p) (auto simp: bytes_defs LoginResult_init_def ChatBroadcastResult_init_def
      MoveBroadcastResult_init_def sizeof_defs PacketHeader_at_def)

lemma framed_server_packet: "server_packet_ok p \<Longrightarrow> framed (server_bytes p)"
  using length_server_packet [of p] header_server_packet [of p]
  by (cases p) (auto simp: framed_def sizeof_PacketHeader_def)

lemma incomplete_prefix_packet:
  assumes "framed bs" and "bs = r @ q" and "q \<noteq> []"
  shows "incomplete r"
proof (cases "length r < sizeof_PacketHeader")
  case False
  then have "take sizeof_PacketHeader bs = take sizeof_PacketHeader r" using assms(2) by simp
  with assms show ?thesis by (auto simp: framed_def incomplete_def)
qed (simp add: incomplete_def)

lemma incomplete_prefix:
  assumes "incomplete (r @ q)"
  shows "incomplete r"
  using assms by (cases "length r < sizeof_PacketHeader") (auto simp: incomplete_def)

text \<open>
  Every prefix of a stream of packets is a number of packets and an incomplete rest: the boundaries
  of the packets do not depend on how the stream arrives.
\<close>

lemma stream_prefix:
  assumes "xs @ ys = concat (map f ps) @ rest" and "\<forall>p \<in> set ps. framed (f p)" and "incomplete rest"
  shows "\<exists>k r. xs = concat (map f (take k ps)) @ r \<and> incomplete r \<and>
    r @ ys = concat (map f (drop k ps)) @ rest \<and>
    (length r \<le> length rest \<or> (\<exists>p \<in> set ps. length r < length (f p)))"
  using assms
proof (induction ps arbitrary: xs)
  case Nil
  then have "incomplete xs" using incomplete_prefix [of xs ys] by simp
  moreover from Nil(1) have "length xs + length ys = length rest" by (metis append_Nil concat.simps(1) length_append list.map(1))
  ultimately show ?case using Nil by auto
next
  case (Cons p ps)
  show ?case
  proof (cases "length (f p) \<le> length xs")
    case True
    with arg_cong [OF Cons.prems(1), of "take (length (f p))"] have "take (length (f p)) xs = f p" by simp
    then obtain xs' where xs: "xs = f p @ xs'" by (metis append_take_drop_id)
    with Cons.prems have "xs' @ ys = concat (map f ps) @ rest" by simp
    from Cons.IH [OF this] Cons.prems obtain k r where
      "xs' = concat (map f (take k ps)) @ r" "incomplete r" "r @ ys = concat (map f (drop k ps)) @ rest"
      "length r \<le> length rest \<or> (\<exists>p \<in> set ps. length r < length (f p))" by auto
    with xs show ?thesis by (intro exI [of _ "Suc k"] exI [of _ r]) auto
  next
    case False
    with Cons.prems(1) obtain q where q: "xs @ q = f p" by (auto simp: append_eq_append_conv2)
    with False have "q \<noteq> []" by auto
    with Cons.prems(2) q have "incomplete xs" using incomplete_prefix_packet [OF _ q [symmetric]] by simp
    with Cons.prems(1) False show ?thesis by (intro exI [of _ 0] exI [of _ xs]) auto
  qed
qed

end
