(* ===== verification/Tcp_Client.thy ===== *)
theory Tcp_Client
  imports Client_Buffer Packet_Streams
begin

text \<open>
  The network half of the game client: \<open>Cocos2dxGameClient/Classes/TcpClient.h\<close> and
  \<open>TcpClient.cpp\<close>, for the Win32 build. The singleton lives in a heap, because the detached network
  thread keeps a \<open>this\<close> pointer to it. System calls and what the game engine answers are fields of an
  environment, numbered by the calls made before; functions handed to the thread of the engine are
  collected in a queue.
\<close>

section \<open>State\<close>

definition BUF_SIZE :: nat where "BUF_SIZE = 32768"

definition INVALID_SOCKET :: SOCKET where "INVALID_SOCKET = 4294967295"

abbreviation SOCKET_ERROR :: int where "SOCKET_ERROR \<equiv> -1"

record tcp_client =
  m_sock :: SOCKET
  m_recvBuffer :: client_buffer
  m_loginId :: int32

text \<open>A function posted to the engine's thread; the layer is a pointer, \<open>None\<close> for \<open>nullptr\<close>.\<close>

datatype cocos_call =
    chatDraw_call "nat option" "byte list" "byte list"
  | updateMe_call "nat option" float32 float32
  | updatePeer_call "nat option" int32 float32 float32

text \<open>
  \<open>net_send\<close> and \<open>net_recv\<close> are the blocking calls: the number of bytes sent or \<open>SOCKET_ERROR\<close>, and
  the bytes received or \<open>None\<close> for an error. \<open>base_layer\<close> is \<open>None\<close> while no scene is running, else the
  child of the running scene with that name, if any.
\<close>

record client_env =
  net_WSAStartup :: "nat \<Rightarrow> int"
  net_socket :: "nat \<Rightarrow> SOCKET"
  net_gethostbyname :: "nat \<Rightarrow> string \<Rightarrow> dword option"
  net_connect :: "nat \<Rightarrow> int"
  net_send :: "nat \<Rightarrow> nat \<Rightarrow> int"
  net_recv :: "nat \<Rightarrow> byte list option"
  UserDefault_ipaddr :: "string \<Rightarrow> string"
  UserDefault_port :: "int \<Rightarrow> int"
  base_layer :: "nat \<Rightarrow> nat option option"
  client_rand :: "nat \<Rightarrow> nat"
  client_memory :: "nat \<Rightarrow> byte"
  client_block :: "nat set \<Rightarrow> nat"

text \<open>
  \<open>wire\<close> records what each \<open>::send\<close> took, \<open>connects\<close> the addresses and ports of \<open>::connect\<close>;
  \<open>wsa_count\<close> counts the start-ups of the socket library that are not yet cleaned up.
\<close>

record client_world =
  tcp_clients :: "nat \<rightharpoonup> tcp_client"
  s_TcpClient :: "nat option"
  network_threads :: "nat list"
  cocos_queue :: "cocos_call list"
  wire :: "(SOCKET \<times> byte list) list"
  connects :: "(SOCKET \<times> dword \<times> nat) list"
  client_closed :: "SOCKET list"
  wsa_count :: int
  client_calls :: nat

definition client_world_init :: client_world where
  "client_world_init =
     \<lparr>tcp_clients = Map.empty, s_TcpClient = None, network_threads = [], cocos_queue = [], wire = [],
      connects = [], client_closed = [], wsa_count = 0, client_calls = 0\<rparr>"

definition client_sys_call :: "client_world \<Rightarrow> client_world" where
  "client_sys_call w = w\<lparr>client_calls := client_calls w + 1\<rparr>"

definition get_client :: "nat \<Rightarrow> client_world \<Rightarrow> tcp_client res" where
  "get_client this w = (case tcp_clients w this of None \<Rightarrow> Inl DanglingPointer | Some c \<Rightarrow> Inr c)"

definition set_client :: "nat \<Rightarrow> tcp_client \<Rightarrow> client_world \<Rightarrow> client_world" where
  "set_client this c w = w\<lparr>tcp_clients := (tcp_clients w)(this \<mapsto> c)\<rparr>"

section \<open>Construction\<close>

definition TcpClient_new :: "client_env \<Rightarrow> tcp_client" where
  "TcpClient_new env =
     \<lparr>m_sock = 0, m_recvBuffer = client_CircularBuffer (client_memory env) BUF_SIZE, m_loginId = -1\<rparr>"

text \<open>The destructor and the release of the object.\<close>

definition TcpClient_delete :: "nat \<Rightarrow> client_world \<Rightarrow> client_world res" where
  "TcpClient_delete this w =
     rbind (get_client this w) (\<lambda>c.
     Inr (w\<lparr>client_closed := client_closed w @ [m_sock c], wsa_count := wsa_count w - 1,
            tcp_clients := (tcp_clients w)(this := None)\<rparr>))"

definition initialize :: "client_env \<Rightarrow> nat \<Rightarrow> client_world \<Rightarrow> (bool \<times> client_world) res" where
  "initialize env this w =
     rbind (get_client this w) (\<lambda>c.
     let rc = net_WSAStartup env (client_calls w); w = client_sys_call w in
     if rc \<noteq> 0 then Inr (False, w)
     else
       let w = w\<lparr>wsa_count := wsa_count w + 1\<rparr>;
           sock = net_socket env (client_calls w); w = client_sys_call w;
           w = set_client this (c\<lparr>m_sock := sock\<rparr>) w
       in if sock = INVALID_SOCKET then Inr (False, w)
          else Inr (True, w\<lparr>network_threads := network_threads w @ [this]\<rparr>))"

text \<open>The port is cut to 16 bits by \<open>htons\<close>.\<close>

definition connect :: "client_env \<Rightarrow> nat \<Rightarrow> string \<Rightarrow> int \<Rightarrow> client_world \<Rightarrow> (bool \<times> client_world) res" where
  "connect env this serverAddr port w =
     rbind (get_client this w) (\<lambda>c.
     let host = net_gethostbyname env (client_calls w) serverAddr; w = client_sys_call w in
     case host of None \<Rightarrow> Inr (False, w)
     | Some addr \<Rightarrow>
         let rc = net_connect env (client_calls w);
             w = (client_sys_call w)\<lparr>connects := connects w @ [(m_sock c, addr, nat (port mod 65536))]\<rparr>
         in if rc = SOCKET_ERROR then Inr (False, w)
            else Inr (True, client_sys_call w))"

definition getInstance :: "client_env \<Rightarrow> client_world \<Rightarrow> (nat option \<times> client_world) res" where
  "getInstance env w =
     (case s_TcpClient w of
        Some a \<Rightarrow> Inr (Some a, w)
      | None \<Rightarrow>
          let a = client_block env (dom (tcp_clients w));
              w = w\<lparr>tcp_clients := (tcp_clients w)(a \<mapsto> TcpClient_new env), s_TcpClient := Some a\<rparr> in
          rbind (initialize env a w) (\<lambda>(ok, w).
          if \<not> ok then Inr (None, w)
          else
            let ipaddr = UserDefault_ipaddr env ''localhost''; port = UserDefault_port env 9001 in
            rbind (connect env a ipaddr port w) (\<lambda>(_, w).
            Inr (s_TcpClient w, w))))"

text \<open>\<open>CC_SAFE_DELETE\<close>: delete what is there and set the pointer to null.\<close>

definition destroyInstance :: "client_world \<Rightarrow> client_world res" where
  "destroyInstance w =
     (case s_TcpClient w of
        None \<Rightarrow> Inr w
      | Some a \<Rightarrow> rbind (TcpClient_delete a w) (\<lambda>w. Inr (w\<lparr>s_TcpClient := None\<rparr>)))"

section \<open>Sending\<close>

text \<open>
  The loop of \<open>TcpClient::send\<close>: \<open>data\<close> is the memory from the pointer on; \<open>count\<close> and \<open>length\<close> both
  change with every \<open>::send\<close>.
\<close>

partial_function (option) send_loop ::
    "client_env \<Rightarrow> SOCKET \<Rightarrow> byte list \<Rightarrow> int \<Rightarrow> int \<Rightarrow> client_world \<Rightarrow> (bool \<times> client_world) res option" where
  "send_loop env sock data count len w =
     (if count < len then
        (case mem_read data (nat count) (nat len) of
           Inl e \<Rightarrow> Some (Inl e)
         | Inr d \<Rightarrow>
             let n = net_send env (client_calls w) (nat len);
                 w = (client_sys_call w)\<lparr>wire := wire w @ [(sock, take (nat n) d)]\<rparr>
             in if n = SOCKET_ERROR then Some (Inr (False, w))
                else send_loop env sock data (count + n) (len - n) w)
      else Some (Inr (True, w)))"

definition send_bytes :: "client_env \<Rightarrow> nat \<Rightarrow> byte list \<Rightarrow> int \<Rightarrow> client_world \<Rightarrow> (bool \<times> client_world) res option" where
  "send_bytes env this data len w =
     then_do (Some (get_client this w)) (\<lambda>c. send_loop env (m_sock c) data 0 len w)"

section \<open>Receiving\<close>

text \<open>\<open>getRunningScene()->getChildByName("base_layer")\<close>.\<close>

definition find_layer :: "client_env \<Rightarrow> client_world \<Rightarrow> (nat option \<times> client_world) res" where
  "find_layer env w = rbind (deref (base_layer env (client_calls w))) (\<lambda>l. Inr (l, client_sys_call w))"

text \<open>\<open>std::string (s)\<close> of a character array.\<close>

definition std_string :: "byte list \<Rightarrow> byte list res" where
  "std_string s = rbind (strlen s) (\<lambda>k. Inr (take k s))"

text \<open>\<open>performFunctionInCocosThread\<close>.\<close>

definition perform :: "cocos_call \<Rightarrow> client_world \<Rightarrow> client_world" where
  "perform f w = w\<lparr>cocos_queue := cocos_queue w @ [f]\<rparr>"

text \<open>One turn of the loop of \<open>processPacket\<close>: whether it goes on.\<close>

definition processPacket_turn :: "client_env \<Rightarrow> nat \<Rightarrow> client_world \<Rightarrow> (bool \<times> client_world) res" where
  "processPacket_turn env this w =
     rbind (get_client this w) (\<lambda>c.
     rbind (client_Peek (m_recvBuffer c) sizeof_PacketHeader) (\<lambda>peeked.
     case peeked of None \<Rightarrow> Inr (False, w)
     | Some bs \<Rightarrow>
         let header = PacketHeader_at bs in
         if sz_of_short (mSize header) > client_GetStoredSize (m_recvBuffer c) then Inr (False, w)
         else if sint (mType header) = PacketTypes_value PKT_SC_LOGIN then
           rbind (client_Read (m_recvBuffer c) (sz_of_short (mSize (LoginResult_init 0 0)))) (\<lambda>(ret, rb).
           let recvData = LoginResult_at ((case ret of None \<Rightarrow> [] | Some bs \<Rightarrow> bs)) in
           rbind (C_assert (ret \<noteq> None \<and> ls_mPlayerId recvData \<noteq> -1)) (\<lambda>_.
           rbind (strlen (ls_mName recvData)) (\<lambda>_.
           Inr (True, set_client this (c\<lparr>m_recvBuffer := rb, m_loginId := ls_mPlayerId recvData\<rparr>) w))))
         else if sint (mType header) = PacketTypes_value PKT_SC_CHAT then
           rbind (client_Read (m_recvBuffer c) (sz_of_short (mSize ChatBroadcastResult_init))) (\<lambda>(ret, rb).
           let recvData = ChatBroadcastResult_at ((case ret of None \<Rightarrow> [] | Some bs \<Rightarrow> bs));
               w = set_client this (c\<lparr>m_recvBuffer := rb\<rparr>) w in
           rbind (C_assert (ret \<noteq> None \<and> cs_mPlayerId recvData \<noteq> -1)) (\<lambda>_.
           rbind (find_layer env w) (\<lambda>(layer, w).
           rbind (std_string (cs_mName recvData)) (\<lambda>name.
           rbind (std_string (cs_mChat recvData)) (\<lambda>chat.
           Inr (True, perform (chatDraw_call layer name chat) w))))))
         else if sint (mType header) = PacketTypes_value PKT_SC_MOVE then
           rbind (client_Read (m_recvBuffer c) (sz_of_short (mSize MoveBroadcastResult_init))) (\<lambda>(ret, rb).
           let recvData = MoveBroadcastResult_at ((case ret of None \<Rightarrow> [] | Some bs \<Rightarrow> bs));
               w = set_client this (c\<lparr>m_recvBuffer := rb\<rparr>) w in
           rbind (C_assert (ret \<noteq> None \<and> ms_mPlayerId recvData \<noteq> -1)) (\<lambda>_.
           rbind (find_layer env w) (\<lambda>(layer, w).
           if ms_mPlayerId recvData = m_loginId c
           then Inr (True, perform (updateMe_call layer (ms_mPosX recvData) (ms_mPosY recvData)) w)
           else Inr (True, perform (updatePeer_call layer (ms_mPlayerId recvData) (ms_mPosX recvData)
                  (ms_mPosY recvData)) w))))
         else Inl AssertFailed))"

partial_function (option) processPacket :: "client_env \<Rightarrow> nat \<Rightarrow> client_world \<Rightarrow> client_world res option" where
  "processPacket env this w =
     (case processPacket_turn env this w of
        Inl e \<Rightarrow> Some (Inl e)
      | Inr (goes_on, w') \<Rightarrow> if goes_on then processPacket env this w' else Some (Inr w'))"

text \<open>One turn of the loop of \<open>networkThread\<close>, which never ends.\<close>

definition RECV_SIZE :: nat where "RECV_SIZE = 4096"

definition networkThread_turn :: "client_env \<Rightarrow> nat \<Rightarrow> client_world \<Rightarrow> client_world res option" where
  "networkThread_turn env this w =
     then_do (Some (get_client this w)) (\<lambda>c.
     let n = net_recv env (client_calls w); w = client_sys_call w in
     case n of None \<Rightarrow> Some (Inr w)
     | Some bs \<Rightarrow>
         if length bs < 1 then Some (Inr w)
         else
           then_do (Some (mem_write (replicate RECV_SIZE 0) 0 bs)) (\<lambda>inBuf.
           then_do (Some (client_Write (m_recvBuffer c) inBuf (length bs))) (\<lambda>(ok, rb).
           let w = set_client this (c\<lparr>m_recvBuffer := rb\<rparr>) w in
           then_do (Some (C_assert ok)) (\<lambda>_.
           processPacket env this w))))"

section \<open>Requests\<close>

definition loginRequest :: "client_env \<Rightarrow> nat \<Rightarrow> client_world \<Rightarrow> client_world res option" where
  "loginRequest env this w =
     then_do (Some (get_client this w)) (\<lambda>c.
     if sint (m_loginId c) > 0 then Some (Inr w)
     else
       let r = client_rand env (client_calls w); w = client_sys_call w;
           sendData = LoginRequest_init\<lparr>lr_mPlayerId := 1000 + of_nat (r mod 101)\<rparr> in
       then_do (send_bytes env this (LoginRequest_bytes sendData) (int sizeof_LoginRequest) w) (\<lambda>(_, w).
       Some (Inr w)))"

definition chatRequest :: "client_env \<Rightarrow> nat \<Rightarrow> byte list \<Rightarrow> client_world \<Rightarrow> client_world res option" where
  "chatRequest env this chat w =
     then_do (Some (get_client this w)) (\<lambda>c.
     if sint (m_loginId c) < 0 then Some (Inr w)
     else
       let sendData = ChatBroadcastRequest_init\<lparr>cr_mPlayerId := m_loginId c\<rparr> in
       then_do (Some (strlen chat)) (\<lambda>k.
       then_do (Some (mem_read chat 0 k)) (\<lambda>d.
       then_do (Some (mem_write (cr_mChat sendData) 0 d)) (\<lambda>chat'.
       let sendData = sendData\<lparr>cr_mChat := chat'\<rparr> in
       then_do (send_bytes env this (ChatBroadcastRequest_bytes sendData) (int sizeof_ChatBroadcastRequest) w) (\<lambda>(_, w).
       Some (Inr w))))))"

definition moveRequest :: "client_env \<Rightarrow> nat \<Rightarrow> float32 \<Rightarrow> float32 \<Rightarrow> client_world \<Rightarrow> client_world res option" where
  "moveRequest env this x y w =
     then_do (Some (get_client this w)) (\<lambda>c.
     if sint (m_loginId c) < 0 then Some (Inr w)
     else
       let sendData = MoveRequest_init\<lparr>mr_mPlayerId := m_loginId c, mr_mPosX := x, mr_mPosY := y\<rparr> in
       then_do (send_bytes env this (MoveRequest_bytes sendData) (int sizeof_MoveRequest) w) (\<lambda>(_, w).
       Some (Inr w)))"

end
