(* ===== verification/Client_Properties.thy ===== *)
theory Client_Properties
  imports Tcp_Client
begin

text \<open>
  What the game client does with the stream of the server, whatever the pieces it arrives in, and what
  \<open>TcpClient::send\<close> and the requests put on the wire.
\<close>

section \<open>Packets as they are shown\<close>

text \<open>
  The effect of the packets of the server on a client whose id is \<open>pid\<close>: the id afterwards and the
  functions handed to the engine.
\<close>

fun shown1 :: "nat option \<Rightarrow> int32 \<Rightarrow> server_packet \<Rightarrow> int32 \<times> cocos_call list" where
  "shown1 layer pid (LoginPacketResult p) = (ls_mPlayerId p, [])"
| "shown1 layer pid (ChatPacketResult p) = (pid, [chatDraw_call layer (c_string (cs_mName p)) (c_string (cs_mChat p))])"
| "shown1 layer pid (MovePacketResult p) =
     (pid, [if ms_mPlayerId p = pid then updateMe_call layer (ms_mPosX p) (ms_mPosY p)
            else updatePeer_call layer (ms_mPlayerId p) (ms_mPosX p) (ms_mPosY p)])"

fun shown :: "nat option \<Rightarrow> int32 \<Rightarrow> server_packet list \<Rightarrow> int32 \<times> cocos_call list" where
  "shown layer pid [] = (pid, [])"
| "shown layer pid (p # ps) =
     (fst (shown layer (fst (shown1 layer pid p)) ps),
      snd (shown1 layer pid p) @ snd (shown layer (fst (shown1 layer pid p)) ps))"

lemma shown_append:
  "shown layer pid (xs @ ys) =
    (fst (shown layer (fst (shown layer pid xs)) ys),
     snd (shown layer pid xs) @ snd (shown layer (fst (shown layer pid xs)) ys))"
  by (induction xs arbitrary: pid) simp_all

section \<open>One packet\<close>

definition receiver_ok :: "tcp_client \<Rightarrow> bool" where
  "receiver_ok c \<longleftrightarrow> client_buffer_ok (m_recvBuffer c) \<and> mCapacity (m_recvBuffer c) = BUF_SIZE"

lemma get_client_simps [simp]:
  "tcp_clients w a = Some c \<Longrightarrow> get_client a w = Inr c"
  "tcp_clients w a = None \<Longrightarrow> get_client a w = Inl DanglingPointer"
  by (simp_all add: get_client_def)

lemma set_client_simps [simp]:
  "tcp_clients (set_client a c w) = (tcp_clients w)(a \<mapsto> c)"
  "cocos_queue (set_client a c w) = cocos_queue w"
  "client_calls (set_client a c w) = client_calls w"
  by (simp_all add: set_client_def)

lemma std_string_terminated: "terminated n s \<Longrightarrow> std_string s = Inr (c_string s)"
  by (erule terminated_strnlen) (simp add: std_string_def strlen_ok)

lemma processPacket_turn_packet:
  assumes c: "tcp_clients w a = Some c" and ok: "receiver_ok c"
    and bytes: "contents (m_recvBuffer c) = server_bytes p @ rest" and p: "server_packet_ok p"
    and layer: "\<forall>k. base_layer env k = Some layer"
  shows "\<exists>w' rb. processPacket_turn env a w = Inr (True, w') \<and>
    tcp_clients w' = (tcp_clients w)(a \<mapsto> c\<lparr>m_recvBuffer := rb, m_loginId := fst (shown1 layer (m_loginId c) p)\<rparr>) \<and>
    client_buffer_ok rb \<and> mCapacity rb = BUF_SIZE \<and> contents rb = rest \<and>
    cocos_queue w' = cocos_queue w @ snd (shown1 layer (m_loginId c) p)"
proof -
  have cb: "client_buffer_ok (m_recvBuffer c)" using ok by (simp add: receiver_ok_def)
  from client_Read_ok [OF cb, of "length (server_bytes p)"] bytes obtain rb where
    rb: "client_Read (m_recvBuffer c) (length (server_bytes p)) = Inr (Some (server_bytes p), rb)"
      "client_buffer_ok rb" "contents rb = rest" by auto
  from client_Read_capacity [OF cb rb(1)] ok have cap: "mCapacity rb = BUF_SIZE" by (simp add: receiver_ok_def)
  note len = length_server_packet [OF p] and h = header_server_packet [OF p]
  have "sizeof_PacketHeader \<le> length (server_bytes p)"
    using len by (cases p) (simp_all add: sizeof_PacketHeader_def)
  with client_cbq.peek_law [OF cb, of sizeof_PacketHeader] bytes
  have peek: "client_Peek (m_recvBuffer c) sizeof_PacketHeader = Inr (Some (take sizeof_PacketHeader (server_bytes p)))"
    by simp
  have stored: "client_GetStoredSize (m_recvBuffer c) = length (server_bytes p) + length rest"
    using GetStoredSize_contents [of "m_recvBuffer c"] cb bytes by (simp add: client_buffer_ok_def client_cb_defs)
  show ?thesis
  proof (cases p)
    case (LoginPacketResult q)
    with p obtain k where "strnlen (ls_mName q) = Some k" by (auto elim: terminated_strnlen)
    with LoginPacketResult p c rb cap h len peek stored packet_roundtrip(2) [of q] show ?thesis
      by (intro exI [of _ "set_client a (c\<lparr>m_recvBuffer := rb, m_loginId := ls_mPlayerId q\<rparr>) w"] exI [of _ rb])
        (simp add: processPacket_turn_def Let_def LoginResult_init_def sizeof_defs strlen_ok terminated_def)
  next
    case (ChatPacketResult q)
    with p have s: "std_string (cs_mName q) = Inr (c_string (cs_mName q))"
        "std_string (cs_mChat q) = Inr (c_string (cs_mChat q))" by (auto intro: std_string_terminated)
    let ?w = "client_sys_call (set_client a (c\<lparr>m_recvBuffer := rb\<rparr>) w)"
    have "ChatBroadcastResult_at (ChatBroadcastResult_bytes q) = q"
      using ChatPacketResult p packet_roundtrip(4) [of q] by (simp add: terminated_def)
    with ChatPacketResult p c rb cap h len peek stored s layer show ?thesis
      by (intro exI [of _ "perform (chatDraw_call layer (c_string (cs_mName q)) (c_string (cs_mChat q))) ?w"] exI [of _ rb])
        (simp add: processPacket_turn_def Let_def ChatBroadcastResult_init_def sizeof_defs find_layer_def perform_def
          client_sys_call_def set_client_def)
  next
    case (MovePacketResult q)
    let ?w = "client_sys_call (set_client a (c\<lparr>m_recvBuffer := rb\<rparr>) w)"
    from MovePacketResult p c rb cap h len peek stored layer packet_roundtrip(6) [of q] show ?thesis
      by (intro exI [of _ "perform (hd (snd (shown1 layer (m_loginId c) p))) ?w"] exI [of _ rb])
        (simp add: processPacket_turn_def Let_def MoveBroadcastResult_init_def sizeof_defs find_layer_def perform_def
          client_sys_call_def set_client_def)
  qed
qed

lemma processPacket_turn_incomplete:
  assumes "tcp_clients w a = Some c" and "receiver_ok c" and "incomplete (contents (m_recvBuffer c))"
  shows "processPacket_turn env a w = Inr (False, w)"
proof -
  have cb: "client_buffer_ok (m_recvBuffer c)" using assms(2) by (simp add: receiver_ok_def)
  then have "client_GetStoredSize (m_recvBuffer c) = length (contents (m_recvBuffer c))"
    by (simp add: client_buffer_ok_def client_cb_defs GetStoredSize_contents)
  with assms client_cbq.peek_law [OF cb, of sizeof_PacketHeader] show ?thesis
    by (auto simp: processPacket_turn_def incomplete_def Let_def)
qed

section \<open>The loop\<close>

lemma processPacket_goes_on: "processPacket_turn env a w = Inr (True, w') \<Longrightarrow> processPacket env a w = processPacket env a w'"
  by (subst processPacket.simps) simp

lemma processPacket_stop: "processPacket_turn env a w = Inr (False, w') \<Longrightarrow> processPacket env a w = Some (Inr w')"
  by (subst processPacket.simps) simp

lemma processPacket_fault: "processPacket_turn env a w = Inl e \<Longrightarrow> processPacket env a w = Some (Inl e)"
  by (subst processPacket.simps) simp

lemma processPacket_packets:
  assumes "tcp_clients w a = Some c" and "receiver_ok c"
    and "contents (m_recvBuffer c) = concat (map server_bytes ps) @ rest" and "\<forall>p \<in> set ps. server_packet_ok p"
    and "incomplete rest" and "\<forall>k. base_layer env k = Some layer"
  shows "\<exists>w' c'. processPacket env a w = Some (Inr w') \<and> tcp_clients w' a = Some c' \<and> receiver_ok c' \<and>
    contents (m_recvBuffer c') = rest \<and> m_loginId c' = fst (shown layer (m_loginId c) ps) \<and>
    cocos_queue w' = cocos_queue w @ snd (shown layer (m_loginId c) ps)"
  using assms(1-4)
proof (induction ps arbitrary: w c)
  case Nil
  with processPacket_stop [OF processPacket_turn_incomplete] assms(5) show ?case by auto
next
  case (Cons p ps)
  from Cons.prems(3) have "contents (m_recvBuffer c) = server_bytes p @ concat (map server_bytes ps) @ rest" by simp
  from processPacket_turn_packet [OF Cons.prems(1,2) this _ assms(6)] Cons.prems(4) obtain w1 rb where
    1: "processPacket_turn env a w = Inr (True, w1)"
      "tcp_clients w1 = (tcp_clients w)(a \<mapsto> c\<lparr>m_recvBuffer := rb, m_loginId := fst (shown1 layer (m_loginId c) p)\<rparr>)"
      "client_buffer_ok rb" "mCapacity rb = BUF_SIZE" "contents rb = concat (map server_bytes ps) @ rest"
      "cocos_queue w1 = cocos_queue w @ snd (shown1 layer (m_loginId c) p)" by auto
  from Cons.IH [of w1 "c\<lparr>m_recvBuffer := rb, m_loginId := fst (shown1 layer (m_loginId c) p)\<rparr>"] 1 Cons.prems(4)
  show ?case by (auto simp: receiver_ok_def processPacket_goes_on [OF 1(1)])
qed

section \<open>The network thread\<close>

text \<open>Turns of the network thread whose \<open>::recv\<close> calls return the results of a list.\<close>

fun network_run :: "client_env \<Rightarrow> nat \<Rightarrow> byte list option list \<Rightarrow> client_world \<Rightarrow> client_world res option" where
  "network_run env this [] w = Some (Inr w)"
| "network_run env this (n # ns) w =
     then_do (networkThread_turn (env\<lparr>net_recv := \<lambda>_. n\<rparr>) this w) (network_run env this ns)"

fun received_bytes :: "byte list option \<Rightarrow> byte list" where
  "received_bytes None = []"
| "received_bytes (Some bs) = bs"

lemma networkThread_turn_bytes:
  assumes "tcp_clients w a = Some c" and "receiver_ok c" and "length bs \<le> RECV_SIZE" and "length (contents (m_recvBuffer c)) \<le> 294"
    and "contents (m_recvBuffer c) @ bs = concat (map server_bytes ps) @ rest" and "\<forall>p \<in> set ps. server_packet_ok p"
    and "incomplete rest" and "\<forall>k. base_layer env k = Some layer" and "bs \<noteq> []"
  shows "\<exists>w' c'. networkThread_turn (env\<lparr>net_recv := \<lambda>_. Some bs\<rparr>) a w = Some (Inr w') \<and> tcp_clients w' a = Some c' \<and>
    receiver_ok c' \<and> contents (m_recvBuffer c') = rest \<and> m_loginId c' = fst (shown layer (m_loginId c) ps) \<and>
    cocos_queue w' = cocos_queue w @ snd (shown layer (m_loginId c) ps)"
proof -
  have cb: "client_buffer_ok (m_recvBuffer c)" "mCapacity (m_recvBuffer c) = BUF_SIZE"
    using assms(2) by (simp_all add: receiver_ok_def)
  from client_room [OF cb(1)] cb(2) assms(3,4) have "length bs \<le> room (m_recvBuffer c)"
    by (simp add: BUF_SIZE_def RECV_SIZE_def)
  from client_Write_ok [OF cb(1) this, of "bs @ drop (length bs) (replicate RECV_SIZE 0)"] obtain rb where
    rb: "client_Write (m_recvBuffer c) (bs @ drop (length bs) (replicate RECV_SIZE 0)) (length bs) = Inr (True, rb)"
      "client_buffer_ok rb" "contents rb = contents (m_recvBuffer c) @ bs" by auto
  from rb(1) cb(2) have "mCapacity rb = BUF_SIZE" by (auto simp: client_Write_def dest: mCapacity_Write)
  with rb have "receiver_ok (c\<lparr>m_recvBuffer := rb\<rparr>)" by (simp add: receiver_ok_def)
  from processPacket_packets [OF _ this, of "set_client a (c\<lparr>m_recvBuffer := rb\<rparr>) (client_sys_call w)" a ps rest
      "env\<lparr>net_recv := \<lambda>_. Some bs\<rparr>" layer] rb(3) assms
  obtain w' c' where "processPacket (env\<lparr>net_recv := \<lambda>_. Some bs\<rparr>) a
      (set_client a (c\<lparr>m_recvBuffer := rb\<rparr>) (client_sys_call w)) = Some (Inr w')"
    "tcp_clients w' a = Some c'" "receiver_ok c'" "contents (m_recvBuffer c') = rest"
    "m_loginId c' = fst (shown layer (m_loginId c) ps)" "cocos_queue w' = cocos_queue w @ snd (shown layer (m_loginId c) ps)"
    by (auto simp: client_sys_call_def)
  then show ?thesis using assms(1,3,9) rb(1)
    by (cases bs) (simp_all add: networkThread_turn_def Let_def)
qed

lemma networkThread_turn_nothing:
  assumes "tcp_clients w a = Some c" and "received_bytes n = []"
  shows "networkThread_turn (env\<lparr>net_recv := \<lambda>_. n\<rparr>) a w = Some (Inr (client_sys_call w))"
  using assms by (cases n) (simp_all add: networkThread_turn_def Let_def)

text \<open>A stream of packets cut anywhere: whole packets and a short rest, then what is still to come.\<close>

lemma server_stream_cut:
  assumes "xs @ ys = concat (map server_bytes ps) @ rest" and "\<forall>p \<in> set ps. server_packet_ok p"
    and "incomplete rest" and "length rest \<le> 294"
  shows "\<exists>k r. xs = concat (map server_bytes (take k ps)) @ r \<and> incomplete r \<and> length r \<le> 294 \<and>
    r @ ys = concat (map server_bytes (drop k ps)) @ rest \<and>
    (\<forall>p \<in> set (take k ps). server_packet_ok p) \<and> (\<forall>p \<in> set (drop k ps). server_packet_ok p)"
proof -
  have "\<forall>p \<in> set ps. framed (server_bytes p)" using assms(2) framed_server_packet by blast
  from stream_prefix [OF assms(1) this assms(3)] obtain k r where
    k: "xs = concat (map server_bytes (take k ps)) @ r" "incomplete r"
      "r @ ys = concat (map server_bytes (drop k ps)) @ rest"
      "length r \<le> length rest \<or> (\<exists>p \<in> set ps. length r < length (server_bytes p))" by blast
  have "length (server_bytes p) \<le> 294" if "p \<in> set ps" for p
    using length_server_packet [of p] assms(2) that by (cases p) auto
  with k(4) assms(4) have "length r \<le> 294" by fastforce
  with k assms(2) show ?thesis
    by (intro exI [of _ k] exI [of _ r]) (auto dest: in_set_takeD in_set_dropD)
qed

lemma network_run_stream:
  assumes "tcp_clients w a = Some c" and "receiver_ok c" and "\<forall>n \<in> set ns. length (received_bytes n) \<le> RECV_SIZE"
    and "contents (m_recvBuffer c) @ concat (map received_bytes ns) = concat (map server_bytes ps) @ rest"
    and "\<forall>p \<in> set ps. server_packet_ok p" and "incomplete rest" and "length rest \<le> 294"
    and "incomplete (contents (m_recvBuffer c))" and "length (contents (m_recvBuffer c)) \<le> 294"
    and "\<forall>k. base_layer env k = Some layer"
  shows "\<exists>w' c'. network_run env a ns w = Some (Inr w') \<and> tcp_clients w' a = Some c' \<and> receiver_ok c' \<and>
    contents (m_recvBuffer c') = rest \<and> m_loginId c' = fst (shown layer (m_loginId c) ps) \<and>
    cocos_queue w' = cocos_queue w @ snd (shown layer (m_loginId c) ps)"
  using assms(1-5,8,9)
proof (induction ns arbitrary: w c ps)
  case Nil
  have framed: "\<forall>p \<in> set ps. framed (server_bytes p)" using Nil.prems(5) framed_server_packet by blast
  have "ps = []"
  proof (cases ps)
    case (Cons p qs)
    with Nil.prems(4) have "contents (m_recvBuffer c) = server_bytes p @ concat (map server_bytes qs) @ rest" by simp
    moreover have "\<not> incomplete (server_bytes p @ xs)" for xs
      using framed Cons by (auto simp: framed_def incomplete_def)
    ultimately show ?thesis using Nil.prems(6) by simp
  qed simp
  with Nil show ?case by simp
next
  case (Cons n ns)
  show ?case
  proof (cases "received_bytes n = []")
    case True
    with networkThread_turn_nothing [OF Cons.prems(1) True, of env] Cons.IH [of "client_sys_call w" c ps] Cons.prems
    show ?thesis by (simp add: client_sys_call_def)
  next
    case False
    from Cons.prems(4) have "(contents (m_recvBuffer c) @ received_bytes n) @ concat (map received_bytes ns)
        = concat (map server_bytes ps) @ rest" by simp
    from server_stream_cut [OF this Cons.prems(5) assms(6,7)] obtain k r where
      k: "contents (m_recvBuffer c) @ received_bytes n = concat (map server_bytes (take k ps)) @ r" "incomplete r"
        "r @ concat (map received_bytes ns) = concat (map server_bytes (drop k ps)) @ rest" "length r \<le> 294"
      and ps: "\<forall>p \<in> set (take k ps). server_packet_ok p" "\<forall>p \<in> set (drop k ps). server_packet_ok p" by blast
    from False have n: "n = Some (received_bytes n)" by (cases n) auto
    from networkThread_turn_bytes [OF Cons.prems(1,2) _ Cons.prems(7) k(1) ps(1) k(2) assms(10) False] Cons.prems(3)
    obtain w1 c1 where w1: "networkThread_turn (env\<lparr>net_recv := \<lambda>_. Some (received_bytes n)\<rparr>) a w = Some (Inr w1)"
      "tcp_clients w1 a = Some c1" "receiver_ok c1" "contents (m_recvBuffer c1) = r"
      "m_loginId c1 = fst (shown layer (m_loginId c) (take k ps))"
      "cocos_queue w1 = cocos_queue w @ snd (shown layer (m_loginId c) (take k ps))" by auto
    from Cons.IH [OF w1(2,3), of "drop k ps"] w1(4) k(2-4) ps(2) Cons.prems(3) obtain w' c' where
      "network_run env a ns w1 = Some (Inr w')" "tcp_clients w' a = Some c'" "receiver_ok c'"
      "contents (m_recvBuffer c') = rest" "m_loginId c' = fst (shown layer (m_loginId c1) (drop k ps))"
      "cocos_queue w' = cocos_queue w1 @ snd (shown layer (m_loginId c1) (drop k ps))" by auto
    moreover have "network_run env a (n # ns) w = network_run env a ns w1" using w1(1) n by (metis network_run.simps(2) then_do_simps(3))
    moreover note shown_append [of layer "m_loginId c" "take k ps" "drop k ps"]
    ultimately show ?thesis using w1(5,6) by auto
  qed
qed

text \<open>
  C7: the game client understands what the server sends, however the stream is cut up on its way: if
  the bytes that the successive \<open>::recv\<close> calls return are those of well-formed packets, and then a part
  of one more, the network thread handles each packet once, in order, with the id it has logged in
  with; no assertion fails, the receive buffer never runs full, and the incomplete part stays in it.
\<close>

theorem client_receives_stream:
  assumes "tcp_clients w a = Some c" and "m_recvBuffer c = client_CircularBuffer junk BUF_SIZE"
    and "\<forall>n \<in> set ns. length (received_bytes n) \<le> RECV_SIZE"
    and "concat (map received_bytes ns) = concat (map server_bytes ps) @ rest"
    and "\<forall>p \<in> set ps. server_packet_ok p" and "incomplete rest" and "length rest \<le> 294"
    and "\<forall>k. base_layer env k = Some layer"
  shows "\<exists>w' c'. network_run env a ns w = Some (Inr w') \<and> tcp_clients w' a = Some c' \<and>
    contents (m_recvBuffer c') = rest \<and> m_loginId c' = fst (shown layer (m_loginId c) ps) \<and>
    cocos_queue w' = cocos_queue w @ snd (shown layer (m_loginId c) ps)"
proof -
  have "receiver_ok c" using assms(2) client_buffer_ok_new(1,3) by (simp add: receiver_ok_def BUF_SIZE_def)
  moreover have "contents (m_recvBuffer c) = []" using assms(2) client_buffer_ok_new(2) by simp
  moreover have "incomplete []" by (simp add: incomplete_def sizeof_PacketHeader_def)
  ultimately show ?thesis using network_run_stream [OF assms(1) _ assms(3) _ assms(5-7) _ _ assms(8)] assms(4) by auto
qed

section \<open>A client\<close>

text \<open>A client on socket 3 at address 64; \<open>::send\<close> takes everything, the scene has a layer.\<close>

definition demo_client_env :: client_env where
  "demo_client_env =
     \<lparr>net_WSAStartup = \<lambda>_. 0, net_socket = \<lambda>_. 3, net_gethostbyname = \<lambda>_ _. Some 16777343, net_connect = \<lambda>_. 0,
      net_send = \<lambda>_ n. int n, net_recv = \<lambda>_. None, UserDefault_ipaddr = \<lambda>d. d, UserDefault_port = \<lambda>d. d,
      base_layer = \<lambda>_. Some (Some 128), client_rand = \<lambda>_. 7, client_memory = \<lambda>_. 204,
      client_block = \<lambda>live. if 64 \<in> live then 65 else 64\<rparr>"

definition demo_client :: "int32 \<Rightarrow> tcp_client" where
  "demo_client pid = \<lparr>m_sock = 3, m_recvBuffer = client_CircularBuffer (\<lambda>_. 204) BUF_SIZE, m_loginId = pid\<rparr>"

definition demo_client_world :: "int32 \<Rightarrow> client_world" where
  "demo_client_world pid = client_world_init
     \<lparr>tcp_clients := [64 \<mapsto> demo_client pid], s_TcpClient := Some 64, network_threads := [64]\<rparr>"

lemma demo_client_at [simp]: "tcp_clients (demo_client_world pid) 64 = Some (demo_client pid)"
  by (simp add: demo_client_world_def)

theorem client_receives_stream_witness:
  "\<exists>w' c'. let p = (LoginResult_init 0 0)\<lparr>ls_mPlayerId := 1001\<rparr>; m = MoveBroadcastResult_init\<lparr>ms_mPlayerId := 1001, ms_mPosX := 5\<rparr>;
      bs = LoginResult_bytes p @ MoveBroadcastResult_bytes m in
    network_run demo_client_env 64 [Some (take 50 bs), None, Some (drop 50 bs)] (demo_client_world (-1)) = Some (Inr w') \<and>
    tcp_clients w' 64 = Some c' \<and> m_loginId c' = 1001 \<and> cocos_queue w' = [updateMe_call (Some 128) 5 0]"
proof -
  define p :: LoginResult where "p = (LoginResult_init 0 0)\<lparr>ls_mPlayerId := 1001\<rparr>"
  define m :: MoveBroadcastResult where "m = MoveBroadcastResult_init\<lparr>ms_mPlayerId := 1001, ms_mPosX := 5\<rparr>"
  define bs where "bs = LoginResult_bytes p @ MoveBroadcastResult_bytes m"
  let ?ps = "[LoginPacketResult p, MovePacketResult m]" and ?ns = "[Some (take 50 bs), None, Some (drop 50 bs)]"
  have ok: "\<forall>q \<in> set ?ps. server_packet_ok q"
    by (simp add: p_def m_def LoginResult_init_def MoveBroadcastResult_init_def terminated_def MAX_NAME_LEN_def)
  have "length bs = 62" using ok length_server_packet [of "LoginPacketResult p"] length_server_packet [of "MovePacketResult m"]
    by (simp add: bs_def)
  then have len: "\<forall>n \<in> set ?ns. length (received_bytes n) \<le> RECV_SIZE" by (simp add: RECV_SIZE_def)
  have stream: "concat (map received_bytes ?ns) = concat (map server_bytes ?ps) @ []"
  proof -
    have "concat (map received_bytes ?ns) = bs" by simp
    then show ?thesis by (simp add: bs_def)
  qed
  have layer: "\<forall>k. base_layer demo_client_env k = Some (Some 128)" by (simp add: demo_client_env_def)
  have buf: "m_recvBuffer (demo_client (-1)) = client_CircularBuffer (\<lambda>_. 204) BUF_SIZE" by (simp add: demo_client_def)
  have none: "incomplete []" "length ([] :: byte list) \<le> 294" by (simp_all add: incomplete_def sizeof_PacketHeader_def)
  have shown: "shown (Some 128) (-1) ?ps = (1001, [updateMe_call (Some 128) 5 0])"
    by (simp add: p_def m_def MoveBroadcastResult_init_def)
  have start: "m_loginId (demo_client (-1)) = -1" "cocos_queue (demo_client_world (-1)) = []"
    by (simp_all add: demo_client_def demo_client_world_def client_world_init_def)
  from client_receives_stream [OF demo_client_at buf len stream ok none layer, unfolded start shown fst_conv snd_conv append_Nil]
  obtain w' c' where "network_run demo_client_env 64 ?ns (demo_client_world (-1)) = Some (Inr w')"
    "tcp_clients w' 64 = Some c'" "m_loginId c' = 1001" "cocos_queue w' = [updateMe_call (Some 128) 5 0]" by blast
  then show ?thesis unfolding p_def [symmetric] m_def [symmetric] bs_def [symmetric] Let_def by blast
qed

section \<open>Sending\<close>

text \<open>The documented behaviour of a blocking \<open>::send\<close>: it takes at least one byte, or fails.\<close>

definition send_ok :: "client_env \<Rightarrow> bool" where
  "send_ok env \<longleftrightarrow> (\<forall>k n. 0 < n \<longrightarrow> net_send env k n = SOCKET_ERROR \<or> 1 \<le> net_send env k n \<and> net_send env k n \<le> int n)"

definition put_on_wire :: "SOCKET \<Rightarrow> byte list list \<Rightarrow> client_world \<Rightarrow> client_world \<Rightarrow> bool" where
  "put_on_wire sock ds w w' \<longleftrightarrow>
     w' = w\<lparr>wire := wire w @ map (\<lambda>d. (sock, d)) ds, client_calls := client_calls w'\<rparr>"

lemma put_on_wire_wire: "put_on_wire sock ds w w' \<Longrightarrow> wire w' = wire w @ map (\<lambda>d. (sock, d)) ds"
  unfolding put_on_wire_def by (drule arg_cong [of _ _ wire]) simp

lemma put_on_wire_keeps:
  assumes "put_on_wire sock ds w w'"
  shows "tcp_clients w' = tcp_clients w" and "cocos_queue w' = cocos_queue w"
  using arg_cong [OF assms [unfolded put_on_wire_def], of tcp_clients]
    arg_cong [OF assms [unfolded put_on_wire_def], of cocos_queue] by simp_all

text \<open>One turn of the loop, with \<open>c\<close> bytes sent of which \<open>n\<close> are to be sent.\<close>

lemma send_loop_turn:
  assumes "2 * c < n" and "n \<le> length data"
  shows "send_loop env sock data (int c) (int n - int c) w =
    (let s = net_send env (client_calls w) (n - c);
         w' = (client_sys_call w)\<lparr>wire := wire w @ [(sock, take (nat s) (take (n - c) (drop c data)))]\<rparr>
     in if s = SOCKET_ERROR then Some (Inr (False, w')) else send_loop env sock data (int c + s) (int n - int c - s) w')"
proof -
  have "mem_read data (nat (int c)) (nat (int n - int c)) = Inr (take (n - c) (drop c data))"
    using assms by (simp add: nat_diff_distrib')
  then show ?thesis using assms(1) by (subst send_loop.simps) (simp add: Let_def nat_diff_distrib')
qed

lemma take_drop_prefix: "c + k \<le> n \<Longrightarrow> concat ds = take j (drop (c + k) xs) \<Longrightarrow>
    concat (take k (take (n - c) (drop c xs)) # ds) = take (k + j) (drop c xs)"
  using take_add [of k j "drop c xs"] by (simp add: min_def add.commute)

lemma send_loop_prefix:
  assumes "send_ok env" and "c \<le> n" and "n \<le> length data"
  shows "\<exists>b w' ds k. send_loop env sock data (int c) (int n - int c) w = Some (Inr (b, w')) \<and>
    put_on_wire sock ds w w' \<and> concat ds = take k (drop c data) \<and> c + k \<le> n \<and> (b \<longrightarrow> n \<le> 2 * (c + k))"
  using assms(2)
proof (induction "n - c" arbitrary: c w rule: less_induct)
  case less
  show ?case
  proof (cases "2 * c < n")
    case False
    then have "send_loop env sock data (int c) (int n - int c) w = Some (Inr (True, w))"
      by (subst send_loop.simps) simp
    moreover have "put_on_wire sock [] w w" by (simp add: put_on_wire_def)
    ultimately show ?thesis using False less.prems
      by (intro exI [of _ True] exI [of _ w] exI [of _ "[]"] exI [of _ 0]) simp
  next
    case True
    let ?s = "net_send env (client_calls w) (n - c)" and ?d = "take (n - c) (drop c data)"
    let ?w = "(client_sys_call w)\<lparr>wire := wire w @ [(sock, take (nat ?s) ?d)]\<rparr>"
    note eq = send_loop_turn [OF True assms(3), of env sock w, unfolded Let_def]
    from assms(1) True consider (err) "?s = SOCKET_ERROR" | (sent) "1 \<le> ?s" "?s \<le> int (n - c)"
      unfolding send_ok_def by (metis less.prems le_neq_implies_less mult_2 nat_less_le not_add_less1 zero_less_diff)
    then show ?thesis
    proof cases
      case err
      have "put_on_wire sock [take (nat ?s) ?d] w ?w" by (simp add: put_on_wire_def client_sys_call_def)
      with err eq less.prems show ?thesis
        by (intro exI [of _ False] exI [of _ ?w] exI [of _ "[take (nat ?s) ?d]"] exI [of _ 0]) simp
    next
      case sent
      let ?k = "nat ?s"
      from sent have k: "?s = int ?k" "1 \<le> ?k" "c + ?k \<le> n" using less.prems by linarith+
      then have "n - (c + ?k) < n - c" by linarith
      from less.hyps [OF this k(3), of ?w] obtain b w' ds j where
        ih: "send_loop env sock data (int (c + ?k)) (int n - int (c + ?k)) ?w = Some (Inr (b, w'))"
          "put_on_wire sock ds ?w w'" "concat ds = take j (drop (c + ?k) data)" "c + ?k + j \<le> n"
          "b \<longrightarrow> n \<le> 2 * (c + ?k + j)" by blast
      have "send_loop env sock data (int c) (int n - int c) w = Some (Inr (b, w'))"
        using eq ih(1) k(1,2) by (simp add: algebra_simps)
      moreover have "put_on_wire sock (take ?k ?d # ds) w w'"
        using ih(2) by (simp add: put_on_wire_def client_sys_call_def)
      moreover note take_drop_prefix [OF k(3) ih(3)]
      ultimately show ?thesis using ih(4,5)
        by (intro exI [of _ b] exI [of _ w'] exI [of _ "take ?k ?d # ds"] exI [of _ "?k + j"]) (simp add: add.assoc)
    qed
  qed
qed

lemma send_loop_first:
  assumes "0 < n" and "n \<le> length data" and "net_send env (client_calls w) n = int k" and "n \<le> 2 * k" and "k \<le> n"
  shows "\<exists>w'. send_loop env sock data 0 (int n) w = Some (Inr (True, w')) \<and> put_on_wire sock [take k data] w w'"
proof -
  let ?w = "(client_sys_call w)\<lparr>wire := wire w @ [(sock, take k (take n data))]\<rparr>"
  have "send_loop env sock data 0 (int n) w = send_loop env sock data (int k) (int n - int k) ?w"
    using assms by (subst send_loop.simps) (simp add: Let_def)
  also have "\<dots> = Some (Inr (True, ?w))" using assms(4) by (subst send_loop.simps) simp
  finally show ?thesis using assms(5) by (auto simp: put_on_wire_def client_sys_call_def min_def)
qed

text \<open>
  C38: \<open>TcpClient::send\<close> returns, puts a prefix of the data on the wire, in order and without a gap or a
  repetition, and reads nothing behind the data; but its \<open>true\<close> only means that at least half has been
  sent, since the loop compares the bytes sent with the bytes left: when the first \<open>::send\<close> takes
  half of the data or more, it stops there.
\<close>

theorem send_sends_half:
  assumes "tcp_clients w a = Some c" and "send_ok env" and "n \<le> length data"
  shows "(\<exists>b w' ds k. send_bytes env a data (int n) w = Some (Inr (b, w')) \<and> put_on_wire (m_sock c) ds w w' \<and>
      concat ds = take k data \<and> k \<le> n \<and> (b \<longrightarrow> n \<le> 2 * k)) \<and>
    (\<forall>k. 0 < k \<longrightarrow> net_send env (client_calls w) n = int k \<longrightarrow> k \<le> n \<longrightarrow> n \<le> 2 * k \<longrightarrow>
      (\<exists>w'. send_bytes env a data (int n) w = Some (Inr (True, w')) \<and> put_on_wire (m_sock c) [take k data] w w'))"
  using send_loop_prefix [OF assms(2) _ assms(3), of 0 "m_sock c" w] send_loop_first [OF _ assms(3), of env w _ "m_sock c"] assms(1)
  by (fastforce simp: send_bytes_def)

theorem send_sends_half_witness:
  "\<exists>w'. send_bytes (demo_client_env\<lparr>net_send := \<lambda>_ n. int ((n + 1) div 2)\<rparr>) 64 [1, 2, 3] 3 (demo_client_world 1001) = Some (Inr (True, w')) \<and>
    wire w' = [(3, [1, 2])]"
proof -
  let ?env = "demo_client_env\<lparr>net_send := \<lambda>_ n. int ((n + 1) div 2)\<rparr>"
  have ok: "send_ok ?env" by (auto simp: send_ok_def)
  have "3 \<le> length [1, 2, 3 :: byte]" by simp
  from send_sends_half [OF demo_client_at ok this, of "1001"] obtain w' where
    "send_bytes ?env 64 [1, 2, 3] (int 3) (demo_client_world 1001) = Some (Inr (True, w'))"
    "put_on_wire 3 [take 2 [1, 2, 3]] (demo_client_world 1001) w'" by (auto simp: demo_client_def dest!: spec [of _ 2])
  with put_on_wire_wire [OF this(2)] show ?thesis by (auto simp: demo_client_world_def client_world_init_def)
qed

section \<open>Requests\<close>

definition sends_all :: "client_env \<Rightarrow> bool" where
  "sends_all env \<longleftrightarrow> (\<forall>k n. net_send env k n = int n)"

lemma send_bytes_all:
  assumes "sends_all env" and "tcp_clients w a = Some c" and "length data = n" and "0 < n"
  shows "\<exists>w'. send_bytes env a data (int n) w = Some (Inr (True, w')) \<and> put_on_wire (m_sock c) [data] w w'"
  using send_loop_first [of n data env w n "m_sock c"] assms by (auto simp: send_bytes_def sends_all_def)

lemma chatRequest_puts:
  assumes "tcp_clients w a = Some c" and "0 \<le> sint (m_loginId c)" and "sends_all env" and "strnlen chat = Some k"
    and k: "k \<le> MAX_CHAT_LEN"
  shows "\<exists>w' p. chatRequest env a chat w = Some (Inr w') \<and>
      put_on_wire (m_sock c) [packet_bytes (ChatPacket p)] w w' \<and> packet_ok (ChatPacket p) \<and>
      cr_mPlayerId p = m_loginId c \<and> c_string (cr_mChat p) = c_string chat \<and> (0 \<in> set (cr_mChat p) \<longleftrightarrow> k < MAX_CHAT_LEN)"
proof -
  have chat: "mem_read chat 0 k = Inr (c_string chat)" "length (c_string chat) = k"
    using strnlen_less [OF assms(4)] strnlen_c_string [OF assms(4)] by (simp_all add: min_def flip: strnlen_c_string [OF assms(4)])
  let ?chat = "c_string chat @ replicate (MAX_CHAT_LEN - k) 0"
  let ?p = "ChatBroadcastRequest_init\<lparr>cr_mPlayerId := m_loginId c, cr_mChat := ?chat\<rparr>"
  have zero: "0 \<notin> set (c_string chat)" by (auto simp: c_string_def dest: set_takeWhileD)
  have len: "length (ChatBroadcastRequest_bytes ?p) = sizeof_ChatBroadcastRequest" "0 < sizeof_ChatBroadcastRequest"
    using k chat(2) by (simp_all add: sizeof_ChatBroadcastRequest_def)
  from send_bytes_all [OF assms(3,1) len] obtain w' where
    w': "send_bytes env a (ChatBroadcastRequest_bytes ?p) (int sizeof_ChatBroadcastRequest) w = Some (Inr (True, w'))"
      "put_on_wire (m_sock c) [ChatBroadcastRequest_bytes ?p] w w'" by blast
  have "chatRequest env a chat w = Some (Inr w')"
    using assms chat w'(1) k by (simp add: chatRequest_def strlen_ok ChatBroadcastRequest_init_def Let_def)
  moreover have "packet_ok (ChatPacket ?p)" using k chat(2) by (simp add: ChatBroadcastRequest_init_def)
  moreover have "takeWhile (\<lambda>b. b \<noteq> 0) ?chat = c_string chat"
    using zero by (subst takeWhile_append2) (auto simp: takeWhile_replicate)
  ultimately show "\<exists>w' p. chatRequest env a chat w = Some (Inr w') \<and>
      put_on_wire (m_sock c) [packet_bytes (ChatPacket p)] w w' \<and> packet_ok (ChatPacket p) \<and>
      cr_mPlayerId p = m_loginId c \<and> c_string (cr_mChat p) = c_string chat \<and> (0 \<in> set (cr_mChat p) \<longleftrightarrow> k < MAX_CHAT_LEN)"
    using w'(2) zero k
    by (intro exI [of _ w'] exI [of _ ?p]) (auto simp: c_string_def)
qed

lemma chatRequest_sends:
  assumes "tcp_clients w a = Some c" and "0 \<le> sint (m_loginId c)" and "sends_all env" and "strnlen chat = Some k"
    and "k \<le> MAX_CHAT_LEN"
  shows "\<exists>w' p. chatRequest env a chat w = Some (Inr w') \<and>
      wire w' = wire w @ [(m_sock c, packet_bytes (ChatPacket p))] \<and> packet_ok (ChatPacket p) \<and>
      cr_mPlayerId p = m_loginId c \<and> c_string (cr_mChat p) = c_string chat \<and> (0 \<in> set (cr_mChat p) \<longleftrightarrow> k < MAX_CHAT_LEN)"
  using chatRequest_puts [OF assms] put_on_wire_wire by fastforce

lemma moveRequest_sends:
  assumes "tcp_clients w a = Some c" and "0 \<le> sint (m_loginId c)" and "sends_all env"
  shows "\<exists>w'. moveRequest env a x y w = Some (Inr w') \<and> put_on_wire (m_sock c) [MoveRequest_bytes
    (MoveRequest_init\<lparr>mr_mPlayerId := m_loginId c, mr_mPosX := x, mr_mPosY := y\<rparr>)] w w'"
proof -
  let ?m = "MoveRequest_init\<lparr>mr_mPlayerId := m_loginId c, mr_mPosX := x, mr_mPosY := y\<rparr>"
  have "length (MoveRequest_bytes ?m) = sizeof_MoveRequest" "0 < sizeof_MoveRequest"
    by (simp_all add: sizeof_MoveRequest_def)
  from send_bytes_all [OF assms(3,1) this] assms show ?thesis by (auto simp: moveRequest_def Let_def)
qed

lemma loginRequest_sends:
  assumes "tcp_clients w a = Some c" and "sint (m_loginId c) \<le> 0" and "sends_all env"
  shows "\<exists>w'. loginRequest env a w = Some (Inr w') \<and> put_on_wire (m_sock c)
    [packet_bytes (LoginPacket (LoginRequest_init\<lparr>lr_mPlayerId := 1000 + of_nat (client_rand env (client_calls w) mod 101)\<rparr>))] w w'"
proof -
  let ?q = "LoginRequest_init\<lparr>lr_mPlayerId := 1000 + of_nat (client_rand env (client_calls w) mod 101)\<rparr>"
  have "length (LoginRequest_bytes ?q) = sizeof_LoginRequest" "0 < sizeof_LoginRequest"
    by (simp_all add: sizeof_LoginRequest_def)
  from send_bytes_all [OF assms(3) _ this, of "client_sys_call w"] assms show ?thesis
    by (fastforce simp: loginRequest_def Let_def put_on_wire_def client_sys_call_def)
qed



section \<open>What ends the client\<close>

text \<open>
  The game client does not survive a packet it does not expect. A complete packet of a type it has
  no case for, or a move of player \<open>-1\<close>, which the server broadcasts for a player who has not
  logged in, fails an assertion in the network thread.
\<close>

theorem client_asserts:
  assumes "tcp_clients w a = Some c" and "client_buffer_ok (m_recvBuffer c)"
    and "contents (m_recvBuffer c) = bs @ rest" and "framed bs"
    and "sint (mType (PacketHeader_at (take 4 bs))) \<notin> {2, 12, 22} \<or>
      (\<exists>p. bs = MoveBroadcastResult_bytes p \<and> mSize p = 16 \<and> mType p = 22 \<and> ms_mPlayerId p = -1)"
  shows "processPacket env a w = Some (Inl AssertFailed)"
proof (rule processPacket_fault)
  note cb = assms(2)
  from assms(3,4) client_cbq.peek_law [OF cb, of sizeof_PacketHeader]
  have peek: "client_Peek (m_recvBuffer c) sizeof_PacketHeader = Inr (Some (take 4 bs))"
    by (simp add: framed_def sizeof_PacketHeader_def)
  have stored: "client_GetStoredSize (m_recvBuffer c) = length bs + length rest"
    using GetStoredSize_contents [of "m_recvBuffer c"] cb assms(3) by (simp add: client_buffer_ok_def client_cb_defs)
  have size: "\<not> sz_of_short (mSize (PacketHeader_at (take 4 bs))) > client_GetStoredSize (m_recvBuffer c)"
    using assms(4) stored by (simp add: framed_def sizeof_PacketHeader_def)
  from assms(5) show "processPacket_turn env a w = Inl AssertFailed"
  proof (elim disjE exE conjE)
    assume "sint (mType (PacketHeader_at (take 4 bs))) \<notin> {2, 12, 22}"
    with assms(1) peek size show ?thesis by (simp add: processPacket_turn_def Let_def)
  next
    fix p assume p: "bs = MoveBroadcastResult_bytes p" "mSize p = 16" "mType p = 22" "ms_mPlayerId p = -1"
    then have h: "PacketHeader_at (take 4 bs) = \<lparr>mSize = 16, mType = 22\<rparr>" and len: "length bs = 16"
      by (simp_all add: MoveBroadcastResult_bytes_def sizeof_defs PacketHeader_at_def header_bytes_def)
    from client_Read_ok [OF cb, of 16] assms(3) len obtain rb where
      "client_Read (m_recvBuffer c) 16 = Inr (Some bs, rb)" by auto
    with assms(1) peek size h p packet_roundtrip(6) [of p] show ?thesis
      by (simp add: processPacket_turn_def Let_def MoveBroadcastResult_init_def sizeof_defs ensure_def)
  qed
qed

theorem client_asserts_witness:
  "\<exists>rb. processPacket demo_client_env 64
      ((demo_client_world 1001)\<lparr>tcp_clients := [64 \<mapsto> (demo_client 1001)\<lparr>m_recvBuffer := rb\<rparr>]\<rparr>) = Some (Inl AssertFailed)"
proof -
  let ?bs = "MoveBroadcastResult_bytes (MoveBroadcastResult_init\<lparr>ms_mPlayerId := -1\<rparr>)"
  have len: "length ?bs = 16" by (simp add: sizeof_defs)
  have "client_buffer_ok (client_CircularBuffer (\<lambda>_. 0) 100)" "room (client_CircularBuffer (\<lambda>_. 0) 100) = 100"
    using client_buffer_ok_new [where capacity = 100 and junk = "\<lambda>_. 0"] room_empty [of "client_CircularBuffer (\<lambda>_. 0) 100"]
    by (simp_all add: client_buffer_ok_def)
  from client_Write_ok [OF this(1), of 16 ?bs] this(2) len obtain rb where
    rb: "client_buffer_ok rb" "contents rb = ?bs @ []" using client_buffer_ok_new(2) [where capacity = 100 and junk = "\<lambda>_. 0"] by auto
  have "framed ?bs"
    by (simp add: framed_def MoveBroadcastResult_bytes_def sizeof_defs PacketHeader_at_def header_bytes_def MoveBroadcastResult_init_def)
  moreover have "\<exists>p. ?bs = MoveBroadcastResult_bytes p \<and> mSize p = 16 \<and> mType p = 22 \<and> ms_mPlayerId p = -1"
    by (intro exI [of _ "MoveBroadcastResult_init\<lparr>ms_mPlayerId := -1\<rparr>"]) (simp add: MoveBroadcastResult_init_def sizeof_defs)
  ultimately show ?thesis
    using client_asserts [of "(demo_client_world 1001)\<lparr>tcp_clients := [64 \<mapsto> (demo_client 1001)\<lparr>m_recvBuffer := rb\<rparr>]\<rparr>" 64
        "(demo_client 1001)\<lparr>m_recvBuffer := rb\<rparr>" ?bs "[]" demo_client_env] rb
    by auto
qed

section \<open>The singleton\<close>

lemma connect_keeps:
  assumes "tcp_clients w a = Some c"
  shows "\<exists>ok w'. connect env a host port w = Inr (ok, w') \<and> tcp_clients w' = tcp_clients w \<and>
    s_TcpClient w' = s_TcpClient w \<and> network_threads w' = network_threads w \<and>
    cocos_queue w' = cocos_queue w \<and> wire w' = wire w"
  using assms by (auto simp: connect_def client_sys_call_def Let_def split: option.splits)

lemma getInstance_makes:
  assumes "s_TcpClient w = None" and "a = client_block env (dom (tcp_clients w))"
    and "net_WSAStartup env (client_calls w) = 0" and "net_socket env (client_calls w + 1) \<noteq> INVALID_SOCKET"
  shows "\<exists>w'. getInstance env w = Inr (Some a, w') \<and> s_TcpClient w' = Some a \<and>
    tcp_clients w' = (tcp_clients w)(a \<mapsto> (TcpClient_new env)\<lparr>m_sock := net_socket env (client_calls w + 1)\<rparr>) \<and>
    network_threads w' = network_threads w @ [a] \<and> cocos_queue w' = cocos_queue w \<and> wire w' = wire w"
proof -
  let ?c = "(TcpClient_new env)\<lparr>m_sock := net_socket env (client_calls w + 1)\<rparr>"
  let ?w = "w\<lparr>tcp_clients := (tcp_clients w)(a \<mapsto> ?c), s_TcpClient := Some a, wsa_count := wsa_count w + 1,
    client_calls := client_calls w + 2, network_threads := network_threads w @ [a]\<rparr>"
  have "tcp_clients ?w a = Some ?c" by simp
  from connect_keeps [OF this, of env "UserDefault_ipaddr env ''localhost''" "UserDefault_port env 9001"] obtain ok w' where
    con: "connect env a (UserDefault_ipaddr env ''localhost'') (UserDefault_port env 9001) ?w = Inr (ok, w')"
      "tcp_clients w' = tcp_clients ?w" "s_TcpClient w' = s_TcpClient ?w" "network_threads w' = network_threads ?w"
      "cocos_queue w' = cocos_queue ?w" "wire w' = wire ?w" by blast
  have init: "initialize env a (w\<lparr>tcp_clients := (tcp_clients w)(a \<mapsto> TcpClient_new env), s_TcpClient := Some a\<rparr>) = Inr (True, ?w)"
    using assms(3,4) by (simp add: initialize_def client_sys_call_def set_client_def Let_def)
  have "getInstance env w = Inr (Some a, w')"
    using con assms(1,2) init by (simp add: getInstance_def Let_def del: client_world.update_convs)
  with con show ?thesis by (intro exI [of _ w']) simp
qed

text \<open>
  The life of the singleton. \<open>getInstance\<close> makes the client at most once; when its initialisation
  fails it answers \<open>nullptr\<close>, but the next call answers the client that has no connection. And
  \<open>destroyInstance\<close> frees the client although the detached network thread still runs on it: the next
  turn of the thread uses freed memory.
\<close>

theorem singleton_life:
  assumes "s_TcpClient w = None" and "client_block env (dom (tcp_clients w)) = a"
  shows "(\<forall>b (w' :: client_world). s_TcpClient w' = Some b \<longrightarrow> getInstance env w' = Inr (Some b, w')) \<and>
    (net_WSAStartup env (client_calls w) \<noteq> 0 \<longrightarrow>
      (\<exists>w'. getInstance env w = Inr (None, w') \<and> network_threads w' = network_threads w \<and>
        getInstance env w' = Inr (Some a, w') \<and> tcp_clients w' a = Some (TcpClient_new env))) \<and>
    (net_WSAStartup env (client_calls w) = 0 \<and> net_socket env (client_calls w + 1) \<noteq> INVALID_SOCKET \<longrightarrow>
      (\<exists>w' w''. getInstance env w = Inr (Some a, w') \<and> network_threads w' = network_threads w @ [a] \<and>
        destroyInstance w' = Inr w'' \<and> a \<in> set (network_threads w'') \<and>
        networkThread_turn env a w'' = Some (Inl DanglingPointer)))"
proof (intro conjI allI impI)
  fix b and w' :: client_world assume "s_TcpClient w' = Some b"
  then show "getInstance env w' = Inr (Some b, w')" by (simp add: getInstance_def)
next
  assume fails: "net_WSAStartup env (client_calls w) \<noteq> 0"
  let ?w = "client_sys_call (w\<lparr>tcp_clients := (tcp_clients w)(a \<mapsto> TcpClient_new env), s_TcpClient := Some a\<rparr>)"
  from fails assms show "\<exists>w'. getInstance env w = Inr (None, w') \<and> network_threads w' = network_threads w \<and>
        getInstance env w' = Inr (Some a, w') \<and> tcp_clients w' a = Some (TcpClient_new env)"
    by (intro exI [of _ ?w]) (simp add: getInstance_def initialize_def client_sys_call_def Let_def)
next
  assume works: "net_WSAStartup env (client_calls w) = 0 \<and> net_socket env (client_calls w + 1) \<noteq> INVALID_SOCKET"
  from getInstance_makes [OF assms(1) assms(2) [symmetric]] works obtain w' where
    w': "getInstance env w = Inr (Some a, w')" "network_threads w' = network_threads w @ [a]"
      "s_TcpClient w' = Some a" "\<exists>c. tcp_clients w' a = Some c" by auto
  then obtain c where "tcp_clients w' a = Some c" by blast
  with w' show "\<exists>w' w''. getInstance env w = Inr (Some a, w') \<and> network_threads w' = network_threads w @ [a] \<and>
        destroyInstance w' = Inr w'' \<and> a \<in> set (network_threads w'') \<and>
        networkThread_turn env a w'' = Some (Inl DanglingPointer)"
    by (intro exI [of _ w'] exI [of _ "w'\<lparr>client_closed := client_closed w' @ [m_sock c], wsa_count := wsa_count w' - 1,
            tcp_clients := (tcp_clients w')(a := None), s_TcpClient := None\<rparr>"])
      (simp add: destroyInstance_def TcpClient_delete_def networkThread_turn_def)
qed

theorem singleton_life_witness:
  "(\<exists>w'. getInstance (demo_client_env\<lparr>net_WSAStartup := \<lambda>_. 10091\<rparr>) client_world_init = Inr (None, w') \<and>
      getInstance (demo_client_env\<lparr>net_WSAStartup := \<lambda>_. 10091\<rparr>) w' = Inr (Some 64, w')) \<and>
    (\<exists>w' w''. getInstance demo_client_env client_world_init = Inr (Some 64, w') \<and> destroyInstance w' = Inr w'' \<and>
      networkThread_turn demo_client_env 64 w'' = Some (Inl DanglingPointer))"
  using singleton_life [of client_world_init demo_client_env 64]
    singleton_life [of client_world_init "demo_client_env\<lparr>net_WSAStartup := \<lambda>_. 10091\<rparr>" 64]
  by (auto simp: client_world_init_def demo_client_env_def INVALID_SOCKET_def)

end
