(* ===== verification/Object_Pool.thy ===== *)
theory Object_Pool
  imports EGS_Prelude
begin

text \<open>
  The allocator \<open>ObjectPool\<close> of \<open>EasyServer/EasyServer/ObjectPool.h\<close>: \<open>operator new\<close> and
  \<open>operator delete\<close> of one class, with a free list threaded through the free slots themselves.
  Addresses are natural numbers; \<open>mem\<close> is the pointer stored in the first word of a slot.
\<close>

section \<open>State and operations\<close>

record pool =
  mFreeList :: "nat option"
  mem :: "nat \<Rightarrow> nat option"
  mTotalAllocCount :: int
  mCurrentUseCount :: int

definition ObjectPool :: pool where
  "ObjectPool = \<lparr>mFreeList = None, mem = (\<lambda>_. None), mTotalAllocCount = 0, mCurrentUseCount = 0\<rparr>"

text \<open>
  The loop of \<open>operator new\<close>: \<open>n\<close> times, the current slot is made to point to the next one.
\<close>

fun link_slots :: "nat \<Rightarrow> nat \<Rightarrow> nat \<Rightarrow> (nat \<Rightarrow> nat option) \<Rightarrow> nat \<times> (nat \<Rightarrow> nat option)" where
  "link_slots 0 sz ppCurr m = (ppCurr, m)"
| "link_slots (Suc n) sz ppCurr m =
     link_slots n sz (ppCurr + sz) (m(ppCurr := Some (ppCurr + sz)))"

text \<open>
  \<open>operator new\<close>: when the free list is empty, \<open>new uint8_t [..]\<close> returns the block at \<open>base\<close>,
  which is cut into \<open>ALLOC_COUNT\<close> slots; then the first free slot is taken.
\<close>

definition operator_new :: "nat \<Rightarrow> nat \<Rightarrow> nat \<Rightarrow> pool \<Rightarrow> (nat \<times> pool) res" where
  "operator_new sz ALLOC_COUNT base p =
     (let p = (if mFreeList p = None
               then (let (ppCurr, m) = link_slots (ALLOC_COUNT - 1) sz base (mem p)
                     in p\<lparr>mFreeList := Some base, mem := m(ppCurr := None),
                          mTotalAllocCount := mTotalAllocCount p + int ALLOC_COUNT\<rparr>)
               else p)
      in rbind (deref (mFreeList p)) (\<lambda>pAvailable.
         Inr (pAvailable, p\<lparr>mFreeList := mem p pAvailable,
                            mCurrentUseCount := mCurrentUseCount p + 1\<rparr>)))"

definition operator_delete :: "nat \<Rightarrow> pool \<Rightarrow> pool res" where
  "operator_delete obj p =
     rbind (CRASH_ASSERT (mCurrentUseCount p > 0)) (\<lambda>_.
     Inr (p\<lparr>mCurrentUseCount := mCurrentUseCount p - 1,
            mem := (mem p)(obj := mFreeList p), mFreeList := Some obj\<rparr>))"

section \<open>The free list\<close>

fun chain :: "(nat \<Rightarrow> nat option) \<Rightarrow> nat option \<Rightarrow> nat list \<Rightarrow> bool" where
  "chain m p [] = (p = None)"
| "chain m p (a # as) = (p = Some a \<and> chain m (m a) as)"

lemma chain_update [simp]: "a \<notin> set as \<Longrightarrow> chain (m(a := v)) p as = chain m p as"
  by (induction as arbitrary: p) auto

lemma chain_None [simp]: "chain m None as \<longleftrightarrow> as = []"
  by (cases as) auto

lemma chain_Some: "chain m (Some a) as \<longleftrightarrow> (\<exists>bs. as = a # bs \<and> chain m (m a) bs)"
  by (cases as) auto

text \<open>The slots of a block.\<close>

fun slots :: "nat \<Rightarrow> nat \<Rightarrow> nat \<Rightarrow> nat list" where
  "slots 0 sz a = []"
| "slots (Suc n) sz a = a # slots n sz (a + sz)"

lemma length_slots [simp]: "length (slots n sz a) = n"
  by (induction n arbitrary: a) auto

lemma slots_range: "b \<in> set (slots n sz a) \<Longrightarrow> a \<le> b \<and> b + sz \<le> a + n * sz"
proof (induction n arbitrary: a)
  case (Suc n)
  then show ?case
    by (cases "b = a") (fastforce simp: algebra_simps)+
qed simp

lemma slots_apart:
  assumes "0 < sz"
  shows "b \<in> set (slots n sz a) \<Longrightarrow> c \<in> set (slots n sz a) \<Longrightarrow> b \<noteq> c \<Longrightarrow>
    b + sz \<le> c \<or> c + sz \<le> b"
proof (induction n arbitrary: a)
  case (Suc n)
  then show ?case using slots_range [of _ n sz "a + sz"] by auto
qed simp

lemma distinct_slots: "0 < sz \<Longrightarrow> distinct (slots n sz a)"
proof (induction n arbitrary: a)
  case (Suc n)
  then show ?case using slots_range [of a n sz "a + sz"] by auto
qed simp

lemma link_slots_chain:
  assumes "0 < sz"
  shows "link_slots n sz a m = (l, m') \<Longrightarrow> chain (m'(l := None)) (Some a) (slots (Suc n) sz a)"
proof (induction n arbitrary: a m)
  case (Suc n)
  then have link: "link_slots n sz (a + sz) (m(a := Some (a + sz))) = (l, m')" by simp
  have keep: "link_slots n sz b m0 = (l0, m1) \<Longrightarrow> a < b \<Longrightarrow> m1 a = m0 a \<and> a < l0" for b m0 l0 m1
    by (induction n arbitrary: b m0) (use assms in auto)
  from keep [OF link] assms have "m' a = Some (a + sz)" "a \<noteq> l" by auto
  with Suc.IH [OF link] show ?case by simp
qed auto

section \<open>Invariant\<close>

text \<open>
  With \<open>live\<close> the addresses handed out and not yet deleted: the free list holds the other slots,
  without repetition; no two slots overlap; the counters count.
\<close>

definition apart :: "nat \<Rightarrow> nat set \<Rightarrow> bool" where
  "apart sz A \<longleftrightarrow> (\<forall>a \<in> A. \<forall>b \<in> A. a \<noteq> b \<longrightarrow> a + sz \<le> b \<or> b + sz \<le> a)"

definition pool_free :: "nat \<Rightarrow> nat set \<Rightarrow> pool \<Rightarrow> nat list \<Rightarrow> bool" where
  "pool_free sz live p fl \<longleftrightarrow>
     chain (mem p) (mFreeList p) fl \<and> distinct fl \<and> set fl \<inter> live = {} \<and> finite live \<and>
     apart sz (live \<union> set fl) \<and>
     mCurrentUseCount p = int (card live) \<and> mTotalAllocCount p = int (card live + length fl)"

definition pool_ok :: "nat \<Rightarrow> nat set \<Rightarrow> pool \<Rightarrow> bool" where
  "pool_ok sz live p \<longleftrightarrow> (\<exists>fl. pool_free sz live p fl)"

text \<open>A new block does not overlap a live object.\<close>

definition block_fresh :: "nat \<Rightarrow> nat \<Rightarrow> nat set \<Rightarrow> nat \<Rightarrow> bool" where
  "block_fresh sz ALLOC_COUNT live base \<longleftrightarrow>
     (\<forall>a \<in> live. a + sz \<le> base \<or> base + ALLOC_COUNT * sz \<le> a)"

lemma pool_ok_init: "pool_ok sz {} ObjectPool"
  unfolding pool_ok_def by (rule exI [of _ "[]"]) (simp add: pool_free_def ObjectPool_def apart_def)

lemma apart_insert_subset: "apart sz A \<Longrightarrow> B \<subseteq> A \<Longrightarrow> apart sz B"
  by (auto simp: apart_def)

lemma apart_Un:
  assumes "apart sz A" and "apart sz B" and "\<And>a b. a \<in> A \<Longrightarrow> b \<in> B \<Longrightarrow> a + sz \<le> b \<or> b + sz \<le> a"
  shows "apart sz (A \<union> B)"
  unfolding apart_def
proof (intro ballI impI)
  fix a b assume "a \<in> A \<union> B" "b \<in> A \<union> B" "a \<noteq> b"
  then consider "a \<in> A" "b \<in> A" | "a \<in> B" "b \<in> B" | "a \<in> A" "b \<in> B" | "a \<in> B" "b \<in> A" by blast
  then show "a + sz \<le> b \<or> b + sz \<le> a"
    using assms(1,2) assms(3) [of a b] assms(3) [of b a] \<open>a \<noteq> b\<close> by cases (auto simp: apart_def)
qed

text \<open>Taking the first slot of a non-empty free list.\<close>

lemma take_slot:
  assumes "pool_free sz live p (a # fl)"
  shows "pool_free sz (insert a live)
    (p\<lparr>mFreeList := mem p a, mCurrentUseCount := mCurrentUseCount p + 1\<rparr>) fl"
  using assms by (auto simp: pool_free_def)

lemma new_block:
  assumes free: "pool_free sz live p []" and "0 < sz" and "0 < n"
    and fresh: "block_fresh sz n live base"
    and link: "link_slots (n - 1) sz base (mem p) = (l, m)"
  shows "pool_free sz live
    (p\<lparr>mFreeList := Some base, mem := m(l := None), mTotalAllocCount := mTotalAllocCount p + int n\<rparr>)
    (slots n sz base)"
proof -
  from \<open>0 < n\<close> have n: "Suc (n - 1) = n" by simp
  have range: "base \<le> b \<and> b + sz \<le> base + n * sz" if "b \<in> set (slots n sz base)" for b
    using that by (rule slots_range)
  from link_slots_chain [OF \<open>0 < sz\<close> link] n
  have "chain (m(l := None)) (Some base) (slots n sz base)" by simp
  moreover have beside: "a + sz \<le> b \<or> b + sz \<le> a" if "a \<in> live" "b \<in> set (slots n sz base)" for a b
    using that(1) range [OF that(2)] fresh by (auto simp: block_fresh_def)
  moreover have "set (slots n sz base) \<inter> live = {}"
    using beside \<open>0 < sz\<close> by fastforce
  moreover have "apart sz (live \<union> set (slots n sz base))"
  proof (rule apart_Un)
    show "apart sz live" using free by (simp add: pool_free_def)
    show "apart sz (set (slots n sz base))"
      using slots_apart [OF \<open>0 < sz\<close>, of _ n base] by (auto simp: apart_def)
  qed (use beside in blast)
  ultimately show ?thesis
    using free distinct_slots [OF \<open>0 < sz\<close>] by (simp add: pool_free_def)
qed

lemma operator_new_ok:
  assumes ok: "pool_ok sz live p" and "0 < sz" and "0 < n"
    and fresh: "block_fresh sz n live base"
  shows "\<exists>a p'. operator_new sz n base p = Inr (a, p') \<and> a \<notin> live \<and> pool_ok sz (insert a live) p'"
proof -
  from ok obtain fl where fl: "pool_free sz live p fl" by (auto simp: pool_ok_def)
  obtain q a fl' where q: "pool_free sz live q (a # fl')"
    and eq: "operator_new sz n base p =
      Inr (a, q\<lparr>mFreeList := mem q a, mCurrentUseCount := mCurrentUseCount q + 1\<rparr>)"
  proof (cases fl)
    case Nil
    obtain l m where link: "link_slots (n - 1) sz base (mem p) = (l, m)" by fastforce
    let ?q = "p\<lparr>mFreeList := Some base, mem := m(l := None),
      mTotalAllocCount := mTotalAllocCount p + int n\<rparr>"
    from fl Nil have none: "mFreeList p = None" by (simp add: pool_free_def)
    from new_block [OF _ assms(2,3) fresh link] fl Nil
    have "pool_free sz live ?q (slots n sz base)" by simp
    moreover from \<open>0 < n\<close> obtain k where "n = Suc k" by (cases n) auto
    ultimately have "pool_free sz live ?q (base # slots k sz (base + sz))" by simp
    moreover have "operator_new sz n base p =
      Inr (base, ?q\<lparr>mFreeList := mem ?q base, mCurrentUseCount := mCurrentUseCount ?q + 1\<rparr>)"
      using none link by (simp add: operator_new_def Let_def)
    ultimately show ?thesis by (rule that)
  next
    case (Cons a fl')
    with fl have "mFreeList p = Some a" by (simp add: pool_free_def)
    then have "operator_new sz n base p =
      Inr (a, p\<lparr>mFreeList := mem p a, mCurrentUseCount := mCurrentUseCount p + 1\<rparr>)"
      by (simp add: operator_new_def Let_def)
    with fl Cons show ?thesis by (intro that [of p a fl']) simp_all
  qed
  from q have "a \<notin> live" by (auto simp: pool_free_def)
  with take_slot [OF q] eq show ?thesis by (auto simp: pool_ok_def)
qed

lemma operator_delete_ok:
  assumes "pool_ok sz live p" and "a \<in> live"
  shows "\<exists>p'. operator_delete a p = Inr p' \<and> pool_ok sz (live - {a}) p'"
proof -
  from assms(1) obtain fl where fl: "pool_free sz live p fl" by (auto simp: pool_ok_def)
  let ?p = "p\<lparr>mCurrentUseCount := mCurrentUseCount p - 1,
            mem := (mem p)(a := mFreeList p), mFreeList := Some a\<rparr>"
  from fl assms(2) have pos: "0 < card live" by (auto simp: pool_free_def card_gt_0_iff)
  moreover have "a \<notin> set fl" using fl assms(2) by (auto simp: pool_free_def)
  ultimately have "pool_free sz (live - {a}) ?p (a # fl)"
    using fl assms(2)
    by (auto simp: pool_free_def card_Diff_singleton insert_absorb of_nat_diff Suc_leI
        intro: apart_insert_subset)
  moreover have "operator_delete a p = Inr ?p"
    using fl pos by (simp add: operator_delete_def pool_free_def)
  ultimately show ?thesis by (auto simp: pool_ok_def)
qed

lemma pool_ok_apart: "pool_ok sz live p \<Longrightarrow> apart sz live"
  by (auto simp: pool_ok_def pool_free_def intro: apart_insert_subset)

lemma pool_ok_counts:
  assumes "pool_ok sz live p"
  shows "mCurrentUseCount p = int (card live)" and "mCurrentUseCount p \<le> mTotalAllocCount p"
    and "finite live"
  using assms by (auto simp: pool_ok_def pool_free_def)

text \<open>A slot that has just been deleted is the next one handed out, without a new block.\<close>

lemma delete_then_new:
  assumes "operator_delete a p = Inr p'"
  shows "\<exists>p''. operator_new sz n base p' = Inr (a, p'') \<and> mFreeList p'' = mFreeList p \<and>
    mTotalAllocCount p'' = mTotalAllocCount p \<and> mCurrentUseCount p'' = mCurrentUseCount p"
  using assms by (auto simp: operator_delete_def operator_new_def rbind_eq_Inr Let_def)

section \<open>The interface: an allocator of objects\<close>

locale object_allocator =
  fixes ok :: "nat set \<Rightarrow> 'p \<Rightarrow> bool"
    and fresh :: "nat set \<Rightarrow> 'b \<Rightarrow> bool"
    and new :: "'b \<Rightarrow> 'p \<Rightarrow> (nat \<times> 'p) res"
    and delete :: "nat \<Rightarrow> 'p \<Rightarrow> 'p res"
  assumes new_law: "ok live p \<Longrightarrow> fresh live b \<Longrightarrow>
      \<exists>a p'. new b p = Inr (a, p') \<and> a \<notin> live \<and> ok (insert a live) p'"
    and delete_law: "ok live p \<Longrightarrow> a \<in> live \<Longrightarrow> \<exists>p'. delete a p = Inr p' \<and> ok (live - {a}) p'"
begin

lemma new_result:
  "ok live p \<Longrightarrow> fresh live b \<Longrightarrow> new b p = Inr (a, p') \<Longrightarrow> a \<notin> live \<and> ok (insert a live) p'"
  using new_law [of live p b] by auto

lemma new_no_fault: "ok live p \<Longrightarrow> fresh live b \<Longrightarrow> new b p \<noteq> Inl e"
  using new_law [of live p b] by auto

lemma delete_result: "ok live p \<Longrightarrow> a \<in> live \<Longrightarrow> delete a p = Inr p' \<Longrightarrow> ok (live - {a}) p'"
  using delete_law [of live p a] by auto

lemma delete_no_fault: "ok live p \<Longrightarrow> a \<in> live \<Longrightarrow> delete a p \<noteq> Inl e"
  using delete_law [of live p a] by auto

text \<open>An object made after another one is live never has its address.\<close>

lemma new_twice_distinct:
  assumes "ok live p" "fresh live b" "new b p = Inr (a, p')"
    and "fresh (insert a live) c" "new c p' = Inr (a', p'')"
  shows "a \<noteq> a'"
  using new_result [OF assms(1-3)] new_result [OF _ assms(4,5)] by auto

end

text \<open>The pool of a class: objects of \<open>sz > 0\<close> bytes in blocks of \<open>n > 0\<close>.\<close>

interpretation objpool: object_allocator "pool_ok (Suc sz)" "block_fresh (Suc sz) (Suc n)"
    "operator_new (Suc sz) (Suc n)" operator_delete for sz n :: nat
  by unfold_locales (auto intro: operator_new_ok operator_delete_ok)

section \<open>Every history of a pool\<close>

inductive pool_history :: "nat \<Rightarrow> nat \<Rightarrow> nat set \<Rightarrow> pool \<Rightarrow> bool" for sz n where
  start: "pool_history sz n {} ObjectPool"
| new: "pool_history sz n live p \<Longrightarrow> block_fresh sz n live base \<Longrightarrow>
    operator_new sz n base p = Inr (a, p') \<Longrightarrow> pool_history sz n (insert a live) p'"
| delete: "pool_history sz n live p \<Longrightarrow> a \<in> live \<Longrightarrow> operator_delete a p = Inr p' \<Longrightarrow>
    pool_history sz n (live - {a}) p'"

lemma pool_history_ok:
  assumes "0 < sz" and "0 < n" and "pool_history sz n live p"
  shows "pool_ok sz live p"
  using assms(3)
proof (induction rule: pool_history.induct)
  case start
  show ?case by (rule pool_ok_init)
next
  case (new live p base a p')
  from assms(1,2) obtain sz' n' where [simp]: "sz = Suc sz'" "n = Suc n'" by (cases sz; cases n) auto
  from new show ?case using objpool.new_result by fastforce
next
  case (delete live p a p')
  from assms(1) obtain sz' where [simp]: "sz = Suc sz'" by (cases sz) auto
  from delete show ?case using objpool.delete_result by fastforce
qed


lemma pool_history_example:
  "\<exists>p. pool_history 8 10 {100, 108} p \<and> mFreeList p = Some 116 \<and> mTotalAllocCount p = 10"
proof -
  obtain p1 where 1: "operator_new 8 10 100 ObjectPool = Inr (100, p1)" "mFreeList p1 = Some 108"
    "mem p1 108 = Some 116" "mTotalAllocCount p1 = 10"
    by (simp add: operator_new_def ObjectPool_def numeral_eq_Suc Let_def)
  then obtain p2 where 2: "operator_new 8 10 0 p1 = Inr (108, p2)" "mFreeList p2 = Some 116"
    "mTotalAllocCount p2 = 10"
    by (simp add: operator_new_def Let_def)
  have "pool_history 8 10 {100} p1"
    using pool_history.new [OF pool_history.start _ 1(1)] by (simp add: block_fresh_def)
  then have "pool_history 8 10 (insert 108 {100}) p2"
    by (rule pool_history.new [OF _ _ 2(1)]) (simp add: block_fresh_def)
  with 2 show ?thesis by (auto simp: insert_commute)
qed


end
