(* ===== verification/Task_Scheduler.thy ===== *)
theory Task_Scheduler
  imports EGS_Prelude "HOL-Library.Multiset"
begin

text \<open>
  The timer queue of \<open>EasyServer/EasyServer/Scheduler.h\<close> and \<open>Scheduler.cpp\<close>. The class is a record
  that the server's state extends, so that a task can be any operation of the server; running a
  task, and counting the references to its owner, are arguments here.
\<close>

section \<open>Jobs and their order\<close>

record 'task JobElement =
  mOwner :: nat
  mTask :: 'task
  mExecutionTick :: int

definition JobComparator :: "'task JobElement \<Rightarrow> 'task JobElement \<Rightarrow> bool" where
  "JobComparator lhs rhs \<longleftrightarrow> mExecutionTick lhs > mExecutionTick rhs"

text \<open>
  \<open>std::priority_queue\<close> with this comparator: the top is an element no other one precedes. The
  elements are kept in due order, a new one behind those due at the same time.
\<close>

fun pq_push :: "'task JobElement \<Rightarrow> 'task JobElement list \<Rightarrow> 'task JobElement list" where
  "pq_push x [] = [x]"
| "pq_push x (y # q) = (if JobComparator y x then x # y # q else y # pq_push x q)"

abbreviation pq_sorted :: "'task JobElement list \<Rightarrow> bool" where
  "pq_sorted q \<equiv> sorted (map mExecutionTick q)"

lemma mset_pq_push [simp]: "mset (pq_push x q) = add_mset x (mset q)"
  by (induction q) auto

lemma set_pq_push [simp]: "set (pq_push x q) = insert x (set q)"
  by (induction q) auto

lemma pq_push_not_Nil [simp]: "pq_push x q \<noteq> []"
  by (cases q) auto

lemma pq_sorted_push [intro]: "pq_sorted q \<Longrightarrow> pq_sorted (pq_push x q)"
  by (induction q) (auto simp: JobComparator_def)

lemma pq_push_later:
  "q \<noteq> [] \<Longrightarrow> mExecutionTick (hd q) \<le> mExecutionTick x \<Longrightarrow> hd (pq_push x q) = hd q"
  by (cases q) (auto simp: JobComparator_def)

section \<open>The interface: a priority queue\<close>

locale priority_queue =
  fixes ok :: "'q \<Rightarrow> bool"
    and elems :: "'q \<Rightarrow> 'e multiset"
    and key :: "'e \<Rightarrow> int"
    and push :: "'e \<Rightarrow> 'q \<Rightarrow> 'q"
    and top :: "'q \<Rightarrow> 'e"
    and pop :: "'q \<Rightarrow> 'q"
  assumes push_law: "ok q \<Longrightarrow> ok (push x q) \<and> elems (push x q) = add_mset x (elems q)"
    and top_law: "ok q \<Longrightarrow> elems q \<noteq> {#} \<Longrightarrow> top q \<in># elems q \<and> (\<forall>e \<in># elems q. key (top q) \<le> key e)"
    and pop_law: "ok q \<Longrightarrow> elems q \<noteq> {#} \<Longrightarrow> ok (pop q) \<and> elems (pop q) = elems q - {#top q#}"
    and push_later: "ok q \<Longrightarrow> elems q \<noteq> {#} \<Longrightarrow> key (top q) \<le> key x \<Longrightarrow> top (push x q) = top q"
begin

text \<open>
  The pattern of \<open>DoTasks\<close>: look at the top, let elements that are not earlier be added, and pop.
  What is popped is what was looked at.
\<close>

lemma push_all_law:
  assumes "ok q" and "elems q \<noteq> {#}" and "\<forall>x \<in> set xs. key (top q) \<le> key x"
  shows "ok (fold push xs q) \<and> elems (fold push xs q) = elems q + mset xs \<and> top (fold push xs q) = top q"
  using assms
proof (induction xs arbitrary: q)
  case (Cons x xs)
  then have x: "ok (push x q)" "elems (push x q) = add_mset x (elems q)" "top (push x q) = top q"
    using push_law push_later by auto
  with Cons.IH [of "push x q"] Cons.prems show ?case by simp
qed simp

lemma top_pushed_then_popped:
  assumes "ok q" and "elems q \<noteq> {#}" and "\<forall>x \<in> set xs. key (top q) \<le> key x"
  shows "elems (pop (fold push xs q)) = elems q - {#top q#} + mset xs"
  using push_all_law [OF assms] pop_law [of "fold push xs q"] assms(2) top_law [OF assms(1,2)]
  by simp

end

interpretation taskq: priority_queue pq_sorted mset mExecutionTick pq_push hd tl
proof unfold_locales
  fix q :: "'a JobElement list" and x
  assume ok: "pq_sorted q"
  show "pq_sorted (pq_push x q) \<and> mset (pq_push x q) = add_mset x (mset q)" using ok by auto
  show "hd q \<in># mset q \<and> (\<forall>e\<in>#mset q. mExecutionTick (hd q) \<le> mExecutionTick e)" if "mset q \<noteq> {#}"
    using ok that by (cases q) auto
  show "pq_sorted (tl q) \<and> mset (tl q) = mset q - {#hd q#}" if "mset q \<noteq> {#}"
    using ok that by (cases q) auto
  show "hd (pq_push x q) = hd q" if "mset q \<noteq> {#}" "mExecutionTick (hd q) \<le> mExecutionTick x"
    using that by (intro pq_push_later) auto
qed

section \<open>The scheduler\<close>

record 'task scheduler =
  mTaskQueue :: "'task JobElement list"
  mCurrentTick :: dword

text \<open>
  \<open>PushTask\<close>: \<open>after\<close> and \<open>mCurrentTick\<close> are 32 bits wide and so is their sum, which is widened to
  the 64-bit due time only afterwards.
\<close>

definition PushTask ::
    "(nat \<Rightarrow> ('task, 'a) scheduler_scheme \<Rightarrow> ('task, 'a) scheduler_scheme res) \<Rightarrow>
     nat \<Rightarrow> 'task \<Rightarrow> dword \<Rightarrow> ('task, 'a) scheduler_scheme \<Rightarrow> ('task, 'a) scheduler_scheme res" where
  "PushTask IncRefCount owner task after s =
     (let dueTimeTick = uint (after + mCurrentTick s)
      in rbind (IncRefCount owner s) (\<lambda>s.
         Inr (s\<lparr>mTaskQueue := pq_push \<lparr>mOwner = owner, mTask = task, mExecutionTick = dueTimeTick\<rparr>
                                (mTaskQueue s)\<rparr>)))"

text \<open>
  The loop of \<open>DoTasks\<close>: \<open>None\<close> when it does not return. The job that is run is a copy of the top;
  what is popped afterwards is whatever is at the top then.
\<close>

partial_function (option) DoTasks_loop ::
    "('task \<Rightarrow> ('task, 'a) scheduler_scheme \<Rightarrow> ('task, 'a) scheduler_scheme res) \<Rightarrow>
     (nat \<Rightarrow> ('task, 'a) scheduler_scheme \<Rightarrow> ('task, 'a) scheduler_scheme res) \<Rightarrow>
     ('task, 'a) scheduler_scheme \<Rightarrow> ('task, 'a) scheduler_scheme res option" where
  "DoTasks_loop run DecRefCount s =
     (if mTaskQueue s = [] then Some (Inr s)
      else let timerJobElem = hd (mTaskQueue s)
        in if uint (mCurrentTick s) < mExecutionTick timerJobElem then Some (Inr s)
           else case rbind (run (mTask timerJobElem) s) (DecRefCount (mOwner timerJobElem)) of
               Inl e \<Rightarrow> Some (Inl e)
             | Inr s' \<Rightarrow>
                 if mTaskQueue s' = [] then Some (Inl OutOfBounds)
                 else DoTasks_loop run DecRefCount (s'\<lparr>mTaskQueue := tl (mTaskQueue s')\<rparr>))"

definition DoTasks ::
    "('task \<Rightarrow> ('task, 'a) scheduler_scheme \<Rightarrow> ('task, 'a) scheduler_scheme res) \<Rightarrow>
     (nat \<Rightarrow> ('task, 'a) scheduler_scheme \<Rightarrow> ('task, 'a) scheduler_scheme res) \<Rightarrow>
     dword \<Rightarrow> ('task, 'a) scheduler_scheme \<Rightarrow> ('task, 'a) scheduler_scheme res option" where
  "DoTasks run DecRefCount tick s = DoTasks_loop run DecRefCount (s\<lparr>mCurrentTick := tick\<rparr>)"

text \<open>One turn of the loop, as a rewrite rule for each way it can go.\<close>

lemma DoTasks_loop_stop:
  "mTaskQueue s = [] \<or> uint (mCurrentTick s) < mExecutionTick (hd (mTaskQueue s)) \<Longrightarrow>
     DoTasks_loop run dec s = Some (Inr s)"
  by (subst DoTasks_loop.simps) (auto simp: Let_def)

lemma DoTasks_loop_fault:
  "mTaskQueue s = job # q \<Longrightarrow> mExecutionTick job \<le> uint (mCurrentTick s) \<Longrightarrow>
     rbind (run (mTask job) s) (dec (mOwner job)) = Inl e \<Longrightarrow> DoTasks_loop run dec s = Some (Inl e)"
  by (subst DoTasks_loop.simps) (simp add: Let_def)

lemma DoTasks_loop_turn:
  "mTaskQueue s = job # q \<Longrightarrow> mExecutionTick job \<le> uint (mCurrentTick s) \<Longrightarrow>
     rbind (run (mTask job) s) (dec (mOwner job)) = Inr s' \<Longrightarrow> mTaskQueue s' = t # q' \<Longrightarrow>
     DoTasks_loop run dec s = DoTasks_loop run dec (s'\<lparr>mTaskQueue := q'\<rparr>)"
  by (subst DoTasks_loop.simps) (simp add: Let_def)

text \<open>When every turn leads to another one, the loop does not return.\<close>

lemma DoTasks_loop_diverges:
  assumes turn: "\<And>s. good s \<Longrightarrow> \<exists>job q s' t q'. mTaskQueue s = job # q \<and>
      mExecutionTick job \<le> uint (mCurrentTick s) \<and>
      rbind (run (mTask job) s) (dec (mOwner job)) = Inr s' \<and> mTaskQueue s' = t # q' \<and>
      good (s'\<lparr>mTaskQueue := q'\<rparr>)"
    and "good s"
  shows "DoTasks_loop run dec s = None"
proof (rule ccontr)
  assume "DoTasks_loop run dec s \<noteq> None"
  then obtain r where "DoTasks_loop run dec s = Some r" by blast
  then have "run = run \<and> dec = dec \<longrightarrow> \<not> good s"
  proof (rule DoTasks_loop.raw_induct [where P = "\<lambda>r d s _. r = run \<and> d = dec \<longrightarrow> \<not> good s", rotated])
    fix f r d and s :: "('a, 'b) scheduler_scheme" and y
    assume IH: "\<And>r d s y. f r d s = Some y \<Longrightarrow> r = run \<and> d = dec \<longrightarrow> \<not> good s"
      and eq: "(if mTaskQueue s = [] then Some (Inr s)
        else let timerJobElem = hd (mTaskQueue s)
          in if uint (mCurrentTick s) < mExecutionTick timerJobElem then Some (Inr s)
             else case rbind (r (mTask timerJobElem) s) (d (mOwner timerJobElem)) of
                 Inl e \<Rightarrow> Some (Inl e)
               | Inr s' \<Rightarrow>
                   if mTaskQueue s' = [] then Some (Inl OutOfBounds)
                   else f r d (s'\<lparr>mTaskQueue := tl (mTaskQueue s')\<rparr>)) = Some y"
    show "r = run \<and> d = dec \<longrightarrow> \<not> good s"
    proof (intro impI notI, elim conjE)
      assume "good s" "r = run" "d = dec"
      with turn [of s] eq obtain s' where "f r d s' = Some y" "good s'"
        by (fastforce simp: Let_def)
      with IH \<open>r = run\<close> \<open>d = dec\<close> show False by blast
    qed
  qed
  with assms(2) show False by simp
qed

section \<open>The interface: tasks that only ask for later ones\<close>

text \<open>
  What \<open>DoTasks\<close> needs of the tasks: a task that succeeds leaves the tick alone and has only pushed
  jobs that are not due yet; the invariant \<open>good\<close> holds again after the pop.
\<close>

locale task_runner =
  fixes run :: "'task \<Rightarrow> ('task, 'a) scheduler_scheme \<Rightarrow> ('task, 'a) scheduler_scheme res"
    and dec :: "nat \<Rightarrow> ('task, 'a) scheduler_scheme \<Rightarrow> ('task, 'a) scheduler_scheme res"
    and good :: "('task, 'a) scheduler_scheme \<Rightarrow> bool"
  assumes sorted_law: "good s \<Longrightarrow> pq_sorted (mTaskQueue s)"
    and run_law: "good s \<Longrightarrow> mTaskQueue s = job # q \<Longrightarrow> mExecutionTick job \<le> uint (mCurrentTick s) \<Longrightarrow>
      rbind (run (mTask job) s) (dec (mOwner job)) = Inr s' \<Longrightarrow>
      mCurrentTick s' = mCurrentTick s \<and>
      (\<exists>new. mTaskQueue s' = fold pq_push new (job # q) \<and>
         (\<forall>j \<in> set new. uint (mCurrentTick s) < mExecutionTick j)) \<and>
      good (s'\<lparr>mTaskQueue := tl (mTaskQueue s')\<rparr>)"
begin

definition due :: "('task, 'a) scheduler_scheme \<Rightarrow> 'task JobElement \<Rightarrow> bool" where
  "due s job \<longleftrightarrow> mExecutionTick job \<le> uint (mCurrentTick s)"

lemma fold_push_Cons:
  "\<forall>j \<in> set new. mExecutionTick job \<le> mExecutionTick j \<Longrightarrow>
     fold pq_push new (job # q) = job # fold pq_push new q"
  by (induction new arbitrary: q) (auto simp: JobComparator_def)

lemma mset_fold_push: "mset (fold pq_push new q) = mset q + mset new"
  by (induction new arbitrary: q) auto

lemma DoTasks_loop_terminates:
  assumes "good s"
  shows "\<exists>r. DoTasks_loop run dec s = Some r \<and>
    (\<forall>s'. r = Inr s' \<longrightarrow> good s' \<and> mCurrentTick s' = mCurrentTick s \<and>
      (\<forall>j \<in> set (mTaskQueue s'). uint (mCurrentTick s) < mExecutionTick j) \<and>
      filter_mset (\<lambda>j. \<not> due s j) (mset (mTaskQueue s)) \<subseteq># mset (mTaskQueue s'))"
  using assms
proof (induction "length (filter (due s) (mTaskQueue s))" arbitrary: s rule: less_induct)
  case less
  show ?case
  proof (cases "mTaskQueue s = [] \<or> uint (mCurrentTick s) < mExecutionTick (hd (mTaskQueue s))")
    case True
    then have "\<forall>j \<in> set (mTaskQueue s). uint (mCurrentTick s) < mExecutionTick j"
      using sorted_law [OF less.prems] by (cases "mTaskQueue s") auto
    with True less.prems show ?thesis by (auto simp: DoTasks_loop_stop)
  next
    case False
    then obtain job q where q: "mTaskQueue s = job # q"
      and due: "mExecutionTick job \<le> uint (mCurrentTick s)"
      by (cases "mTaskQueue s") auto
    show ?thesis
    proof (cases "rbind (run (mTask job) s) (dec (mOwner job))")
      case (Inl e)
      with q due show ?thesis by (auto simp: DoTasks_loop_fault)
    next
      case (Inr s1)
      from run_law [OF less.prems q due Inr] obtain new where
        tick: "mCurrentTick s1 = mCurrentTick s" and
        queue: "mTaskQueue s1 = fold pq_push new (job # q)" and
        later: "\<forall>j \<in> set new. uint (mCurrentTick s) < mExecutionTick j" and
        good: "good (s1\<lparr>mTaskQueue := tl (mTaskQueue s1)\<rparr>)" by blast
      have "\<forall>j \<in> set new. mExecutionTick job \<le> mExecutionTick j" using later due by fastforce
      with queue have queue: "mTaskQueue s1 = job # fold pq_push new q" by (simp add: fold_push_Cons)
      let ?s = "s1\<lparr>mTaskQueue := fold pq_push new q\<rparr>"
      have loop: "DoTasks_loop run dec s = DoTasks_loop run dec ?s"
        by (rule DoTasks_loop_turn [where t = job]) (use q due Inr queue in auto)
      have "filter_mset (due s) (mset (fold pq_push new q)) = filter_mset (due s) (mset q)"
        using later by (auto simp: mset_fold_push due_def)
      then have "length (filter (due s) (fold pq_push new q)) = length (filter (due s) q)"
        by (metis mset_filter size_mset)
      moreover have same: "due ?s = due s" using tick by (auto simp: fun_eq_iff due_def)
      ultimately have "length (filter (due ?s) (mTaskQueue ?s)) < length (filter (due s) (mTaskQueue s))"
        using q due same by (simp add: due_def)
      from less.hyps [OF this] good queue obtain r where r: "DoTasks_loop run dec ?s = Some r"
        "\<forall>s'. r = Inr s' \<longrightarrow> good s' \<and> mCurrentTick s' = mCurrentTick s \<and>
          (\<forall>j \<in> set (mTaskQueue s'). uint (mCurrentTick s) < mExecutionTick j) \<and>
          filter_mset (\<lambda>j. \<not> due ?s j) (mset (fold pq_push new q)) \<subseteq># mset (mTaskQueue s')"
        using tick by auto
      have "filter_mset (\<lambda>j. \<not> due s j) (mset (mTaskQueue s))
          \<subseteq># filter_mset (\<lambda>j. \<not> due ?s j) (mset (fold pq_push new q))"
        using q due tick by (simp add: due_def mset_fold_push)
      with r loop show ?thesis by (auto intro: subset_mset.order_trans)
    qed
  qed
qed

end

end
