(* ===== verification/Db_Helper.thy ===== *)
theory Db_Helper
  imports EGS_Prelude
begin

text \<open>
  The database layer: \<open>EasyServer/EasyServer/DbHelper.h\<close>, \<open>DbHelper.cpp\<close>, the statements of
  \<open>SQLStatement.h\<close> and the result codes of \<open>sqlite3.h\<close>. SQLite itself is not part of the
  repository: its functions are the fields of a record that the operations take as an argument.
\<close>

section \<open>The SQLite interface\<close>

datatype sqlite_result =
    SQLITE_OK | SQLITE_ERROR | SQLITE_INTERNAL | SQLITE_PERM | SQLITE_ABORT | SQLITE_BUSY
  | SQLITE_LOCKED | SQLITE_NOMEM | SQLITE_READONLY | SQLITE_INTERRUPT | SQLITE_IOERR
  | SQLITE_CORRUPT | SQLITE_NOTFOUND | SQLITE_FULL | SQLITE_CANTOPEN | SQLITE_PROTOCOL
  | SQLITE_EMPTY | SQLITE_SCHEMA | SQLITE_TOOBIG | SQLITE_CONSTRAINT | SQLITE_MISMATCH
  | SQLITE_MISUSE | SQLITE_NOLFS | SQLITE_AUTH | SQLITE_FORMAT | SQLITE_RANGE | SQLITE_NOTADB
  | SQLITE_NOTICE | SQLITE_WARNING | SQLITE_ROW | SQLITE_DONE

text \<open>
  A C string argument is the memory from the pointer on; \<open>sqlite3_bind_text\<close> gets the bytes its
  length argument selects, and \<open>sqlite3_column_text\<close> gives the memory of a string, or \<open>NULL\<close>.
\<close>

record ('db, 'stmt) sqlite_api =
  sqlite3_open :: "string \<Rightarrow> sqlite_result \<times> 'db option"
  sqlite3_exec :: "'db \<Rightarrow> byte list \<Rightarrow> sqlite_result \<times> 'db"
  sqlite3_prepare_v2 :: "'db \<Rightarrow> string \<Rightarrow> sqlite_result \<times> 'stmt"
  sqlite3_bind_int :: "'stmt \<Rightarrow> nat \<Rightarrow> int32 \<Rightarrow> sqlite_result \<times> 'stmt"
  sqlite3_bind_double :: "'stmt \<Rightarrow> nat \<Rightarrow> float64 \<Rightarrow> sqlite_result \<times> 'stmt"
  sqlite3_bind_text :: "'stmt \<Rightarrow> nat \<Rightarrow> byte list \<Rightarrow> sqlite_result \<times> 'stmt"
  sqlite3_step :: "'db \<Rightarrow> 'stmt \<Rightarrow> sqlite_result \<times> 'db \<times> 'stmt"
  sqlite3_column_count :: "'stmt \<Rightarrow> nat"
  sqlite3_column_int :: "'stmt \<Rightarrow> nat \<Rightarrow> int32"
  sqlite3_column_double :: "'stmt \<Rightarrow> nat \<Rightarrow> float64"
  sqlite3_column_text :: "'stmt \<Rightarrow> nat \<Rightarrow> byte list option"
  sqlite3_finalize :: "'db \<Rightarrow> 'stmt \<Rightarrow> 'db"

section \<open>Statements\<close>

definition SQL_InsertTest :: string where
  "SQL_InsertTest = ''INSERT INTO players VALUES(?, ?, ?, ?, ?, ?)''"

definition SQL_SelectTest :: string where
  "SQL_SelectTest = ''SELECT name, pos_x, pos_y, pos_z FROM players WHERE pid=?''"

definition SQL_UpdateTest :: string where
  "SQL_UpdateTest = ''UPDATE players SET pos_x=?, pos_y=?, pos_z=?, comment=? WHERE pid=?''"

definition SQL_DeleteTest :: string where
  "SQL_DeleteTest = ''DELETE FROM players WHERE pid=?''"

text \<open>The placeholders of a statement.\<close>

definition placeholders :: "string \<Rightarrow> nat" where
  "placeholders sql = length (filter (\<lambda>c. c = CHR ''?'') sql)"

section \<open>The helper object\<close>

datatype RESULT_TYPE = RESULT_ERROR | RESULT_ROW | RESULT_DONE

record 'stmt DbHelper =
  mResult :: 'stmt
  mResultColCount :: nat
  mBindColCount :: nat
  mResultCurrentCol :: nat

text \<open>The static part: \<open>mSqlite\<close> is the open connection, if any.\<close>

definition DbHelper_Initialize ::
    "('db, 'stmt) sqlite_api \<Rightarrow> string \<Rightarrow> bool \<times> 'db option" where
  "DbHelper_Initialize api connInfoStr =
     (case sqlite3_open api connInfoStr of (result, mSqlite) \<Rightarrow>
        if mSqlite = None \<or> result \<noteq> SQLITE_OK then (False, mSqlite) else (True, mSqlite))"

text \<open>
  \<open>Execute\<close>: \<open>formatted\<close> is the output of \<open>vsnprintf_s\<close> for the format and its arguments, \<open>None\<close>
  where it returns \<open>-1\<close>.
\<close>

definition DbHelper_Execute ::
    "('db, 'stmt) sqlite_api \<Rightarrow> 'db option \<Rightarrow> (byte list \<Rightarrow> byte list option) \<Rightarrow> byte list option \<Rightarrow>
     bool \<times> 'db option" where
  "DbHelper_Execute api mSqlite vsnprintf_s format =
     (case format of None \<Rightarrow> (False, mSqlite)
      | Some fmt \<Rightarrow>
          (case mSqlite of None \<Rightarrow> (False, mSqlite)
           | Some db \<Rightarrow>
               (case vsnprintf_s fmt of None \<Rightarrow> (False, mSqlite)
                | Some sqlQuery \<Rightarrow>
                    (case sqlite3_exec api db sqlQuery of (rc, db') \<Rightarrow>
                       if rc \<noteq> SQLITE_OK then (False, Some db') else (True, Some db')))))"

definition DbHelper_new :: "('db, 'stmt) sqlite_api \<Rightarrow> 'db \<Rightarrow> string \<Rightarrow> 'stmt DbHelper res" where
  "DbHelper_new api mSqlite sql =
     (case sqlite3_prepare_v2 api mSqlite sql of (rc, stmt) \<Rightarrow>
        rbind (if rc \<noteq> SQLITE_OK then CRASH_ASSERT False else Inr ()) (\<lambda>_.
        Inr \<lparr>mResult = stmt, mResultColCount = 0, mBindColCount = 0, mResultCurrentCol = 0\<rparr>))"

text \<open>The destructor.\<close>

definition DbHelper_delete :: "('db, 'stmt) sqlite_api \<Rightarrow> 'db \<Rightarrow> 'stmt DbHelper \<Rightarrow> 'db" where
  "DbHelper_delete api mSqlite h = sqlite3_finalize api mSqlite (mResult h)"

definition BindParamInt ::
    "('db, 'stmt) sqlite_api \<Rightarrow> 'stmt DbHelper \<Rightarrow> int32 \<Rightarrow> bool \<times> 'stmt DbHelper" where
  "BindParamInt api h param =
     (let h = h\<lparr>mBindColCount := mBindColCount h + 1\<rparr> in
      case sqlite3_bind_int api (mResult h) (mBindColCount h) param of (rc, stmt) \<Rightarrow>
        (rc = SQLITE_OK, h\<lparr>mResult := stmt\<rparr>))"

definition BindParamDouble ::
    "('db, 'stmt) sqlite_api \<Rightarrow> 'stmt DbHelper \<Rightarrow> float64 \<Rightarrow> bool \<times> 'stmt DbHelper" where
  "BindParamDouble api h param =
     (let h = h\<lparr>mBindColCount := mBindColCount h + 1\<rparr> in
      case sqlite3_bind_double api (mResult h) (mBindColCount h) param of (rc, stmt) \<Rightarrow>
        (rc = SQLITE_OK, h\<lparr>mResult := stmt\<rparr>))"

definition BindParamText ::
    "('db, 'stmt) sqlite_api \<Rightarrow> 'stmt DbHelper \<Rightarrow> byte list \<Rightarrow> nat \<Rightarrow> (bool \<times> 'stmt DbHelper) res" where
  "BindParamText api h str count =
     (let h = h\<lparr>mBindColCount := mBindColCount h + 1\<rparr> in
      rbind (strlen str) (\<lambda>k.
      case sqlite3_bind_text api (mResult h) (mBindColCount h) (take k str) of (rc, stmt) \<Rightarrow>
        Inr (rc = SQLITE_OK, h\<lparr>mResult := stmt\<rparr>)))"

definition FetchRow ::
    "('db, 'stmt) sqlite_api \<Rightarrow> 'db \<Rightarrow> 'stmt DbHelper \<Rightarrow> RESULT_TYPE \<times> 'db \<times> 'stmt DbHelper" where
  "FetchRow api mSqlite h =
     (case sqlite3_step api mSqlite (mResult h) of (result, db, stmt) \<Rightarrow>
        let h = h\<lparr>mResult := stmt\<rparr> in
        if result \<noteq> SQLITE_ROW \<and> result \<noteq> SQLITE_DONE then (RESULT_ERROR, db, h)
        else if result = SQLITE_DONE then (RESULT_DONE, db, h)
        else (RESULT_ROW, db, h\<lparr>mResultColCount := sqlite3_column_count api stmt, mResultCurrentCol := 0\<rparr>))"

definition GetResultParamInt ::
    "('db, 'stmt) sqlite_api \<Rightarrow> 'stmt DbHelper \<Rightarrow> (int32 \<times> 'stmt DbHelper) res" where
  "GetResultParamInt api h =
     rbind (CRASH_ASSERT (mResultCurrentCol h < mResultColCount h)) (\<lambda>_.
     Inr (sqlite3_column_int api (mResult h) (mResultCurrentCol h),
          h\<lparr>mResultCurrentCol := mResultCurrentCol h + 1\<rparr>))"

definition GetResultParamDouble ::
    "('db, 'stmt) sqlite_api \<Rightarrow> 'stmt DbHelper \<Rightarrow> (float64 \<times> 'stmt DbHelper) res" where
  "GetResultParamDouble api h =
     rbind (CRASH_ASSERT (mResultCurrentCol h < mResultColCount h)) (\<lambda>_.
     Inr (sqlite3_column_double api (mResult h) (mResultCurrentCol h),
          h\<lparr>mResultCurrentCol := mResultCurrentCol h + 1\<rparr>))"

definition GetResultParamText ::
    "('db, 'stmt) sqlite_api \<Rightarrow> 'stmt DbHelper \<Rightarrow> (byte list option \<times> 'stmt DbHelper) res" where
  "GetResultParamText api h =
     rbind (CRASH_ASSERT (mResultCurrentCol h < mResultColCount h)) (\<lambda>_.
     Inr (sqlite3_column_text api (mResult h) (mResultCurrentCol h),
          h\<lparr>mResultCurrentCol := mResultCurrentCol h + 1\<rparr>))"

lemmas db_helper_defs =
  DbHelper_new_def DbHelper_delete_def BindParamInt_def BindParamDouble_def BindParamText_def FetchRow_def
  GetResultParamInt_def GetResultParamDouble_def GetResultParamText_def

end
