(* ===== verification/Producer_Consumer_Queue.thy ===== *)
theory Producer_Consumer_Queue
  imports EGS_Prelude
begin

text \<open>
  The template \<open>ProducerConsumerQueue\<close> of \<open>EasyServer/EasyServer/ProducerConsumerQueue.h\<close>: a
  bounded ring of \<open>QSize\<close> elements under one lock with two condition variables. First the body of
  the critical sections as functions, refined to a bounded list; then the whole monitor, with its
  lock, its sleeping threads and its wake-ups, as a step relation over any number of threads.
\<close>

section \<open>The ring\<close>

record 'a pcq =
  mQueueArray :: "'a list"
  mOccupiedSize :: nat
  mQueueOffset :: nat

text \<open>The array starts as \<open>QSize\<close> zeroed elements.\<close>

definition ProducerConsumerQueue :: "nat \<Rightarrow> 'a \<Rightarrow> 'a pcq" where
  "ProducerConsumerQueue QSize zero =
     \<lparr>mQueueArray = replicate QSize zero, mOccupiedSize = 0, mQueueOffset = 0\<rparr>"

text \<open>
  The critical section of \<open>Produce\<close> and of \<open>Consume\<close>. A caller that waits goes to sleep when the
  queue is full (empty); one that does not wait gets \<open>False\<close> (no element).
\<close>

definition Produce :: "nat \<Rightarrow> 'a pcq \<Rightarrow> 'a \<Rightarrow> bool \<Rightarrow> (bool \<times> 'a pcq) res" where
  "Produce QSize q item waitUntilConsume =
     (if mOccupiedSize q = QSize
      then if waitUntilConsume then Inl Sleeping else Inr (False, q)
      else Inr (True,
             q\<lparr>mQueueArray :=
                 (mQueueArray q)[sz_add (mQueueOffset q) (mOccupiedSize q) mod QSize := item],
               mOccupiedSize := sz_add (mOccupiedSize q) 1\<rparr>))"

definition Consume :: "nat \<Rightarrow> 'a pcq \<Rightarrow> bool \<Rightarrow> ('a option \<times> 'a pcq) res" where
  "Consume QSize q waitUntilProduce =
     (if mOccupiedSize q = 0
      then if waitUntilProduce then Inl Sleeping else Inr (None, q)
      else if mQueueOffset q < length (mQueueArray q)
      then Inr (Some (mQueueArray q ! mQueueOffset q),
             q\<lparr>mOccupiedSize := sz_sub (mOccupiedSize q) 1,
               mQueueOffset := (if sz_add (mQueueOffset q) 1 = QSize then 0
                                else sz_add (mQueueOffset q) 1)\<rparr>)
      else Inl OutOfBounds)"

definition pcq_ok :: "nat \<Rightarrow> 'a pcq \<Rightarrow> bool" where
  "pcq_ok QSize q \<longleftrightarrow>
     0 < QSize \<and> 2 * QSize < SIZE_MOD \<and> length (mQueueArray q) = QSize \<and>
     mOccupiedSize q \<le> QSize \<and> mQueueOffset q < QSize"

text \<open>The elements, the next to be consumed first.\<close>

definition items :: "nat \<Rightarrow> 'a pcq \<Rightarrow> 'a list" where
  "items QSize q =
     map (\<lambda>i. mQueueArray q ! ((mQueueOffset q + i) mod QSize)) [0..<mOccupiedSize q]"

lemma pcq_ok_init: "0 < QSize \<Longrightarrow> 2 * QSize < SIZE_MOD \<Longrightarrow> pcq_ok QSize (ProducerConsumerQueue QSize z)"
  by (simp add: pcq_ok_def ProducerConsumerQueue_def)

lemma items_init [simp]: "items QSize (ProducerConsumerQueue QSize z) = []"
  by (simp add: items_def ProducerConsumerQueue_def)

lemma length_items: "length (items QSize q) = mOccupiedSize q"
  by (simp add: items_def)

lemma ring_index_inj:
  assumes "i < j" and "j < (n :: nat)"
  shows "(p + i) mod n \<noteq> (p + j) mod n"
proof
  assume "(p + i) mod n = (p + j) mod n"
  then have "n dvd (p + j) - (p + i)"
    using assms by (metis mod_eq_dvd_iff_nat add_le_mono le_refl less_imp_le)
  with assms show False by (auto dest: dvd_imp_le)
qed

lemma Produce_store:
  assumes ok: "pcq_ok QSize q" and room: "length (items QSize q) < QSize"
  shows "\<exists>q'. Produce QSize q x w = Inr (True, q') \<and> pcq_ok QSize q' \<and> items QSize q' = items QSize q @ [x]"
proof -
  let ?n = "mOccupiedSize q" and ?p = "mQueueOffset q"
  let ?q = "q\<lparr>mQueueArray := (mQueueArray q)[(?p + ?n) mod QSize := x], mOccupiedSize := ?n + 1\<rparr>"
  from ok room have n: "?n < QSize" "?p < QSize" "2 * QSize < SIZE_MOD"
    and len: "length (mQueueArray q) = QSize" by (auto simp: pcq_ok_def length_items)
  then have "Produce QSize q x w = Inr (True, ?q)"
    by (simp add: Produce_def)
  moreover have "pcq_ok QSize ?q" using ok n by (simp add: pcq_ok_def)
  moreover have "items QSize ?q = items QSize q @ [x]"
    using n len ring_index_inj [of _ ?n QSize ?p, THEN not_sym] by (auto simp: items_def)
  ultimately show ?thesis by blast
qed

lemma Produce_full:
  "pcq_ok QSize q \<Longrightarrow> length (items QSize q) = QSize \<Longrightarrow>
     Produce QSize q x w = (if w then Inl Sleeping else Inr (False, q))"
  by (simp add: Produce_def length_items)

lemma Consume_take:
  assumes ok: "pcq_ok QSize q" and ne: "items QSize q = x # xs"
  shows "\<exists>q'. Consume QSize q w = Inr (Some x, q') \<and> pcq_ok QSize q' \<and> items QSize q' = xs"
proof -
  let ?n = "mOccupiedSize q" and ?p = "mQueueOffset q"
  let ?q = "q\<lparr>mOccupiedSize := ?n - 1, mQueueOffset := (if ?p + 1 = QSize then 0 else ?p + 1)\<rparr>"
  from ne have n: "?n = Suc (length xs)" by (metis length_items length_Cons)
  from ok n have p: "?p < QSize" "2 * QSize < SIZE_MOD" "?n \<le> QSize" "length (mQueueArray q) = QSize"
    by (auto simp: pcq_ok_def)
  have off: "(mQueueOffset ?q + i) mod QSize = (?p + Suc i) mod QSize" for i
  proof (cases "?p + 1 = QSize")
    case True
    then have "?p + Suc i = QSize + i" by simp
    then have "(?p + Suc i) mod QSize = i mod QSize" by (simp only: mod_add_self1)
    with True show ?thesis by (simp del: add_Suc_right)
  qed simp
  have "[0..<?n] = 0 # map Suc [0..<?n - 1]"
    by (simp only: n upt_conv_Cons [OF zero_less_Suc] map_Suc_upt diff_Suc_1)
  then have "items QSize q = mQueueArray q ! (?p mod QSize)
      # map (\<lambda>i. mQueueArray q ! ((?p + Suc i) mod QSize)) [0..<?n - 1]"
    by (simp add: items_def)
  also have "\<dots> = mQueueArray q ! ?p # items QSize ?q"
    unfolding items_def off [symmetric] using p(1) by simp
  finally have "x # xs = mQueueArray q ! ?p # items QSize ?q"
    using ne by simp
  then have "x = mQueueArray q ! ?p" and "xs = items QSize ?q" by simp_all
  moreover have "Consume QSize q w = Inr (Some (mQueueArray q ! ?p), ?q)"
    using n p by (simp add: Consume_def)
  moreover have "pcq_ok QSize ?q" using ok n by (auto simp: pcq_ok_def)
  ultimately show ?thesis by blast
qed

lemma Consume_empty:
  "items QSize q = [] \<Longrightarrow> Consume QSize q w = (if w then Inl Sleeping else Inr (None, q))"
  by (metis Consume_def length_items list.size(3))

section \<open>The interface: a bounded queue\<close>

locale bounded_queue =
  fixes ok :: "'q \<Rightarrow> bool"
    and elems :: "'q \<Rightarrow> 'a list"
    and limit :: nat
    and put :: "'q \<Rightarrow> 'a \<Rightarrow> bool \<Rightarrow> (bool \<times> 'q) res"
    and get :: "'q \<Rightarrow> bool \<Rightarrow> ('a option \<times> 'q) res"
  assumes put_law: "ok q \<Longrightarrow> length (elems q) < limit \<Longrightarrow>
      \<exists>q'. put q x w = Inr (True, q') \<and> ok q' \<and> elems q' = elems q @ [x]"
    and put_full: "ok q \<Longrightarrow> length (elems q) = limit \<Longrightarrow>
      put q x w = (if w then Inl Sleeping else Inr (False, q))"
    and get_law: "ok q \<Longrightarrow> elems q = x # xs \<Longrightarrow>
      \<exists>q'. get q w = Inr (Some x, q') \<and> ok q' \<and> elems q' = xs"
    and get_empty: "ok q \<Longrightarrow> elems q = [] \<Longrightarrow> get q w = (if w then Inl Sleeping else Inr (None, q))"
    and within_limit: "ok q \<Longrightarrow> length (elems q) \<le> limit"
begin

lemma put_cases:
  assumes "ok q"
  obtains (stored) q' where "length (elems q) < limit" "put q x w = Inr (True, q')" "ok q'"
      "elems q' = elems q @ [x]"
  | (full) "length (elems q) = limit" "put q x w = (if w then Inl Sleeping else Inr (False, q))"
  using put_law [OF assms, of x w] put_full [OF assms, of x w] within_limit [OF assms]
  by (cases "length (elems q) = limit") auto

lemma get_cases:
  assumes "ok q"
  obtains (taken) x q' where "elems q = x # elems q'" "get q w = Inr (Some x, q')" "ok q'"
  | (empty) "elems q = []" "get q w = (if w then Inl Sleeping else Inr (None, q))"
  using get_law [OF assms] get_empty [OF assms, of w]
  by (cases "elems q") auto

lemma put_stored:
  "ok q \<Longrightarrow> put q x w = Inr (True, q') \<Longrightarrow>
     ok q' \<and> elems q' = elems q @ [x] \<and> length (elems q) < limit"
  by (erule put_cases [of q x w]) (auto split: if_splits)

lemma put_refused:
  "ok q \<Longrightarrow> put q x w = Inr (False, q') \<Longrightarrow> q' = q \<and> length (elems q) = limit \<and> \<not> w"
  by (erule put_cases [of q x w]) (auto split: if_splits)

lemma put_sleeps: "ok q \<Longrightarrow> put q x w = Inl e \<longleftrightarrow> e = Sleeping \<and> w \<and> length (elems q) = limit"
  by (erule put_cases [of q x w]) auto

lemma get_taken: "ok q \<Longrightarrow> get q w = Inr (Some x, q') \<Longrightarrow> ok q' \<and> elems q = x # elems q'"
  by (erule get_cases [of q w]) (auto split: if_splits)

lemma get_none: "ok q \<Longrightarrow> get q w = Inr (None, q') \<Longrightarrow> q' = q \<and> elems q = [] \<and> \<not> w"
  by (erule get_cases [of q w]) (auto split: if_splits)

lemma get_sleeps: "ok q \<Longrightarrow> get q w = Inl e \<longleftrightarrow> e = Sleeping \<and> w \<and> elems q = []"
  by (erule get_cases [of q w]) auto

lemma get_nonblocking: "ok q \<Longrightarrow> get q False \<noteq> Inl e"
  by (simp add: get_sleeps)

end

interpretation pcq: bounded_queue "pcq_ok QSize" "items QSize" QSize "Produce QSize" "Consume QSize"
  for QSize :: nat
proof unfold_locales
  fix q :: "'a pcq"
  assume ok: "pcq_ok QSize q"
  show "\<exists>q'. Produce QSize q x w = Inr (True, q') \<and> pcq_ok QSize q' \<and> items QSize q' = items QSize q @ [x]"
    if "length (items QSize q) < QSize" for x w using ok that by (rule Produce_store)
  show "\<exists>q'. Consume QSize q w = Inr (Some x, q') \<and> pcq_ok QSize q' \<and> items QSize q' = xs"
    if "items QSize q = x # xs" for x xs w using ok that by (rule Consume_take)
  show "length (items QSize q) \<le> QSize" using ok by (simp add: pcq_ok_def length_items)
qed (auto simp: Produce_full Consume_empty)

section \<open>The monitor\<close>

text \<open>
  A thread is outside the queue, waits for the lock, holds it, sleeps on a condition variable,
  has been woken and waits for the lock again, or has left the critical section after a successful
  operation and is about to call \<open>WakeConditionVariable\<close>.
\<close>

datatype 'a request = Put 'a bool | Get bool

datatype 'a pc =
    Outside
  | Acquiring "'a request"
  | Holding "'a request"
  | Asleep "'a request"
  | Woken "'a request"
  | Signalling "'a request"

fun is_put :: "'a request \<Rightarrow> bool" where
  "is_put (Put x w) = True"
| "is_put (Get w) = False"

record 'a monitor =
  queue :: "'a pcq"
  mSRWLock :: "nat option"
  threads :: "'a pc list"
  produced :: "'a list"
  consumed :: "'a list"

definition monitor_init :: "nat \<Rightarrow> 'a \<Rightarrow> nat \<Rightarrow> 'a monitor" where
  "monitor_init QSize zero n =
     \<lparr>queue = ProducerConsumerQueue QSize zero, mSRWLock = None, threads = replicate n Outside,
      produced = [], consumed = []\<rparr>"

text \<open>
  One atomic action of a thread. \<open>mNotEmpty\<close> is waited on by the sleeping \<open>Consume\<close> calls and
  \<open>mNotFull\<close> by the sleeping \<open>Produce\<close> calls; \<open>WakeConditionVariable\<close> wakes one of them, if any;
  a sleeper may also wake up by itself. \<open>produced\<close> and \<open>consumed\<close> record the history.
\<close>

inductive mon_step :: "nat \<Rightarrow> 'a monitor \<Rightarrow> 'a monitor \<Rightarrow> bool" for QSize :: nat where
  call: "t < length (threads m) \<Longrightarrow> threads m ! t = Outside \<Longrightarrow>
    mon_step QSize m (m\<lparr>threads := (threads m)[t := Acquiring r]\<rparr>)"
| acquire: "t < length (threads m) \<Longrightarrow> threads m ! t \<in> {Acquiring r, Woken r} \<Longrightarrow> mSRWLock m = None \<Longrightarrow>
    mon_step QSize m (m\<lparr>threads := (threads m)[t := Holding r], mSRWLock := Some t\<rparr>)"
| put_store: "t < length (threads m) \<Longrightarrow> threads m ! t = Holding (Put x w) \<Longrightarrow>
    Produce QSize (queue m) x w = Inr (True, q) \<Longrightarrow>
    mon_step QSize m (m\<lparr>threads := (threads m)[t := Signalling (Put x w)], mSRWLock := None,
                        queue := q, produced := produced m @ [x]\<rparr>)"
| put_refuse: "t < length (threads m) \<Longrightarrow> threads m ! t = Holding (Put x w) \<Longrightarrow>
    Produce QSize (queue m) x w = Inr (False, q) \<Longrightarrow>
    mon_step QSize m (m\<lparr>threads := (threads m)[t := Outside], mSRWLock := None, queue := q\<rparr>)"
| put_sleep: "t < length (threads m) \<Longrightarrow> threads m ! t = Holding (Put x w) \<Longrightarrow>
    Produce QSize (queue m) x w = Inl Sleeping \<Longrightarrow>
    mon_step QSize m (m\<lparr>threads := (threads m)[t := Asleep (Put x w)], mSRWLock := None\<rparr>)"
| get_take: "t < length (threads m) \<Longrightarrow> threads m ! t = Holding (Get w) \<Longrightarrow>
    Consume QSize (queue m) w = Inr (Some x, q) \<Longrightarrow>
    mon_step QSize m (m\<lparr>threads := (threads m)[t := Signalling (Get w)], mSRWLock := None,
                        queue := q, consumed := consumed m @ [x]\<rparr>)"
| get_none: "t < length (threads m) \<Longrightarrow> threads m ! t = Holding (Get w) \<Longrightarrow>
    Consume QSize (queue m) w = Inr (None, q) \<Longrightarrow>
    mon_step QSize m (m\<lparr>threads := (threads m)[t := Outside], mSRWLock := None, queue := q\<rparr>)"
| get_sleep: "t < length (threads m) \<Longrightarrow> threads m ! t = Holding (Get w) \<Longrightarrow>
    Consume QSize (queue m) w = Inl Sleeping \<Longrightarrow>
    mon_step QSize m (m\<lparr>threads := (threads m)[t := Asleep (Get w)], mSRWLock := None\<rparr>)"
| signal_one: "t < length (threads m) \<Longrightarrow> threads m ! t = Signalling r \<Longrightarrow>
    s < length (threads m) \<Longrightarrow> threads m ! s = Asleep r' \<Longrightarrow> is_put r' \<noteq> is_put r \<Longrightarrow>
    mon_step QSize m (m\<lparr>threads := (threads m)[t := Outside, s := Woken r']\<rparr>)"
| signal_none: "t < length (threads m) \<Longrightarrow> threads m ! t = Signalling r \<Longrightarrow>
    \<forall>r'. is_put r' \<noteq> is_put r \<longrightarrow> Asleep r' \<notin> set (threads m) \<Longrightarrow>
    mon_step QSize m (m\<lparr>threads := (threads m)[t := Outside]\<rparr>)"
| spurious: "t < length (threads m) \<Longrightarrow> threads m ! t = Asleep r \<Longrightarrow>
    mon_step QSize m (m\<lparr>threads := (threads m)[t := Woken r]\<rparr>)"

inductive mon_reachable :: "nat \<Rightarrow> 'a \<Rightarrow> nat \<Rightarrow> 'a monitor \<Rightarrow> bool" for QSize zero n where
  start: "mon_reachable QSize zero n (monitor_init QSize zero n)"
| step: "mon_reachable QSize zero n m \<Longrightarrow> mon_step QSize m m' \<Longrightarrow> mon_reachable QSize zero n m'"

subsection \<open>Counting threads\<close>

definition cnt :: "('p \<Rightarrow> bool) \<Rightarrow> 'p list \<Rightarrow> nat" where
  "cnt P xs = length (filter P xs)"

lemma cnt_update:
  "i < length xs \<Longrightarrow> cnt P (xs[i := v]) + of_bool (P (xs ! i)) = cnt P xs + of_bool (P v)"
  unfolding cnt_def
proof (induction xs arbitrary: i)
  case (Cons x xs)
  then show ?case by (cases i) auto
qed simp

lemma cnt_pos: "0 < cnt P xs \<longleftrightarrow> (\<exists>x \<in> set xs. P x)"
  by (simp add: cnt_def filter_empty_conv)

fun asleep_on :: "bool \<Rightarrow> 'a pc \<Rightarrow> bool" where
  "asleep_on b (Asleep r) = (is_put r = b)"
| "asleep_on b _ = False"

text \<open>A thread that will look at the queue for a sleeper of kind \<open>b\<close>, or wake one.\<close>

fun serves :: "bool \<Rightarrow> 'a pc \<Rightarrow> bool" where
  "serves b (Signalling r) = (is_put r \<noteq> b)"
| "serves b (Woken r) = (is_put r = b)"
| "serves b (Holding r) = (is_put r = b)"
| "serves b _ = False"

definition lock_ok :: "'a pc list \<Rightarrow> nat option \<Rightarrow> bool" where
  "lock_ok ts l \<longleftrightarrow>
     (\<forall>t < length ts. \<forall>r. ts ! t = Holding r \<longrightarrow> l = Some t) \<and>
     (\<forall>t. l = Some t \<longrightarrow> t < length ts \<and> (\<exists>r. ts ! t = Holding r))"

lemma lock_ok_unique:
  "lock_ok ts l \<Longrightarrow> s < length ts \<Longrightarrow> t < length ts \<Longrightarrow> ts ! s = Holding r \<Longrightarrow> ts ! t = Holding r' \<Longrightarrow>
     s = t"
  unfolding lock_ok_def by (metis option.inject)

abbreviation lock_inv :: "'a monitor \<Rightarrow> bool" where
  "lock_inv m \<equiv> lock_ok (threads m) (mSRWLock m)"

lemma lock_ok_take: "lock_ok ts None \<Longrightarrow> t < length ts \<Longrightarrow> lock_ok (ts[t := Holding r]) (Some t)"
  by (auto simp: lock_ok_def nth_list_update)

lemma lock_ok_release:
  "lock_ok ts l \<Longrightarrow> t < length ts \<Longrightarrow> ts ! t = Holding r \<Longrightarrow> \<forall>r. p \<noteq> Holding r \<Longrightarrow> lock_ok (ts[t := p]) None"
  unfolding lock_ok_def nth_list_update length_list_update by (metis option.inject option.distinct(1))

lemma lock_ok_move:
  "lock_ok ts l \<Longrightarrow> t < length ts \<Longrightarrow> \<forall>r. ts ! t \<noteq> Holding r \<Longrightarrow> \<forall>r. p \<noteq> Holding r \<Longrightarrow>
     lock_ok (ts[t := p]) l"
  unfolding lock_ok_def length_list_update by (metis nth_list_update)

definition queue_inv :: "nat \<Rightarrow> 'a monitor \<Rightarrow> bool" where
  "queue_inv QSize m \<longleftrightarrow>
     pcq_ok QSize (queue m) \<and> produced m = consumed m @ items QSize (queue m)"

definition wake_inv :: "nat \<Rightarrow> 'a monitor \<Rightarrow> bool" where
  "wake_inv QSize m \<longleftrightarrow>
     (0 < cnt (asleep_on False) (threads m) \<longrightarrow>
        length (items QSize (queue m)) \<le> cnt (serves False) (threads m)) \<and>
     (0 < cnt (asleep_on True) (threads m) \<longrightarrow>
        QSize \<le> length (items QSize (queue m)) + cnt (serves True) (threads m))"

lemma mon_step_lock_inv: "mon_step QSize m m' \<Longrightarrow> lock_inv m \<Longrightarrow> lock_inv m'"
proof (induction rule: mon_step.induct)
  case (acquire t m r)
  then show ?case by (simp add: lock_ok_take)
next
  case (signal_one t m r s r')
  then have "lock_ok ((threads m)[t := Outside]) (mSRWLock m)" and "t \<noteq> s"
    by (auto intro: lock_ok_move)
  with signal_one show ?case by (auto intro: lock_ok_move)
qed (auto intro: lock_ok_move lock_ok_release)

lemma mon_step_queue_inv: "mon_step QSize m m' \<Longrightarrow> queue_inv QSize m \<Longrightarrow> queue_inv QSize m'"
  by (induction rule: mon_step.induct)
    (auto simp: queue_inv_def dest: pcq.put_stored pcq.put_refused pcq.get_taken pcq.get_none)


lemma counts_update:
  assumes "t < length ts"
  shows "cnt (asleep_on False) (ts[t := v]) + of_bool (asleep_on False (ts ! t))
      = cnt (asleep_on False) ts + of_bool (asleep_on False v)"
    and "cnt (asleep_on True) (ts[t := v]) + of_bool (asleep_on True (ts ! t))
      = cnt (asleep_on True) ts + of_bool (asleep_on True v)"
    and "cnt (serves False) (ts[t := v]) + of_bool (serves False (ts ! t))
      = cnt (serves False) ts + of_bool (serves False v)"
    and "cnt (serves True) (ts[t := v]) + of_bool (serves True (ts ! t))
      = cnt (serves True) ts + of_bool (serves True v)"
  using assms by (simp_all only: cnt_update)

text \<open>What the outcome of a critical section says of the number of elements.\<close>

lemma outcome_items:
  assumes "queue_inv QSize m"
  shows "Produce QSize (queue m) x w = Inr (True, q) \<Longrightarrow> length (items QSize q) = length (items QSize (queue m)) + 1"
    and "Produce QSize (queue m) x w = Inr (False, q) \<Longrightarrow> q = queue m"
    and "Produce QSize (queue m) x w = Inl Sleeping \<Longrightarrow> length (items QSize (queue m)) = QSize"
    and "Consume QSize (queue m) w = Inr (Some y, q) \<Longrightarrow> length (items QSize (queue m)) = length (items QSize q) + 1"
    and "Consume QSize (queue m) w = Inr (None, q) \<Longrightarrow> q = queue m"
    and "Consume QSize (queue m) w = Inl Sleeping \<Longrightarrow> length (items QSize (queue m)) = 0"
    and "Produce QSize (queue m) x w = Inr (False, q) \<Longrightarrow> length (items QSize (queue m)) = QSize"
    and "Consume QSize (queue m) w = Inr (None, q) \<Longrightarrow> length (items QSize (queue m)) = 0"
  using assms
  by (auto simp: queue_inv_def pcq.put_sleeps pcq.get_sleeps
      dest: pcq.put_stored pcq.put_refused pcq.get_taken pcq.get_none)

lemma mon_step_wake_inv:
  "mon_step QSize m m' \<Longrightarrow> queue_inv QSize m \<Longrightarrow> wake_inv QSize m \<Longrightarrow> wake_inv QSize m'"
proof (induction rule: mon_step.induct)
  case (call t m r)
  with counts_update [OF call(1), of "Acquiring r"] show ?case by (auto simp: wake_inv_def)
next
  case (acquire t m r)
  with counts_update [OF acquire(1), of "Holding r"] show ?case by (cases "is_put r") (auto simp: wake_inv_def)
next
  case (put_store t m x w q)
  with counts_update [OF put_store(1), of "Signalling (Put x w)"] outcome_items(1) [OF put_store.prems(1) put_store(3)]
  show ?case by (auto simp: wake_inv_def)
next
  case (put_refuse t m x w q)
  with counts_update [OF put_refuse(1), of Outside] outcome_items(2,7) [OF put_refuse.prems(1) put_refuse(3)]
  show ?case by (auto simp: wake_inv_def)
next
  case (put_sleep t m x w)
  with counts_update [OF put_sleep(1), of "Asleep (Put x w)"] outcome_items(3) [OF put_sleep.prems(1) put_sleep(3)]
  show ?case by (auto simp: wake_inv_def)
next
  case (get_take t m w x q)
  with counts_update [OF get_take(1), of "Signalling (Get w)"] outcome_items(4) [OF get_take.prems(1) get_take(3)]
  show ?case by (auto simp: wake_inv_def)
next
  case (get_none t m w q)
  with counts_update [OF get_none(1), of Outside] outcome_items(5,8) [OF get_none.prems(1) get_none(3)]
  show ?case by (auto simp: wake_inv_def)
next
  case (get_sleep t m w)
  with counts_update [OF get_sleep(1), of "Asleep (Get w)"] outcome_items(6) [OF get_sleep.prems(1) get_sleep(3)]
  show ?case by (auto simp: wake_inv_def)
next
  case (signal_one t m r s r')
  then have "s < length ((threads m)[t := Outside])" and "(threads m)[t := Outside] ! s = Asleep r'"
    by (auto simp: nth_list_update)
  with signal_one counts_update [OF signal_one(1), of Outside] counts_update [of s "(threads m)[t := Outside]" "Woken r'"]
  show ?case by (cases "is_put r") (auto simp: wake_inv_def)
next
  case (signal_none t m r)
  then have "cnt (asleep_on (\<not> is_put r)) (threads m) = 0"
    by (auto simp: cnt_def filter_empty_conv elim!: asleep_on.elims)
  with signal_none counts_update [OF signal_none(1), of Outside]
  show ?case by (cases "is_put r") (auto simp: wake_inv_def)
next
  case (spurious t m r)
  with counts_update [OF spurious(1), of "Woken r"] show ?case by (cases "is_put r") (auto simp: wake_inv_def)
qed

lemma mon_reachable_inv:
  assumes "0 < QSize" and "2 * QSize < SIZE_MOD" and "mon_reachable QSize zero n m"
  shows "lock_inv m \<and> queue_inv QSize m \<and> wake_inv QSize m"
  using assms(3)
proof (induction rule: mon_reachable.induct)
  case start
  from assms(1,2) show ?case
    by (auto simp: monitor_init_def lock_ok_def queue_inv_def wake_inv_def pcq_ok_init cnt_def)
next
  case (step m m')
  then show ?case
    using mon_step_lock_inv mon_step_queue_inv mon_step_wake_inv by blast
qed

text \<open>
  C19: Any number of threads calling \<open>Produce\<close> and \<open>Consume\<close> concurrently: at most one thread is
  in a critical section, the elements come out in the order in which they went in, none is lost or
  duplicated, and never more than \<open>QSize\<close> are stored.
\<close>

theorem monitor_fifo:
  assumes "0 < QSize" and "2 * QSize < SIZE_MOD" and "mon_reachable QSize zero n m"
  shows "produced m = consumed m @ items QSize (queue m) \<and>
    length (items QSize (queue m)) \<le> QSize \<and>
    (\<forall>s < length (threads m). \<forall>t < length (threads m). \<forall>r r'.
       threads m ! s = Holding r \<longrightarrow> threads m ! t = Holding r' \<longrightarrow> s = t)"
  using mon_reachable_inv [OF assms] pcq.within_limit [of QSize "queue m"]
  by (auto simp: queue_inv_def dest: lock_ok_unique)

text \<open>
  C24: No wake-up is lost: when every thread of the monitor is outside or asleep, no \<open>Consume\<close>
  sleeps although there is an element and no \<open>Produce\<close> sleeps although there is room.
\<close>

theorem monitor_no_lost_wakeup:
  assumes "0 < QSize" and "2 * QSize < SIZE_MOD" and "mon_reachable QSize zero n m"
    and "\<forall>p \<in> set (threads m). p = Outside \<or> (\<exists>r. p = Asleep r)"
    and "Asleep r \<in> set (threads m)"
  shows "if is_put r then length (items QSize (queue m)) = QSize else items QSize (queue m) = []"
proof -
  from mon_reachable_inv [OF assms(1-3)] have inv: "queue_inv QSize m" "wake_inv QSize m" by auto
  have "cnt (serves b) (threads m) = 0" for b
    using assms(4) by (fastforce simp: cnt_def filter_empty_conv)
  moreover have "0 < cnt (asleep_on (is_put r)) (threads m)"
    using assms(5) by (force simp: cnt_pos)
  ultimately show ?thesis
    using inv by (cases "is_put r") (auto simp: wake_inv_def queue_inv_def pcq_ok_def items_def)
qed

text \<open>The monitor itself is never stuck: a thread that is neither outside nor asleep can move, or
  another one holds the lock and can.\<close>

lemma holder_moves:
  assumes "queue_inv QSize m" and "t < length (threads m)" and "threads m ! t = Holding r"
  shows "\<exists>m'. mon_step QSize m m'"
proof (cases r)
  case (Put x w)
  from assms(1) have ok: "pcq_ok QSize (queue m)" by (simp add: queue_inv_def)
  then show ?thesis
    by (rule pcq.put_cases [of _ "queue m" x w])
      (use assms Put in \<open>cases w; auto intro: mon_step.intros\<close>)+
next
  case (Get w)
  from assms(1) have ok: "pcq_ok QSize (queue m)" by (simp add: queue_inv_def)
  then show ?thesis
    by (rule pcq.get_cases [of _ "queue m" w])
      (use assms Get in \<open>cases w; auto intro: mon_step.intros\<close>)+
qed

lemma signaller_moves:
  assumes "t < length (threads m)" and "threads m ! t = Signalling r"
  shows "\<exists>m'. mon_step QSize m m'"
proof (cases "\<exists>r'. is_put r' \<noteq> is_put r \<and> Asleep r' \<in> set (threads m)")
  case True
  then obtain s r' where "is_put r' \<noteq> is_put r" "s < length (threads m)" "threads m ! s = Asleep r'"
    by (metis in_set_conv_nth)
  with assms show ?thesis by (blast intro: mon_step.signal_one)
next
  case False
  with assms show ?thesis by (blast intro: mon_step.signal_none)
qed

text \<open>
  The monitor never blocks altogether: as long as some thread is not asleep, some thread can
  take a step; in particular the lock is never left behind by a thread that has gone.
\<close>

theorem monitor_progress:
  assumes "0 < QSize" and "2 * QSize < SIZE_MOD" and "mon_reachable QSize zero n m"
    and "p \<in> set (threads m)" and "\<forall>r. p \<noteq> Asleep r"
  shows "\<exists>m'. mon_step QSize m m'"
proof -
  from mon_reachable_inv [OF assms(1-3)] have inv: "lock_inv m" "queue_inv QSize m" by auto
  from assms(4) obtain t where t: "t < length (threads m)" "threads m ! t = p"
    by (metis in_set_conv_nth)
  show ?thesis
  proof (cases "mSRWLock m")
    case (Some s)
    with inv(1) obtain r where "s < length (threads m)" "threads m ! s = Holding r"
      by (auto simp: lock_ok_def)
    with inv(2) show ?thesis by (rule holder_moves)
  next
    case None
    with t assms(5) inv(2) show ?thesis
      by (cases p) (auto intro: mon_step.call mon_step.acquire holder_moves signaller_moves)
  qed
qed

subsection \<open>Examples\<close>

text \<open>Two runs of two threads, for the witnesses: one element stored, and a \<open>Consume\<close> asleep.\<close>

lemma mon_stepI: "mon_reachable QSize zero n m \<Longrightarrow> mon_step QSize m m'' \<Longrightarrow> m'' = m' \<Longrightarrow> mon_reachable QSize zero n m'"
  by (auto intro: mon_reachable.step)

lemma mon_acquired_example:
  "mon_reachable 2 (0 :: nat) 2
     ((monitor_init 2 0 2)\<lparr>threads := [Holding r, Outside], mSRWLock := Some 0\<rparr>)"
proof (rule mon_stepI)
  show "mon_reachable 2 0 2 ((monitor_init 2 0 2)\<lparr>threads := [Acquiring r, Outside]\<rparr>)"
    by (rule mon_stepI [OF mon_reachable.start mon_step.call [where t = 0 and r = r]])
      (simp_all add: monitor_init_def numeral_2_eq_2)
qed (rule mon_step.acquire [where t = 0 and r = r], simp_all add: monitor_init_def)

lemma mon_stored_example:
  "mon_reachable 2 (0 :: nat) 2
     ((monitor_init 2 0 2)\<lparr>threads := [Signalling (Put 7 True), Outside],
        queue := \<lparr>mQueueArray = [7, 0], mOccupiedSize = 1, mQueueOffset = 0\<rparr>, produced := [7]\<rparr>)"
  by (rule mon_stepI [OF mon_acquired_example mon_step.put_store [where t = 0 and x = 7 and w = True]])
    (simp_all add: monitor_init_def Produce_def ProducerConsumerQueue_def numeral_2_eq_2)

lemma mon_asleep_example:
  "mon_reachable 2 (0 :: nat) 2 ((monitor_init 2 0 2)\<lparr>threads := [Asleep (Get True), Outside]\<rparr>)"
  by (rule mon_stepI [OF mon_acquired_example mon_step.get_sleep [where t = 0 and w = True]])
    (simp_all add: monitor_init_def Consume_def ProducerConsumerQueue_def)

theorem monitor_fifo_witness:
  "\<exists>m. mon_reachable 2 (0 :: nat) 2 m \<and> produced m = [7] \<and> produced m = consumed m @ items 2 (queue m)"
proof -
  let ?m = "(monitor_init 2 0 2)\<lparr>threads := [Signalling (Put 7 True), Outside],
        queue := \<lparr>mQueueArray = [7, 0 :: nat], mOccupiedSize = 1, mQueueOffset = 0\<rparr>, produced := [7]\<rparr>"
  have "produced ?m = consumed ?m @ items 2 (queue ?m)"
    using monitor_fifo [of 2 0 2 ?m] mon_stored_example by simp
  then show ?thesis using mon_stored_example by fastforce
qed

theorem monitor_no_lost_wakeup_witness:
  "\<exists>m. mon_reachable 2 (0 :: nat) 2 m \<and> Asleep (Get True) \<in> set (threads m) \<and> items 2 (queue m) = []"
proof -
  let ?m = "(monitor_init 2 (0 :: nat) 2)\<lparr>threads := [Asleep (Get True), Outside]\<rparr>"
  have "items 2 (queue ?m) = []"
    using monitor_no_lost_wakeup [of 2 0 2 ?m "Get True"] mon_asleep_example by simp
  then show ?thesis using mon_asleep_example by fastforce
qed

theorem monitor_progress_witness:
  "\<exists>m m'. mon_reachable 2 (0 :: nat) 2 m \<and> Signalling (Put 7 True) \<in> set (threads m) \<and> mon_step 2 m m'"
proof -
  let ?m = "(monitor_init 2 0 2)\<lparr>threads := [Signalling (Put 7 True), Outside],
        queue := \<lparr>mQueueArray = [7, 0 :: nat], mOccupiedSize = 1, mQueueOffset = 0\<rparr>, produced := [7]\<rparr>"
  have "\<exists>m'. mon_step 2 ?m m'"
    using monitor_progress [of 2 0 2 ?m "Signalling (Put 7 True)"] mon_stored_example by simp
  then show ?thesis using mon_stored_example by fastforce
qed

end
