(* ===== verification/Db_Jobs.thy ===== *)
theory Db_Jobs
  imports Db_Helper Packet_Type Producer_Consumer_Queue
begin

text \<open>
  The database jobs of \<open>EasyServer/EasyServer/DatabaseJobContext.h\<close> and \<open>.cpp\<close>, and the two
  queues of \<open>DatabaseJobManager\<close>: the client thread pushes jobs and pops results, the database
  thread executes one job after another. The pipeline of the two threads is a step relation.
\<close>

section \<open>The contexts\<close>

record DatabaseJobContext =
  mSockKey :: SOCKET
  mSuccess :: bool

record LoadPlayerDataContext = DatabaseJobContext +
  load_mPlayerId :: int32
  load_mPosX :: float64
  load_mPosY :: float64
  load_mPosZ :: float64
  load_mPlayerName :: "byte list"

record CreatePlayerDataContext = DatabaseJobContext +
  create_mPlayerId :: int32
  create_mPosX :: float64
  create_mPosY :: float64
  create_mPosZ :: float64
  create_mPlayerName :: "byte list"
  create_mComment :: "byte list"

record DeletePlayerDataContext = DatabaseJobContext +
  delete_mPlayerId :: int32

record UpdatePlayerDataContext = DatabaseJobContext +
  update_mPlayerId :: int32
  update_mPosX :: float64
  update_mPosY :: float64
  update_mPosZ :: float64
  update_mComment :: "byte list"

text \<open>The dynamic type of a \<open>DatabaseJobContext\<close> pointer.\<close>

datatype job =
    LoadPlayer LoadPlayerDataContext
  | CreatePlayer CreatePlayerDataContext
  | DeletePlayer DeletePlayerDataContext
  | UpdatePlayer UpdatePlayerDataContext

text \<open>
  The constructors. The default constructor of the base class leaves \<open>mSockKey\<close> uninitialised.
\<close>

definition LoadPlayerDataContext_new :: "SOCKET \<Rightarrow> int32 \<Rightarrow> LoadPlayerDataContext" where
  "LoadPlayerDataContext_new socketKey playerId =
     \<lparr>mSockKey = socketKey, mSuccess = False, load_mPlayerId = playerId,
      load_mPosX = 0, load_mPosY = 0, load_mPosZ = 0, load_mPlayerName = replicate MAX_NAME_LEN 0\<rparr>"

definition CreatePlayerDataContext_new :: "SOCKET \<Rightarrow> CreatePlayerDataContext" where
  "CreatePlayerDataContext_new junk =
     \<lparr>mSockKey = junk, mSuccess = False, create_mPlayerId = -1,
      create_mPosX = 0, create_mPosY = 0, create_mPosZ = 0,
      create_mPlayerName = replicate MAX_NAME_LEN 0, create_mComment = replicate MAX_COMMENT_LEN 0\<rparr>"

definition DeletePlayerDataContext_new :: "SOCKET \<Rightarrow> int32 \<Rightarrow> DeletePlayerDataContext" where
  "DeletePlayerDataContext_new junk playerId =
     \<lparr>mSockKey = junk, mSuccess = False, delete_mPlayerId = playerId\<rparr>"

definition UpdatePlayerDataContext_new :: "SOCKET \<Rightarrow> int32 \<Rightarrow> UpdatePlayerDataContext" where
  "UpdatePlayerDataContext_new socketKey playerId =
     \<lparr>mSockKey = socketKey, mSuccess = False, update_mPlayerId = playerId,
      update_mPosX = 0, update_mPosY = 0, update_mPosZ = 0, update_mComment = replicate MAX_COMMENT_LEN 0\<rparr>"

fun SetSuccess :: "bool \<Rightarrow> job \<Rightarrow> job" where
  "SetSuccess b (LoadPlayer c) = LoadPlayer (c\<lparr>mSuccess := b\<rparr>)"
| "SetSuccess b (CreatePlayer c) = CreatePlayer (c\<lparr>mSuccess := b\<rparr>)"
| "SetSuccess b (DeletePlayer c) = DeletePlayer (c\<lparr>mSuccess := b\<rparr>)"
| "SetSuccess b (UpdatePlayer c) = UpdatePlayer (c\<lparr>mSuccess := b\<rparr>)"

fun job_mSuccess :: "job \<Rightarrow> bool" where
  "job_mSuccess (LoadPlayer c) = mSuccess c"
| "job_mSuccess (CreatePlayer c) = mSuccess c"
| "job_mSuccess (DeletePlayer c) = mSuccess c"
| "job_mSuccess (UpdatePlayer c) = mSuccess c"

fun job_mSockKey :: "job \<Rightarrow> SOCKET" where
  "job_mSockKey (LoadPlayer c) = mSockKey c"
| "job_mSockKey (CreatePlayer c) = mSockKey c"
| "job_mSockKey (DeletePlayer c) = mSockKey c"
| "job_mSockKey (UpdatePlayer c) = mSockKey c"

section \<open>Execution\<close>

text \<open>\<open>OnExecute\<close> of each class: the returned flag, the database and the context afterwards.\<close>

definition LoadPlayer_OnExecute ::
    "('db, 'stmt) sqlite_api \<Rightarrow> 'db \<Rightarrow> LoadPlayerDataContext \<Rightarrow>
     (bool \<times> 'db \<times> LoadPlayerDataContext) res" where
  "LoadPlayer_OnExecute api db c =
     rbind (DbHelper_new api db SQL_SelectTest) (\<lambda>h.
     let (_, h) = BindParamInt api h (load_mPlayerId c) in
     case FetchRow api db h of (fetched, db, h) \<Rightarrow>
       if fetched \<noteq> RESULT_ROW then Inr (False, DbHelper_delete api db h, c)
       else
         rbind (GetResultParamText api h) (\<lambda>(name, h).
         rbind (GetResultParamDouble api h) (\<lambda>(x, h).
         rbind (GetResultParamDouble api h) (\<lambda>(y, h).
         rbind (GetResultParamDouble api h) (\<lambda>(z, h).
         let c = c\<lparr>load_mPosX := x, load_mPosY := y, load_mPosZ := z\<rparr> in
         rbind (case name of
                  None \<Rightarrow> Inl InvalidParameter
                | Some s \<Rightarrow> strcpy_s (load_mPlayerName c) s) (\<lambda>n.
         Inr (True, DbHelper_delete api db h, c\<lparr>load_mPlayerName := n\<rparr>)))))))"

definition CreatePlayer_OnExecute ::
    "('db, 'stmt) sqlite_api \<Rightarrow> 'db \<Rightarrow> CreatePlayerDataContext \<Rightarrow>
     (bool \<times> 'db \<times> CreatePlayerDataContext) res" where
  "CreatePlayer_OnExecute api db c =
     rbind (DbHelper_new api db SQL_InsertTest) (\<lambda>h.
     let (_, h) = BindParamInt api h (create_mPlayerId c) in
     rbind (strlen (create_mPlayerName c)) (\<lambda>count.
     rbind (BindParamText api h (create_mPlayerName c) count) (\<lambda>(_, h).
     let (_, h) = BindParamDouble api h (create_mPosX c);
         (_, h) = BindParamDouble api h (create_mPosY c);
         (_, h) = BindParamDouble api h (create_mPosZ c) in
     rbind (strlen (create_mComment c)) (\<lambda>count.
     rbind (BindParamText api h (create_mComment c) count) (\<lambda>(_, h).
     case FetchRow api db h of (fetched, db, h) \<Rightarrow>
       Inr (fetched \<noteq> RESULT_ERROR, DbHelper_delete api db h, c))))))"

definition DeletePlayer_OnExecute ::
    "('db, 'stmt) sqlite_api \<Rightarrow> 'db \<Rightarrow> DeletePlayerDataContext \<Rightarrow>
     (bool \<times> 'db \<times> DeletePlayerDataContext) res" where
  "DeletePlayer_OnExecute api db c =
     rbind (DbHelper_new api db SQL_DeleteTest) (\<lambda>h.
     let (_, h) = BindParamInt api h (delete_mPlayerId c) in
     case FetchRow api db h of (fetched, db, h) \<Rightarrow>
       Inr (fetched \<noteq> RESULT_ERROR, DbHelper_delete api db h, c))"

definition UpdatePlayer_OnExecute ::
    "('db, 'stmt) sqlite_api \<Rightarrow> 'db \<Rightarrow> UpdatePlayerDataContext \<Rightarrow>
     (bool \<times> 'db \<times> UpdatePlayerDataContext) res" where
  "UpdatePlayer_OnExecute api db c =
     rbind (DbHelper_new api db SQL_UpdateTest) (\<lambda>h.
     let (_, h) = BindParamDouble api h (update_mPosX c);
         (_, h) = BindParamDouble api h (update_mPosY c);
         (_, h) = BindParamDouble api h (update_mPosZ c) in
     rbind (strlen (update_mComment c)) (\<lambda>count.
     rbind (BindParamText api h (update_mComment c) count) (\<lambda>(_, h).
     let (_, h) = BindParamInt api h (update_mPlayerId c) in
     case FetchRow api db h of (fetched, db, h) \<Rightarrow>
       Inr (fetched \<noteq> RESULT_ERROR, DbHelper_delete api db h, c))))"

fun OnExecute :: "('db, 'stmt) sqlite_api \<Rightarrow> 'db \<Rightarrow> job \<Rightarrow> (bool \<times> 'db \<times> job) res" where
  "OnExecute api db (LoadPlayer c) =
     rbind (LoadPlayer_OnExecute api db c) (\<lambda>(ok, db, c). Inr (ok, db, LoadPlayer c))"
| "OnExecute api db (CreatePlayer c) =
     rbind (CreatePlayer_OnExecute api db c) (\<lambda>(ok, db, c). Inr (ok, db, CreatePlayer c))"
| "OnExecute api db (DeletePlayer c) =
     rbind (DeletePlayer_OnExecute api db c) (\<lambda>(ok, db, c). Inr (ok, db, DeletePlayer c))"
| "OnExecute api db (UpdatePlayer c) =
     rbind (UpdatePlayer_OnExecute api db c) (\<lambda>(ok, db, c). Inr (ok, db, UpdatePlayer c))"

section \<open>The manager\<close>

definition MAX_DB_JOB :: nat where "MAX_DB_JOB = 127"

record DatabaseJobManager =
  mDbJobRequestQueue :: "job pcq"
  mDbJobResultQueue :: "job pcq"

definition DatabaseJobManager_new :: "job \<Rightarrow> DatabaseJobManager" where
  "DatabaseJobManager_new zero =
     \<lparr>mDbJobRequestQueue = ProducerConsumerQueue MAX_DB_JOB zero,
      mDbJobResultQueue = ProducerConsumerQueue MAX_DB_JOB zero\<rparr>"

definition PushDatabaseJobRequest ::
    "ThreadType \<Rightarrow> DatabaseJobManager \<Rightarrow> job \<Rightarrow> DatabaseJobManager res" where
  "PushDatabaseJobRequest LThreadType m jobContext =
     rbind (C_assert (LThreadType = THREAD_CLIENT)) (\<lambda>_.
     rbind (Produce MAX_DB_JOB (mDbJobRequestQueue m) jobContext True) (\<lambda>(_, q).
     Inr (m\<lparr>mDbJobRequestQueue := q\<rparr>)))"

definition PopDatabaseJobResult ::
    "ThreadType \<Rightarrow> DatabaseJobManager \<Rightarrow> (job option \<times> DatabaseJobManager) res" where
  "PopDatabaseJobResult LThreadType m =
     rbind (C_assert (LThreadType = THREAD_CLIENT)) (\<lambda>_.
     rbind (Consume MAX_DB_JOB (mDbJobResultQueue m) False) (\<lambda>(jobContext, q).
     Inr (jobContext, m\<lparr>mDbJobResultQueue := q\<rparr>)))"

text \<open>
  One turn of the loop of \<open>ExecuteDatabaseJobs\<close> is three actions of the database thread: it takes a
  request, executes it, and delivers the result; between them the client thread may run.
\<close>

datatype worker = Ready | Executing job | Finished job

definition ExecuteDatabaseJobs_step ::
    "('db, 'stmt) sqlite_api \<Rightarrow> 'db \<times> worker \<times> DatabaseJobManager \<Rightarrow>
     ('db \<times> worker \<times> DatabaseJobManager) res" where
  "ExecuteDatabaseJobs_step api = (\<lambda>(db, w, m).
     case w of
       Ready \<Rightarrow>
         rbind (Consume MAX_DB_JOB (mDbJobRequestQueue m) True) (\<lambda>(jobContext, q).
         rbind (deref jobContext) (\<lambda>jobContext.
         Inr (db, Executing jobContext, m\<lparr>mDbJobRequestQueue := q\<rparr>)))
     | Executing jobContext \<Rightarrow>
         rbind (OnExecute api db jobContext) (\<lambda>(ok, db, jobContext).
         Inr (db, Finished (SetSuccess ok jobContext), m))
     | Finished jobContext \<Rightarrow>
         rbind (Produce MAX_DB_JOB (mDbJobResultQueue m) jobContext True) (\<lambda>(_, q).
         Inr (db, Ready, m\<lparr>mDbJobResultQueue := q\<rparr>)))"

section \<open>What a job does to the database\<close>

text \<open>The values of a statement, bound to its placeholders from 1 on.\<close>

datatype sql_value = SqlInt int32 | SqlDouble float64 | SqlText "byte list"

fun bind_value :: "('db, 'stmt) sqlite_api \<Rightarrow> 'stmt \<Rightarrow> nat \<Rightarrow> sql_value \<Rightarrow> 'stmt" where
  "bind_value api st i (SqlInt v) = snd (sqlite3_bind_int api st i v)"
| "bind_value api st i (SqlDouble v) = snd (sqlite3_bind_double api st i v)"
| "bind_value api st i (SqlText v) = snd (sqlite3_bind_text api st i v)"

fun bind_values :: "('db, 'stmt) sqlite_api \<Rightarrow> nat \<Rightarrow> sql_value list \<Rightarrow> 'stmt \<Rightarrow> 'stmt" where
  "bind_values api i [] st = st"
| "bind_values api i (v # vs) st = bind_values api (Suc i) vs (bind_value api st i v)"

text \<open>The specification: prepare, bind every value, step once, finalize.\<close>

definition run_statement ::
    "('db, 'stmt) sqlite_api \<Rightarrow> 'db \<Rightarrow> string \<Rightarrow> sql_value list \<Rightarrow> (bool \<times> 'db) res" where
  "run_statement api db sql vs =
     (case sqlite3_prepare_v2 api db sql of (rc, st) \<Rightarrow>
        if rc \<noteq> SQLITE_OK then Inl CrashAsserted
        else case sqlite3_step api db (bind_values api 1 vs st) of (rc, db', st') \<Rightarrow>
          Inr (rc = SQLITE_ROW \<or> rc = SQLITE_DONE, sqlite3_finalize api db' st'))"

lemmas execute_defs =
  CreatePlayer_OnExecute_def DeletePlayer_OnExecute_def UpdatePlayer_OnExecute_def
  LoadPlayer_OnExecute_def db_helper_defs run_statement_def

lemma CreatePlayer_statement:
  assumes "terminated MAX_NAME_LEN (create_mPlayerName c)" and "terminated MAX_COMMENT_LEN (create_mComment c)"
  shows "CreatePlayer_OnExecute api db c =
    rbind (run_statement api db SQL_InsertTest
      [SqlInt (create_mPlayerId c), SqlText (c_string (create_mPlayerName c)),
       SqlDouble (create_mPosX c), SqlDouble (create_mPosY c), SqlDouble (create_mPosZ c),
       SqlText (c_string (create_mComment c))]) (\<lambda>(ok, db'). Inr (ok, db', c))"
  using assms
  by (elim terminated_strnlen)
    (auto simp: execute_defs strlen_ok Let_def numeral_eq_Suc split: prod.splits)

lemma DeletePlayer_statement:
  "DeletePlayer_OnExecute api db c =
    rbind (run_statement api db SQL_DeleteTest [SqlInt (delete_mPlayerId c)]) (\<lambda>(ok, db'). Inr (ok, db', c))"
  by (auto simp: execute_defs Let_def numeral_eq_Suc split: prod.splits)

lemma UpdatePlayer_statement:
  assumes "terminated MAX_COMMENT_LEN (update_mComment c)"
  shows "UpdatePlayer_OnExecute api db c =
    rbind (run_statement api db SQL_UpdateTest
      [SqlDouble (update_mPosX c), SqlDouble (update_mPosY c), SqlDouble (update_mPosZ c),
       SqlText (c_string (update_mComment c)), SqlInt (update_mPlayerId c)]) (\<lambda>(ok, db'). Inr (ok, db', c))"
  using assms
  by (elim terminated_strnlen)
    (auto simp: execute_defs strlen_ok Let_def numeral_eq_Suc split: prod.splits)

lemma placeholders_SQL:
  "placeholders SQL_InsertTest = 6" "placeholders SQL_SelectTest = 1"
  "placeholders SQL_UpdateTest = 5" "placeholders SQL_DeleteTest = 1"
  by (simp_all add: placeholders_def SQL_InsertTest_def SQL_SelectTest_def SQL_UpdateTest_def
      SQL_DeleteTest_def)

text \<open>The row a load finds: its columns, and what becomes of them.\<close>

definition select_row ::
    "('db, 'stmt) sqlite_api \<Rightarrow> 'db \<Rightarrow> int32 \<Rightarrow> (sqlite_result \<times> 'db \<times> 'stmt) res" where
  "select_row api db pid =
     (case sqlite3_prepare_v2 api db SQL_SelectTest of (rc, st) \<Rightarrow>
        if rc \<noteq> SQLITE_OK then Inl CrashAsserted
        else Inr (sqlite3_step api db (bind_values api 1 [SqlInt pid] st)))"

lemma LoadPlayer_no_row:
  assumes "select_row api db (load_mPlayerId c) = Inr (rc, db', st)" and "rc \<noteq> SQLITE_ROW"
  shows "LoadPlayer_OnExecute api db c = Inr (False, sqlite3_finalize api db' st, c)"
  using assms by (auto simp: execute_defs select_row_def Let_def split: prod.splits if_splits)

lemma LoadPlayer_row:
  assumes "select_row api db (load_mPlayerId c) = Inr (SQLITE_ROW, db', st)"
    and "4 \<le> sqlite3_column_count api st"
    and "length (load_mPlayerName c) = MAX_NAME_LEN"
  shows "LoadPlayer_OnExecute api db c =
    (case sqlite3_column_text api st 0 of
       None \<Rightarrow> Inl InvalidParameter
     | Some s \<Rightarrow> rbind (strcpy_s (load_mPlayerName c) s) (\<lambda>n.
         Inr (True, sqlite3_finalize api db' st,
           c\<lparr>load_mPosX := sqlite3_column_double api st 1, load_mPosY := sqlite3_column_double api st 2,
             load_mPosZ := sqlite3_column_double api st 3, load_mPlayerName := n\<rparr>)))"
  using assms
  by (auto simp: execute_defs select_row_def Let_def numeral_eq_Suc split: prod.splits if_splits option.splits)

text \<open>A job keeps what it was asked for.\<close>

fun job_request :: "job \<Rightarrow> nat \<times> SOCKET \<times> int32" where
  "job_request (LoadPlayer c) = (0, mSockKey c, load_mPlayerId c)"
| "job_request (CreatePlayer c) = (1, mSockKey c, create_mPlayerId c)"
| "job_request (DeletePlayer c) = (2, mSockKey c, delete_mPlayerId c)"
| "job_request (UpdatePlayer c) = (3, mSockKey c, update_mPlayerId c)"

text \<open>The strings of a job are terminated inside their arrays.\<close>

fun job_ok :: "job \<Rightarrow> bool" where
  "job_ok (LoadPlayer c) = terminated MAX_NAME_LEN (load_mPlayerName c)"
| "job_ok (CreatePlayer c) =
    (terminated MAX_NAME_LEN (create_mPlayerName c) \<and> terminated MAX_COMMENT_LEN (create_mComment c))"
| "job_ok (DeletePlayer c) = True"
| "job_ok (UpdatePlayer c) = terminated MAX_COMMENT_LEN (update_mComment c)"

lemma job_request_SetSuccess [simp]: "job_request (SetSuccess b j) = job_request j"
  by (cases j) auto

lemma job_ok_SetSuccess [simp]: "job_ok (SetSuccess b j) = job_ok j"
  by (cases j) auto

lemma job_mSuccess_SetSuccess [simp]: "job_mSuccess (SetSuccess b j) = b"
  by (cases j) auto

lemma job_mSockKey_SetSuccess [simp]: "job_mSockKey (SetSuccess b j) = job_mSockKey j"
  by (cases j) auto

lemma LoadPlayer_OnExecute_keeps:
  assumes "LoadPlayer_OnExecute api db c = Inr (ok, db', c')" and "terminated MAX_NAME_LEN (load_mPlayerName c)"
  shows "mSockKey c' = mSockKey c" and "load_mPlayerId c' = load_mPlayerId c"
    and "terminated MAX_NAME_LEN (load_mPlayerName c')"
  using assms strcpy_s_terminated_array [of "load_mPlayerName c"]
  by (auto simp: execute_defs Let_def rbind_eq_Inr terminated_def split: prod.splits if_splits option.splits)

lemma OnExecute_keeps:
  assumes "OnExecute api db j = Inr (ok, db', j')" and "job_ok j"
  shows "job_request j' = job_request j" and "job_ok j'"
  using assms
  by (cases j;
      force simp: rbind_eq_Inr CreatePlayer_statement UpdatePlayer_statement DeletePlayer_statement
        dest: LoadPlayer_OnExecute_keeps)+

end
