(* ===== verification/Server_State.thy ===== *)
theory Server_State
  imports Circular_Buffer Packet_Type Object_Pool Task_Scheduler Db_Jobs
begin

text \<open>
  The state of the server process as its client thread sees it: the sessions
  (\<open>EasyServer/EasyServer/ClientSession.h\<close>), the manager (\<open>ClientManager.h\<close>), the scheduler, the
  database queues, and the network operations the system has not completed yet. Sessions live in a
  heap, a map from addresses: an address that is not in the map is a freed or foreign object, and
  using it is the fault \<open>DanglingPointer\<close>. Console output is not part of the state.
\<close>

section \<open>Configuration\<close>

definition BUFSIZE :: nat where "BUFSIZE = 10240"

definition PLAYER_HEART_BEAT :: dword where "PLAYER_HEART_BEAT = 1000"

definition PLAYER_DB_UPDATE_INTERVAL :: dword where "PLAYER_DB_UPDATE_INTERVAL = 60000"

definition ALLOC_COUNT :: nat where "ALLOC_COUNT = 10"

section \<open>Sessions\<close>

text \<open>
  \<open>mOverlappedSend\<close> and \<open>mOverlappedRecv\<close> are their field \<open>mObject\<close>; a client address is the bytes
  of its \<open>SOCKADDR_IN\<close>.
\<close>

record session =
  mRefCount :: int
  mPosX :: float32
  mPosY :: float32
  mPlayerName :: "byte list"
  mConnected :: bool
  mLogon :: bool
  mSocket :: SOCKET
  mPlayerId :: int32
  mClientAddr :: "byte list"
  mSendBuffer :: circular_buffer
  mRecvBuffer :: circular_buffer
  mOverlappedSend :: "nat option"
  mOverlappedRecv :: "nat option"

definition sizeof_SOCKADDR_IN :: nat where "sizeof_SOCKADDR_IN = 16"

text \<open>The constructor; the two buffers find junk in their memory.\<close>

definition ClientSession_new :: "(nat \<Rightarrow> byte) \<Rightarrow> SOCKET \<Rightarrow> session" where
  "ClientSession_new junk sock =
     \<lparr>mRefCount = 0, mPosX = 0, mPosY = 0, mPlayerName = replicate MAX_NAME_LEN 0,
      mConnected = False, mLogon = False, mSocket = sock, mPlayerId = -1,
      mClientAddr = replicate sizeof_SOCKADDR_IN 0,
      mSendBuffer = CircularBuffer junk BUFSIZE, mRecvBuffer = CircularBuffer junk BUFSIZE,
      mOverlappedSend = None, mOverlappedRecv = None\<rparr>"

section \<open>The environment\<close>

text \<open>
  What the process gets from outside: the results of system calls, numbered from the start of the
  process, the memory of a new block beside the live objects, the bytes found in fresh memory, and
  the conversions between \<open>float\<close> and \<open>double\<close>.
\<close>

datatype wsa_result = WsaOk | WsaIoPending | WsaError

record environment =
  os_setsockopt_fails :: "nat \<Rightarrow> bool"
  os_WSARecv :: "nat \<Rightarrow> wsa_result"
  os_WSASend :: "nat \<Rightarrow> wsa_result"
  os_getpeername :: "nat \<Rightarrow> byte list"
  os_GetTickCount :: "nat \<Rightarrow> dword"
  new_block :: "nat set \<Rightarrow> nat"
  fresh_memory :: "nat \<Rightarrow> byte"
  float_of_double :: "float64 \<Rightarrow> float32"
  double_of_float :: "float32 \<Rightarrow> float64"
  sizeof_ClientSession :: nat

section \<open>The world\<close>

text \<open>The tasks that are scheduled: a member function bound to its session.\<close>

datatype server_task = OnTick_task nat | OnDbUpdate_task nat

text \<open>
  A receive or send that the system has accepted and not completed: the session whose overlapped
  structure it uses, and the region of its buffer.
\<close>

record io_op =
  io_session :: nat
  io_offset :: nat
  io_length :: nat

text \<open>
  \<open>transmitted\<close> records the bytes handed to the network per accepted \<open>WSASend\<close>, and \<open>closed\<close> the sockets
  closed; \<open>calls\<close> counts the system calls.
\<close>

record world = "server_task scheduler" +
  LThreadType :: ThreadType
  sessions :: "nat \<rightharpoonup> session"
  mPool :: pool
  mClientList :: "(SOCKET \<times> nat) list"
  mLastGCTick :: dword
  GDatabaseJobManager :: DatabaseJobManager
  pending_recv :: "io_op list"
  pending_send :: "io_op list"
  transmitted :: "(SOCKET \<times> byte list) list"
  closed :: "SOCKET list"
  calls :: nat

text \<open>The client thread when it has made its scheduler, before the first connection.\<close>

definition world_init :: "environment \<Rightarrow> job \<Rightarrow> world" where
  "world_init env zero =
     \<lparr>mTaskQueue = [], mCurrentTick = os_GetTickCount env 0, LThreadType = THREAD_CLIENT,
      sessions = Map.empty, mPool = ObjectPool, mClientList = [], mLastGCTick = 0,
      GDatabaseJobManager = DatabaseJobManager_new zero, pending_recv = [], pending_send = [],
      transmitted = [], closed = [], calls = 1\<rparr>"

section \<open>Access to sessions\<close>

definition get_session :: "nat \<Rightarrow> world \<Rightarrow> session res" where
  "get_session a w = (case sessions w a of None \<Rightarrow> Inl DanglingPointer | Some s \<Rightarrow> Inr s)"

definition set_session :: "nat \<Rightarrow> session \<Rightarrow> world \<Rightarrow> world" where
  "set_session a s w = w\<lparr>sessions := (sessions w)(a \<mapsto> s)\<rparr>"

definition modify_session :: "nat \<Rightarrow> (session \<Rightarrow> session) \<Rightarrow> world \<Rightarrow> world res" where
  "modify_session a f w = rbind (get_session a w) (\<lambda>s. Inr (set_session a (f s) w))"

definition IsConnected :: "nat \<Rightarrow> world \<Rightarrow> bool res" where
  "IsConnected this w = rbind (get_session this w) (\<lambda>s. Inr (mConnected s))"

definition GetPlayerId :: "nat \<Rightarrow> world \<Rightarrow> int32 res" where
  "GetPlayerId this w = rbind (get_session this w) (\<lambda>s. Inr (mPlayerId s))"

definition GetPlayerName :: "nat \<Rightarrow> world \<Rightarrow> byte list res" where
  "GetPlayerName this w = rbind (get_session this w) (\<lambda>s. Inr (mPlayerName s))"

definition GetSocketKey :: "nat \<Rightarrow> world \<Rightarrow> SOCKET res" where
  "GetSocketKey this w = rbind (get_session this w) (\<lambda>s. Inr (mSocket s))"

definition SetPosition :: "nat \<Rightarrow> float32 \<Rightarrow> float32 \<Rightarrow> world \<Rightarrow> world res" where
  "SetPosition this x y = modify_session this (\<lambda>s. s\<lparr>mPosX := x, mPosY := y\<rparr>)"

text \<open>The reference counter of \<open>RefCountable.h\<close>.\<close>

definition IncRefCount :: "nat \<Rightarrow> world \<Rightarrow> world res" where
  "IncRefCount this = modify_session this (\<lambda>s. s\<lparr>mRefCount := mRefCount s + 1\<rparr>)"

definition DecRefCount :: "nat \<Rightarrow> world \<Rightarrow> world res" where
  "DecRefCount this = modify_session this (\<lambda>s. s\<lparr>mRefCount := mRefCount s - 1\<rparr>)"

definition GetRefCount :: "nat \<Rightarrow> world \<Rightarrow> int res" where
  "GetRefCount this w = rbind (get_session this w) (\<lambda>s. Inr (mRefCount s))"

lemma get_session_simps [res_simps]:
  "sessions w a = Some s \<Longrightarrow> get_session a w = Inr s"
  "sessions w a = None \<Longrightarrow> get_session a w = Inl DanglingPointer"
  by (simp_all add: get_session_def)

lemma modify_session_live [res_simps]:
  "sessions w a = Some s \<Longrightarrow> modify_session a f w = Inr (set_session a (f s) w)"
  by (simp add: modify_session_def get_session_def)

lemma set_session_fields [simp]:
  "sessions (set_session a s w) = (sessions w)(a \<mapsto> s)"
  "mTaskQueue (set_session a s w) = mTaskQueue w" "mCurrentTick (set_session a s w) = mCurrentTick w"
  "LThreadType (set_session a s w) = LThreadType w" "mPool (set_session a s w) = mPool w"
  "mClientList (set_session a s w) = mClientList w" "mLastGCTick (set_session a s w) = mLastGCTick w"
  "GDatabaseJobManager (set_session a s w) = GDatabaseJobManager w"
  "pending_recv (set_session a s w) = pending_recv w" "pending_send (set_session a s w) = pending_send w"
  "transmitted (set_session a s w) = transmitted w" "closed (set_session a s w) = closed w"
  "calls (set_session a s w) = calls w"
  by (simp_all add: set_session_def)

lemma set_session_twice [simp]: "set_session a s (set_session a s' w) = set_session a s w"
  by (simp add: set_session_def)

lemmas access_defs =
  IsConnected_def GetPlayerId_def GetPlayerName_def GetSocketKey_def SetPosition_def
  IncRefCount_def DecRefCount_def GetRefCount_def

text \<open>Setting a flag or a counter of the world commutes with setting a session.\<close>

end
