(* ===== verification/Client_Session.thy ===== *)
theory Client_Session
  imports Server_State
begin

text \<open>
  The operations of \<open>ClientSession\<close> (\<open>EasyServer/EasyServer/ClientSession.cpp\<close>), on the session at the
  address \<open>this\<close>. \<open>ClientManager::BroadcastPacket\<close>, which \<open>Broadcast\<close> calls, is here too. A
  packet argument is the memory from the packet on; its length is read from its header.
\<close>

section \<open>System calls\<close>

definition sys_call :: "world \<Rightarrow> world" where
  "sys_call w = w\<lparr>calls := calls w + 1\<rparr>"

definition setsockopt :: "environment \<Rightarrow> world \<Rightarrow> bool \<times> world" where
  "setsockopt env w = (os_setsockopt_fails env (calls w), sys_call w)"

definition closesocket :: "SOCKET \<Rightarrow> world \<Rightarrow> world" where
  "closesocket sock w = w\<lparr>closed := closed w @ [sock]\<rparr>"

definition WSARecv :: "environment \<Rightarrow> io_op \<Rightarrow> world \<Rightarrow> wsa_result \<times> world" where
  "WSARecv env op w =
     (let rc = os_WSARecv env (calls w) in
      (rc, (sys_call w)\<lparr>pending_recv := pending_recv w @ (if rc = WsaError then [] else [op])\<rparr>))"

text \<open>\<open>WSASend\<close> is given the bytes \<open>data\<close> of the region.\<close>

definition WSASend :: "environment \<Rightarrow> SOCKET \<Rightarrow> io_op \<Rightarrow> byte list \<Rightarrow> world \<Rightarrow> wsa_result \<times> world" where
  "WSASend env sock op data w =
     (let rc = os_WSASend env (calls w) in
      (rc, (sys_call w)\<lparr>pending_send := pending_send w @ (if rc = WsaError then [] else [op]),
             transmitted := transmitted w @ (if rc = WsaError then [] else [(sock, data)])\<rparr>))"

section \<open>Connections\<close>

text \<open>\<open>PostRecv\<close> is true when a receive is under way afterwards.\<close>

definition PostRecv :: "environment \<Rightarrow> nat \<Rightarrow> world \<Rightarrow> (bool \<times> world) res" where
  "PostRecv env this w =
     rbind (get_session this w) (\<lambda>s.
     if \<not> mConnected s then Inr (False, w)
     else
       let (len, rb) = GetFreeSpaceSize (mRecvBuffer s);
           buf = GetBuffer rb;
           w = set_session this (s\<lparr>mRecvBuffer := rb, mOverlappedRecv := Some this\<rparr>) w;
           (rc, w) = WSARecv env \<lparr>io_session = this, io_offset = buf, io_length = len\<rparr> w
       in if rc = WsaError then Inr (False, w)
          else rbind (IncRefCount this w) (\<lambda>w. Inr (True, w)))"

definition OnConnect :: "environment \<Rightarrow> nat \<Rightarrow> byte list \<Rightarrow> world \<Rightarrow> (bool \<times> world) res" where
  "OnConnect env this addr w =
     rbind (modify_session this (\<lambda>s. s\<lparr>mClientAddr := addr\<rparr>) w) (\<lambda>w.
     rbind (modify_session this (\<lambda>s. s\<lparr>mConnected := True\<rparr>) w) (\<lambda>w.
     PostRecv env this w))"

definition Disconnect :: "environment \<Rightarrow> nat \<Rightarrow> world \<Rightarrow> world res" where
  "Disconnect env this w =
     rbind (get_session this w) (\<lambda>s.
     if \<not> mConnected s then Inr w
     else
       let (fails, w) = setsockopt env w
       in if fails then Inr w
          else Inr (set_session this (s\<lparr>mConnected := False\<rparr>) (closesocket (mSocket s) w)))"

section \<open>Sending\<close>

definition SendRequest :: "environment \<Rightarrow> nat \<Rightarrow> byte list \<Rightarrow> world \<Rightarrow> (bool \<times> world) res" where
  "SendRequest env this pkt w =
     rbind (get_session this w) (\<lambda>s.
     if \<not> mConnected s then Inr (False, w)
     else
       rbind (Write (mSendBuffer s) pkt (sz_of_short (mSize (PacketHeader_at pkt)))) (\<lambda>(ok, sb).
       let w = set_session this (s\<lparr>mSendBuffer := sb\<rparr>) w
       in if ok then Inr (True, w)
          else rbind (Disconnect env this w) (\<lambda>w. Inr (False, w))))"

definition SendFlush :: "environment \<Rightarrow> nat \<Rightarrow> world \<Rightarrow> (bool \<times> world) res" where
  "SendFlush env this w =
     rbind (get_session this w) (\<lambda>s.
     if \<not> mConnected s then Inr (False, w)
     else if GetContiguiousBytes (mSendBuffer s) = 0 then Inr (True, w)
     else
       let len = GetContiguiousBytes (mSendBuffer s) in
       rbind (deref (GetBufferStart (mSendBuffer s))) (\<lambda>buf.
       rbind (mem_read (mBuffer (mSendBuffer s)) buf len) (\<lambda>data.
       let w = set_session this (s\<lparr>mOverlappedSend := Some this\<rparr>) w;
           (rc, w) = WSASend env (mSocket s) \<lparr>io_session = this, io_offset = buf, io_length = len\<rparr> data w
       in if rc = WsaError then Inr (False, w)
          else rbind (IncRefCount this w) (\<lambda>w. Inr (True, w)))))"

definition OnWriteComplete :: "nat \<Rightarrow> nat \<Rightarrow> world \<Rightarrow> world res" where
  "OnWriteComplete this len w =
     rbind (get_session this w) (\<lambda>s.
     rbind (Remove (mSendBuffer s) len) (\<lambda>sb.
     Inr (set_session this (s\<lparr>mSendBuffer := sb\<rparr>) w)))"

text \<open>The loop of \<open>BroadcastPacket\<close>, over the rest of the client list.\<close>

fun BroadcastPacket_loop ::
    "environment \<Rightarrow> nat \<Rightarrow> byte list \<Rightarrow> (SOCKET \<times> nat) list \<Rightarrow> world \<Rightarrow> world res" where
  "BroadcastPacket_loop env sender pkt [] w = Inr w"
| "BroadcastPacket_loop env sender pkt ((sock, client) # it) w =
     (if sender = client then BroadcastPacket_loop env sender pkt it w
      else rbind (SendRequest env client pkt w) (\<lambda>(_, w). BroadcastPacket_loop env sender pkt it w))"

definition BroadcastPacket :: "environment \<Rightarrow> nat \<Rightarrow> byte list \<Rightarrow> world \<Rightarrow> world res" where
  "BroadcastPacket env sender pkt w = BroadcastPacket_loop env sender pkt (mClientList w) w"

definition Broadcast :: "environment \<Rightarrow> nat \<Rightarrow> byte list \<Rightarrow> world \<Rightarrow> (bool \<times> world) res" where
  "Broadcast env this pkt w =
     rbind (SendRequest env this pkt w) (\<lambda>(ok, w).
     if \<not> ok then Inr (False, w)
     else
       rbind (IsConnected this w) (\<lambda>connected.
       if \<not> connected then Inr (False, w)
       else rbind (BroadcastPacket env this pkt w) (\<lambda>w. Inr (True, w))))"

section \<open>Timers and database results\<close>

definition CallFuncAfter :: "dword \<Rightarrow> nat \<Rightarrow> server_task \<Rightarrow> world \<Rightarrow> world res" where
  "CallFuncAfter after owner task w = PushTask IncRefCount owner task after w"

definition OnTick :: "nat \<Rightarrow> world \<Rightarrow> world res" where
  "OnTick this w =
     rbind (IsConnected this w) (\<lambda>connected.
     if \<not> connected then Inr w
     else CallFuncAfter PLAYER_HEART_BEAT this (OnTick_task this) w)"

text \<open>A string literal in memory.\<close>

definition c_literal :: "string \<Rightarrow> byte list" where
  "c_literal s = map of_char s @ [0]"

definition PushJob :: "job \<Rightarrow> world \<Rightarrow> world res" where
  "PushJob j w =
     rbind (PushDatabaseJobRequest (LThreadType w) (GDatabaseJobManager w) j) (\<lambda>m.
     Inr (w\<lparr>GDatabaseJobManager := m\<rparr>))"

definition OnDbUpdate :: "environment \<Rightarrow> nat \<Rightarrow> world \<Rightarrow> world res" where
  "OnDbUpdate env this w =
     rbind (get_session this w) (\<lambda>s.
     if \<not> mConnected s then Inr w
     else
       let updatePlayer = UpdatePlayerDataContext_new (mSocket s) (mPlayerId s);
           updatePlayer = updatePlayer\<lparr>update_mPosX := double_of_float env (mPosX s)\<rparr>;
           updatePlayer = updatePlayer\<lparr>update_mPosY := double_of_float env (mPosY s)\<rparr> in
       rbind (strcpy_s (update_mComment updatePlayer) (c_literal ''updated_test'')) (\<lambda>comment.
       rbind (PushJob (UpdatePlayer (updatePlayer\<lparr>update_mComment := comment\<rparr>)) w) (\<lambda>w.
       CallFuncAfter PLAYER_DB_UPDATE_INTERVAL this (OnDbUpdate_task this) w)))"

text \<open>\<open>UpdateDone\<close> only prints the player id.\<close>

definition UpdateDone :: "nat \<Rightarrow> world \<Rightarrow> world res" where
  "UpdateDone this w = rbind (get_session this w) (\<lambda>s. Inr w)"

definition LoginDone ::
    "environment \<Rightarrow> nat \<Rightarrow> int32 \<Rightarrow> float32 \<Rightarrow> float32 \<Rightarrow> byte list \<Rightarrow> world \<Rightarrow> world res" where
  "LoginDone env this pid x y name w =
     (let junk = map (fresh_memory env) [0..<8];
          outPacket = LoginResult_init (word32_at junk 0) (word32_at junk 4) in
      rbind (modify_session this (\<lambda>s. s\<lparr>mPlayerId := pid, mPosX := x, mPosY := y\<rparr>) w) (\<lambda>w.
      let outPacket = outPacket\<lparr>ls_mPlayerId := pid, ls_mPosX := x, ls_mPosY := y\<rparr> in
      rbind (get_session this w) (\<lambda>s.
      rbind (strcpy_s (mPlayerName s) name) (\<lambda>playerName.
      let w = set_session this (s\<lparr>mPlayerName := playerName\<rparr>) w in
      rbind (strcpy_s (ls_mName outPacket) name) (\<lambda>outName.
      let outPacket = outPacket\<lparr>ls_mName := outName\<rparr> in
      rbind (SendRequest env this (LoginResult_bytes outPacket) w) (\<lambda>(_, w).
      rbind (modify_session this (\<lambda>s. s\<lparr>mLogon := True\<rparr>) w) (\<lambda>w.
      rbind (OnTick this w) (\<lambda>w.
      OnDbUpdate env this w))))))))"

definition DatabaseJobDone :: "environment \<Rightarrow> nat \<Rightarrow> job \<Rightarrow> world \<Rightarrow> world res" where
  "DatabaseJobDone env this result w =
     rbind (get_session this w) (\<lambda>s.
     rbind (CRASH_ASSERT (mSocket s = job_mSockKey result)) (\<lambda>_.
     case result of
       LoadPlayer login \<Rightarrow>
         LoginDone env this (load_mPlayerId login) (float_of_double env (load_mPosX login))
           (float_of_double env (load_mPosY login)) (load_mPlayerName login) w
     | UpdatePlayer _ \<Rightarrow> UpdateDone this w
     | _ \<Rightarrow> rbind (CRASH_ASSERT False) (\<lambda>_. Inr w)))"

end
