(* ===== verification/Client_Manager.thy ===== *)
theory Client_Manager
  imports Client_Session
begin

text \<open>
  The class \<open>ClientManager\<close> (\<open>EasyServer/EasyServer/ClientManager.h\<close>, \<open>ClientManager.cpp\<close>): the
  sessions by socket, their garbage collection, the dispatch of database results, the flush of
  the send buffers and the requests for player records.
\<close>

section \<open>Sessions\<close>

definition CreateClient :: "environment \<Rightarrow> SOCKET \<Rightarrow> world \<Rightarrow> (nat \<times> world) res" where
  "CreateClient env sock w =
     rbind (C_assert (LThreadType w = THREAD_CLIENT)) (\<lambda>_.
     rbind (operator_new (sizeof_ClientSession env) ALLOC_COUNT (new_block env (dom (sessions w))) (mPool w))
       (\<lambda>(client, p).
     Inr (client,
       w\<lparr>mPool := p, sessions := (sessions w)(client \<mapsto> ClientSession_new (fresh_memory env) sock),
         mClientList := map_insert sock client (mClientList w)\<rparr>)))"

text \<open>The sessions to be deleted, in list order, and their deletion.\<close>

fun disconnectedSessions :: "(SOCKET \<times> nat) list \<Rightarrow> world \<Rightarrow> nat list res" where
  "disconnectedSessions [] w = Inr []"
| "disconnectedSessions ((sock, client) # it) w =
     rbind (IsConnected client w) (\<lambda>connected.
     rbind (GetRefCount client w) (\<lambda>refs.
     rbind (disconnectedSessions it w) (\<lambda>rest.
     Inr (if \<not> connected \<and> refs = 0 then client # rest else rest))))"

definition delete_session :: "nat \<Rightarrow> world \<Rightarrow> world res" where
  "delete_session client w =
     rbind (GetSocketKey client w) (\<lambda>sock.
     let w = w\<lparr>mClientList := map_erase sock (mClientList w)\<rparr> in
     rbind (operator_delete client (mPool w)) (\<lambda>p.
     Inr (w\<lparr>mPool := p, sessions := (sessions w)(client := None)\<rparr>)))"

fun delete_sessions :: "nat list \<Rightarrow> world \<Rightarrow> world res" where
  "delete_sessions [] w = Inr w"
| "delete_sessions (client # cs) w = rbind (delete_session client w) (delete_sessions cs)"

definition CollectGarbageSessions :: "world \<Rightarrow> world res" where
  "CollectGarbageSessions w =
     rbind (disconnectedSessions (mClientList w) w) (\<lambda>cs. delete_sessions cs w)"

fun FlushClientSend_loop :: "environment \<Rightarrow> (SOCKET \<times> nat) list \<Rightarrow> world \<Rightarrow> world res" where
  "FlushClientSend_loop env [] w = Inr w"
| "FlushClientSend_loop env ((sock, client) # it) w =
     rbind (SendFlush env client w) (\<lambda>(ok, w).
     rbind (if \<not> ok then Disconnect env client w else Inr w) (\<lambda>w.
     FlushClientSend_loop env it w))"

definition FlushClientSend :: "environment \<Rightarrow> world \<Rightarrow> world res" where
  "FlushClientSend env w = FlushClientSend_loop env (mClientList w) w"

section \<open>Database results\<close>

text \<open>The two functions print; the first one prints the name of the player.\<close>

definition CreatePlayerDone :: "CreatePlayerDataContext \<Rightarrow> world \<Rightarrow> world res" where
  "CreatePlayerDone createJob w = rbind (strlen (create_mPlayerName createJob)) (\<lambda>_. Inr w)"

definition DeletePlayerDone :: "DeletePlayerDataContext \<Rightarrow> world \<Rightarrow> world res" where
  "DeletePlayerDone deleteJob w = Inr w"

text \<open>The body of the loop of \<open>DispatchDatabaseJobResults\<close>.\<close>

definition dispatch_result :: "environment \<Rightarrow> job \<Rightarrow> world \<Rightarrow> world res" where
  "dispatch_result env dbResult w =
     (if \<not> job_mSuccess dbResult then Inr w
      else case dbResult of
        CreatePlayer c \<Rightarrow> CreatePlayerDone c w
      | DeletePlayer c \<Rightarrow> DeletePlayerDone c w
      | _ \<Rightarrow>
          (case map_of (mClientList w) (job_mSockKey dbResult) of
             None \<Rightarrow> Inr w
           | Some client \<Rightarrow>
               rbind (IsConnected client w) (\<lambda>connected.
               if connected then DatabaseJobDone env client dbResult w else Inr w)))"

partial_function (option) DispatchDatabaseJobResults :: "environment \<Rightarrow> world \<Rightarrow> world res option" where
  "DispatchDatabaseJobResults env w =
     (case PopDatabaseJobResult (LThreadType w) (GDatabaseJobManager w) of
        Inl e \<Rightarrow> Some (Inl e)
      | Inr (dbResult, m) \<Rightarrow>
          (case dbResult of
             None \<Rightarrow> Some (Inr (w\<lparr>GDatabaseJobManager := m\<rparr>))
           | Some dbResult \<Rightarrow>
               (case dispatch_result env dbResult (w\<lparr>GDatabaseJobManager := m\<rparr>) of
                  Inl e \<Rightarrow> Some (Inl e)
                | Inr w \<Rightarrow> DispatchDatabaseJobResults env w)))"

definition OnPeriodWork :: "environment \<Rightarrow> world \<Rightarrow> world res option" where
  "OnPeriodWork env w =
     (let currTick = os_GetTickCount env (calls w); w = sys_call w in
      then_do (Some (if currTick - mLastGCTick w \<ge> 1000
                     then rbind (CollectGarbageSessions w) (\<lambda>w. Inr (w\<lparr>mLastGCTick := currTick\<rparr>))
                     else Inr w))
        (DispatchDatabaseJobResults env))"

section \<open>Player records\<close>

text \<open>The new context finds \<open>junk\<close> where its constructor does not set \<open>mSockKey\<close>.\<close>

definition CreatePlayer_request ::
    "SOCKET \<Rightarrow> int32 \<Rightarrow> float64 \<Rightarrow> float64 \<Rightarrow> float64 \<Rightarrow> byte list \<Rightarrow> byte list \<Rightarrow> world \<Rightarrow> world res" where
  "CreatePlayer_request junk pid x y z name comment w =
     (let job = (CreatePlayerDataContext_new junk)
            \<lparr>create_mPlayerId := pid, create_mPosX := x, create_mPosY := y, create_mPosZ := z\<rparr> in
      rbind (strcpy_s (create_mPlayerName job) name) (\<lambda>n.
      rbind (strcpy_s (create_mComment job) comment) (\<lambda>c.
      PushJob (CreatePlayer (job\<lparr>create_mPlayerName := n, create_mComment := c\<rparr>)) w)))"

definition DeletePlayer_request :: "SOCKET \<Rightarrow> int32 \<Rightarrow> world \<Rightarrow> world res" where
  "DeletePlayer_request junk pid w = PushJob (DeletePlayer (DeletePlayerDataContext_new junk pid)) w"

end
