(* ===== verification/Packet_Handling.thy ===== *)
theory Packet_Handling
  imports Client_Manager
begin

text \<open>
  \<open>EasyServer/EasyServer/PacketHandling.cpp\<close>: the completion routines of receives and sends, the loop
  \<open>ClientSession::OnRead\<close> that cuts the received bytes into packets, the handler table and the
  handlers.
\<close>

section \<open>Handlers\<close>

text \<open>
  \<open>ParsePacket\<close> reads as many bytes as the constructor of the packet type has put into \<open>mSize\<close>: the
  bytes read, or \<open>None\<close> where it returns \<open>false\<close>.
\<close>

definition ParsePacket :: "nat \<Rightarrow> short \<Rightarrow> world \<Rightarrow> (byte list option \<times> world) res" where
  "ParsePacket this pkt_mSize w =
     rbind (get_session this w) (\<lambda>s.
     rbind (Read (mRecvBuffer s) (sz_of_short pkt_mSize)) (\<lambda>(pkt, rb).
     Inr (pkt, set_session this (s\<lparr>mRecvBuffer := rb\<rparr>) w)))"

definition DefaultHandler :: "environment \<Rightarrow> nat \<Rightarrow> world \<Rightarrow> world res" where
  "DefaultHandler env session w = Disconnect env session w"

definition Handler_PKT_CS_LOGIN :: "environment \<Rightarrow> nat \<Rightarrow> world \<Rightarrow> world res" where
  "Handler_PKT_CS_LOGIN env session w =
     rbind (ParsePacket session (mSize LoginRequest_init) w) (\<lambda>(pkt, w).
     case pkt of None \<Rightarrow> Inr w
     | Some bs \<Rightarrow>
         let inPacket = LoginRequest_at bs in
         rbind (GetSocketKey session w) (\<lambda>key.
         PushJob (LoadPlayer (LoadPlayerDataContext_new key (lr_mPlayerId inPacket))) w))"

definition Handler_PKT_CS_CHAT :: "environment \<Rightarrow> nat \<Rightarrow> world \<Rightarrow> world res" where
  "Handler_PKT_CS_CHAT env session w =
     rbind (ParsePacket session (mSize ChatBroadcastRequest_init) w) (\<lambda>(pkt, w).
     case pkt of None \<Rightarrow> Inr w
     | Some bs \<Rightarrow>
         let inPacket = ChatBroadcastRequest_at bs in
         rbind (GetPlayerId session w) (\<lambda>pid.
         if cr_mPlayerId inPacket \<noteq> pid then Inr w
         else
           let outPacket = ChatBroadcastResult_init\<lparr>cs_mPlayerId := cr_mPlayerId inPacket\<rparr> in
           rbind (GetPlayerName session w) (\<lambda>name.
           rbind (strcpy_s (cs_mName outPacket) name) (\<lambda>outName.
           rbind (strcpy_s (cs_mChat outPacket) (cr_mChat inPacket)) (\<lambda>outChat.
           let outPacket = outPacket\<lparr>cs_mName := outName, cs_mChat := outChat\<rparr> in
           rbind (Broadcast env session (ChatBroadcastResult_bytes outPacket) w) (\<lambda>(ok, w).
           if \<not> ok then Disconnect env session w else Inr w))))))"

definition Handler_PKT_CS_MOVE :: "environment \<Rightarrow> nat \<Rightarrow> world \<Rightarrow> world res" where
  "Handler_PKT_CS_MOVE env session w =
     rbind (ParsePacket session (mSize MoveRequest_init) w) (\<lambda>(pkt, w).
     case pkt of None \<Rightarrow> Inr w
     | Some bs \<Rightarrow>
         let inPacket = MoveRequest_at bs in
         rbind (GetPlayerId session w) (\<lambda>pid.
         if mr_mPlayerId inPacket \<noteq> pid then Inr w
         else
           rbind (SetPosition session (mr_mPosX inPacket) (mr_mPosY inPacket) w) (\<lambda>w.
           let outPacket = MoveBroadcastResult_init
                 \<lparr>ms_mPlayerId := mr_mPlayerId inPacket, ms_mPosX := mr_mPosX inPacket,
                  ms_mPosY := mr_mPosY inPacket\<rparr> in
           rbind (Broadcast env session (MoveBroadcastResult_bytes outPacket) w) (\<lambda>(ok, w).
           if \<not> ok then Disconnect env session w else Inr w))))"

section \<open>The handler table\<close>

datatype HandlerFunc =
    Default_HandlerFunc
  | CS_LOGIN_HandlerFunc
  | CS_CHAT_HandlerFunc
  | CS_MOVE_HandlerFunc

fun call_handler :: "environment \<Rightarrow> HandlerFunc \<Rightarrow> nat \<Rightarrow> world \<Rightarrow> world res" where
  "call_handler env Default_HandlerFunc session w = DefaultHandler env session w"
| "call_handler env CS_LOGIN_HandlerFunc session w = Handler_PKT_CS_LOGIN env session w"
| "call_handler env CS_CHAT_HandlerFunc session w = Handler_PKT_CS_CHAT env session w"
| "call_handler env CS_MOVE_HandlerFunc session w = Handler_PKT_CS_MOVE env session w"

definition InitializeHandlers :: "HandlerFunc list" where
  "InitializeHandlers = replicate (nat (PacketTypes_value PKT_MAX)) Default_HandlerFunc"

definition RegisterHandler :: "PacketTypes \<Rightarrow> HandlerFunc \<Rightarrow> HandlerFunc list \<Rightarrow> HandlerFunc list" where
  "RegisterHandler pktType handler table = table[nat (PacketTypes_value pktType) := handler]"

text \<open>The table after the static initialisers have run, in the order of the file.\<close>

definition HandlerTable :: "HandlerFunc list" where
  "HandlerTable =
     RegisterHandler PKT_CS_MOVE CS_MOVE_HandlerFunc
       (RegisterHandler PKT_CS_CHAT CS_CHAT_HandlerFunc
         (RegisterHandler PKT_CS_LOGIN CS_LOGIN_HandlerFunc InitializeHandlers))"

section \<open>The read loop\<close>

text \<open>One turn of the loop of \<open>OnRead\<close>: whether it goes on.\<close>

definition OnRead_turn :: "environment \<Rightarrow> nat \<Rightarrow> world \<Rightarrow> (bool \<times> world) res" where
  "OnRead_turn env this w =
     rbind (get_session this w) (\<lambda>s.
     rbind (Peek (mRecvBuffer s) sizeof_PacketHeader) (\<lambda>bytes.
     case bytes of None \<Rightarrow> Inr (False, w)
     | Some bs \<Rightarrow>
         let header = PacketHeader_at bs in
         if GetStoredSize (mRecvBuffer s) < sz_of_short (mSize header) then Inr (False, w)
         else if sint (mType header) \<ge> PacketTypes_value PKT_MAX \<or>
                 sint (mType header) \<le> PacketTypes_value PKT_NONE
           then rbind (Disconnect env this w) (\<lambda>w. Inr (False, w))
         else rbind (call_handler env (HandlerTable ! nat (sint (mType header))) this w) (\<lambda>w.
              Inr (True, w))))"

partial_function (option) OnRead_loop :: "environment \<Rightarrow> nat \<Rightarrow> world \<Rightarrow> world res option" where
  "OnRead_loop env this w =
     (case OnRead_turn env this w of
        Inl e \<Rightarrow> Some (Inl e)
      | Inr (goes_on, w') \<Rightarrow> if goes_on then OnRead_loop env this w' else Some (Inr w'))"

definition OnRead :: "environment \<Rightarrow> nat \<Rightarrow> nat \<Rightarrow> world \<Rightarrow> world res option" where
  "OnRead env this len w =
     then_do (Some (modify_session this (\<lambda>s. s\<lparr>mRecvBuffer := Commit (mRecvBuffer s) len\<rparr>) w))
       (OnRead_loop env this)"

section \<open>Completion routines\<close>

text \<open>\<open>lpOverlapped\<close> is the overlapped structure for receives (sends) inside the session given.\<close>

definition RecvCompletion ::
    "environment \<Rightarrow> dword \<Rightarrow> nat \<Rightarrow> nat \<Rightarrow> world \<Rightarrow> world res option" where
  "RecvCompletion env dwError cbTransferred lpOverlapped w =
     then_do (Some (rbind (get_session lpOverlapped w) (\<lambda>s. deref (mOverlappedRecv s)))) (\<lambda>fromClient.
     then_do (Some (DecRefCount fromClient w)) (\<lambda>w.
     then_do (Some (IsConnected fromClient w)) (\<lambda>connected.
     if \<not> connected then Some (Inr w)
     else if dwError \<noteq> 0 \<or> cbTransferred = 0 then Some (Disconnect env fromClient w)
     else
       then_do (OnRead env fromClient cbTransferred w) (\<lambda>w.
       Some (rbind (PostRecv env fromClient w) (\<lambda>(ok, w).
             if \<not> ok then Disconnect env fromClient w else Inr w))))))"

definition SendCompletion ::
    "environment \<Rightarrow> dword \<Rightarrow> nat \<Rightarrow> nat \<Rightarrow> world \<Rightarrow> world res" where
  "SendCompletion env dwError cbTransferred lpOverlapped w =
     rbind (get_session lpOverlapped w) (\<lambda>s.
     rbind (deref (mOverlappedSend s)) (\<lambda>fromClient.
     rbind (DecRefCount fromClient w) (\<lambda>w.
     rbind (IsConnected fromClient w) (\<lambda>connected.
     if \<not> connected then Inr w
     else if dwError \<noteq> 0 \<or> cbTransferred = 0 then Disconnect env fromClient w
     else OnWriteComplete fromClient cbTransferred w))))"

end
