(* ===== verification/Server_Main.thy ===== *)
theory Server_Main
  imports Packet_Handling
begin

text \<open>
  \<open>EasyServer/EasyServer/EasyServer.cpp\<close>: the timer routine, one turn of the loop of the client thread,
  and the whole process as a step relation: the main thread accepts connections into the pending
  list, the client thread handles them, flushes, and sleeps until completion routines run; the
  database thread executes jobs; the system completes receives and sends.
\<close>

section \<open>The timer\<close>

fun run_task :: "environment \<Rightarrow> server_task \<Rightarrow> world \<Rightarrow> world res" where
  "run_task env (OnTick_task this) w = OnTick this w"
| "run_task env (OnDbUpdate_task this) w = OnDbUpdate env this w"

definition TimerProc :: "environment \<Rightarrow> world \<Rightarrow> world res option" where
  "TimerProc env w =
     then_do (Some (C_assert (LThreadType w = THREAD_CLIENT))) (\<lambda>_.
     then_do (DoTasks (run_task env) DecRefCount (os_GetTickCount env (calls w)) (sys_call w))
       (OnPeriodWork env))"

section \<open>The client thread\<close>

definition PENDING_ACCEPT :: nat where "PENDING_ACCEPT = 100"

text \<open>A new connection: the session, the peer address, the first receive.\<close>

definition HandleAccept :: "environment \<Rightarrow> SOCKET \<Rightarrow> world \<Rightarrow> world res" where
  "HandleAccept env acceptSock w =
     rbind (CreateClient env acceptSock w) (\<lambda>(client, w).
     let clientaddr = os_getpeername env (calls w); w = sys_call w in
     rbind (OnConnect env client clientaddr w) (\<lambda>(ok, w).
     if \<not> ok then Disconnect env client w else Inr w))"

text \<open>
  One turn of \<open>ClientHandlingThread\<close>: whether it ends in \<open>SleepEx\<close>, the pending list and the world.
\<close>

definition ClientHandlingThread_turn ::
    "environment \<Rightarrow> SOCKET pcq \<Rightarrow> world \<Rightarrow> (bool \<times> SOCKET pcq \<times> world) res" where
  "ClientHandlingThread_turn env pAcceptList w =
     rbind (Consume PENDING_ACCEPT pAcceptList False) (\<lambda>(acceptSock, q).
     case acceptSock of
       Some sock \<Rightarrow> rbind (HandleAccept env sock w) (\<lambda>w. Inr (False, q, w))
     | None \<Rightarrow> rbind (FlushClientSend env w) (\<lambda>w. Inr (True, q, w)))"

section \<open>Completions\<close>

text \<open>
  The system fills the region of a receive before it completes it; it may send a part of the region
  of a send. The completion routine gets the number of bytes and an error code.
\<close>

definition KernelReceive :: "io_op \<Rightarrow> byte list \<Rightarrow> world \<Rightarrow> world res" where
  "KernelReceive op bs w =
     rbind (get_session (io_session op) w) (\<lambda>s.
     rbind (KernelWrite (mRecvBuffer s) (io_offset op) bs) (\<lambda>rb.
     Inr (set_session (io_session op) (s\<lparr>mRecvBuffer := rb\<rparr>) w)))"

definition complete_recv :: "environment \<Rightarrow> io_op \<Rightarrow> dword \<Rightarrow> byte list \<Rightarrow> world \<Rightarrow> world res option" where
  "complete_recv env op dwError bs w =
     then_do (Some (KernelReceive op bs (w\<lparr>pending_recv := remove1 op (pending_recv w)\<rparr>)))
       (RecvCompletion env dwError (length bs) (io_session op))"

definition complete_send :: "environment \<Rightarrow> io_op \<Rightarrow> dword \<Rightarrow> nat \<Rightarrow> world \<Rightarrow> world res" where
  "complete_send env op dwError n w =
     SendCompletion env dwError n (io_session op) (w\<lparr>pending_send := remove1 op (pending_send w)\<rparr>)"

end
