(* ===== verification/Server_Invariant.thy ===== *)
theory Server_Invariant
  imports Server_Main
begin

text \<open>
  The invariant of the server's state and what the operations keep of it: a session that the
  client list, a scheduled task or an operation of the system refers to is live, its reference
  count is the number of such tasks and operations, at most one receive is under way per session
  and its region is the free region of the receive buffer, and all buffers, strings, queues and the
  object pool are well formed.
\<close>

section \<open>Results without memory faults\<close>

text \<open>
  An operation is \<open>safe\<close> when it ends with \<open>Q\<close>, or goes to sleep on a full queue, or calls the
  invalid-parameter handler; every other fault is excluded.
\<close>

definition safe :: "('a \<Rightarrow> bool) \<Rightarrow> 'a res \<Rightarrow> bool" where
  "safe Q r = (case r of Inl e \<Rightarrow> e = Sleeping \<or> e = InvalidParameter | Inr x \<Rightarrow> Q x)"

lemma safe_simps [simp]:
  "safe Q (Inr x) = Q x" "safe Q (Inl e) \<longleftrightarrow> e = Sleeping \<or> e = InvalidParameter"
  by (simp_all add: safe_def)

lemma safe_bind: "safe P m \<Longrightarrow> (\<And>x. P x \<Longrightarrow> safe Q (f x)) \<Longrightarrow> safe Q (rbind m f)"
  by (cases m) auto

lemma safe_mono: "safe P m \<Longrightarrow> (\<And>x. P x \<Longrightarrow> Q x) \<Longrightarrow> safe Q m"
  by (cases m) (auto simp: safe_def)

lemma safe_Inr: "safe Q r \<Longrightarrow> r = Inr x \<Longrightarrow> Q x"
  by simp

text \<open>The same for operations that may not return.\<close>

definition safe_option :: "('a \<Rightarrow> bool) \<Rightarrow> 'a res option \<Rightarrow> bool" where
  "safe_option Q m = (case m of None \<Rightarrow> True | Some r \<Rightarrow> safe Q r)"

lemma safe_option_simps [simp]: "safe_option Q (Some r) = safe Q r" "safe_option Q None"
  by (simp_all add: safe_option_def)

lemma safe_then_do:
  "safe_option P m \<Longrightarrow> (\<And>x. P x \<Longrightarrow> safe_option Q (f x)) \<Longrightarrow> safe_option Q (then_do m f)"
  by (cases m; cases "the m") auto

lemma safe_option_mono: "safe_option P m \<Longrightarrow> (\<And>x. P x \<Longrightarrow> Q x) \<Longrightarrow> safe_option Q m"
  by (cases m) (auto intro: safe_mono)

section \<open>The invariant\<close>

definition session_ok :: "session \<Rightarrow> bool" where
  "session_ok s \<longleftrightarrow>
     cb_ok (mSendBuffer s) \<and> length (mBuffer (mSendBuffer s)) = BUFSIZE \<and>
     cb_ok (mRecvBuffer s) \<and> length (mBuffer (mRecvBuffer s)) = BUFSIZE \<and>
     terminated MAX_NAME_LEN (mPlayerName s)"

text \<open>The references to a session: operations of the system and scheduled tasks.\<close>

definition refs :: "world \<Rightarrow> nat \<Rightarrow> nat" where
  "refs w a = length (filter (\<lambda>op. io_session op = a) (pending_recv w)) +
     length (filter (\<lambda>op. io_session op = a) (pending_send w)) +
     size (filter_mset (\<lambda>j. mOwner j = a) (mset (mTaskQueue w)))"

definition recv_ok :: "world \<Rightarrow> io_op \<Rightarrow> bool" where
  "recv_ok w op \<longleftrightarrow> (\<exists>s. sessions w (io_session op) = Some s \<and>
     mOverlappedRecv s = Some (io_session op) \<and> settled (mRecvBuffer s) \<and>
     io_offset op = GetBuffer (mRecvBuffer s) \<and> io_length op = room (mRecvBuffer s))"

definition send_ok :: "world \<Rightarrow> io_op \<Rightarrow> bool" where
  "send_ok w op \<longleftrightarrow>
     (\<exists>s. sessions w (io_session op) = Some s \<and> mOverlappedSend s = Some (io_session op))"

fun task_session :: "server_task \<Rightarrow> nat" where
  "task_session (OnTick_task a) = a"
| "task_session (OnDbUpdate_task a) = a"

definition task_ok :: "world \<Rightarrow> server_task JobElement \<Rightarrow> bool" where
  "task_ok w j \<longleftrightarrow> mOwner j \<in> dom (sessions w) \<and> task_session (mTask j) = mOwner j"

definition client_ok :: "world \<Rightarrow> SOCKET \<times> nat \<Rightarrow> bool" where
  "client_ok w e \<longleftrightarrow> (\<exists>s. sessions w (snd e) = Some s \<and> mSocket s = fst e)"

definition manager_ok :: "DatabaseJobManager \<Rightarrow> bool" where
  "manager_ok m \<longleftrightarrow>
     pcq_ok MAX_DB_JOB (mDbJobRequestQueue m) \<and> pcq_ok MAX_DB_JOB (mDbJobResultQueue m) \<and>
     list_all job_ok (items MAX_DB_JOB (mDbJobRequestQueue m)) \<and>
     list_all job_ok (items MAX_DB_JOB (mDbJobResultQueue m))"


definition world_ok :: "environment \<Rightarrow> world \<Rightarrow> bool" where
  "world_ok env w \<longleftrightarrow>
     LThreadType w = THREAD_CLIENT \<and>
     pool_ok (sizeof_ClientSession env) (dom (sessions w)) (mPool w) \<and>
     map_ok (mClientList w) \<and> (\<forall>e \<in> set (mClientList w). client_ok w e) \<and>
     (\<forall>a s. sessions w a = Some s \<longrightarrow> session_ok s \<and> mRefCount s = int (refs w a)) \<and>
     (\<forall>op \<in> set (pending_recv w). recv_ok w op) \<and> distinct (map io_session (pending_recv w)) \<and>
     (\<forall>op \<in> set (pending_send w). send_ok w op) \<and>
     (\<forall>j \<in> set (mTaskQueue w). task_ok w j) \<and> pq_sorted (mTaskQueue w) \<and>
     manager_ok (GDatabaseJobManager w)"

text \<open>What an operation leaves alone, and the tasks it may add.\<close>

definition new_task :: "world \<Rightarrow> server_task JobElement \<Rightarrow> bool" where
  "new_task w j \<longleftrightarrow> mExecutionTick j = uint (PLAYER_HEART_BEAT + mCurrentTick w) \<or>
     mExecutionTick j = uint (PLAYER_DB_UPDATE_INTERVAL + mCurrentTick w)"

definition keeps :: "world \<Rightarrow> world \<Rightarrow> bool" where
  "keeps w w' \<longleftrightarrow>
     dom (sessions w') = dom (sessions w) \<and> pending_recv w' = pending_recv w \<and>
     mClientList w' = mClientList w \<and> mCurrentTick w' = mCurrentTick w \<and>
     mDbJobResultQueue (GDatabaseJobManager w') = mDbJobResultQueue (GDatabaseJobManager w) \<and>
     (\<exists>new. mTaskQueue w' = fold pq_push new (mTaskQueue w) \<and> (\<forall>j \<in> set new. new_task w j))"

lemma keeps_refl [simp]: "keeps w w"
  unfolding keeps_def by (intro conjI exI [of _ "[]"]) simp_all

lemma keeps_trans [trans]: "keeps w w' \<Longrightarrow> keeps w' w'' \<Longrightarrow> keeps w w''"
proof -
  assume a: "keeps w w'" and b: "keeps w' w''"
  from a obtain n1 where 1: "mTaskQueue w' = fold pq_push n1 (mTaskQueue w)" "\<forall>j \<in> set n1. new_task w j"
    by (auto simp: keeps_def)
  from b obtain n2 where 2: "mTaskQueue w'' = fold pq_push n2 (mTaskQueue w')" "\<forall>j \<in> set n2. new_task w' j"
    by (auto simp: keeps_def)
  have "mTaskQueue w'' = fold pq_push (n1 @ n2) (mTaskQueue w)" using 1 2 by simp
  moreover have "\<forall>j \<in> set (n1 @ n2). new_task w j"
    using 1 2 a by (auto simp: keeps_def new_task_def)
  ultimately show "keeps w w''"
    unfolding keeps_def using a b by (intro conjI exI [of _ "n1 @ n2"]) (simp_all add: keeps_def)
qed

definition fine :: "environment \<Rightarrow> world \<Rightarrow> world \<Rightarrow> bool" where
  "fine env w w' \<longleftrightarrow> world_ok env w' \<and> keeps w w'"

lemma fine_refl: "world_ok env w \<Longrightarrow> fine env w w"
  by (simp add: fine_def)

lemma fine_trans: "fine env w w' \<Longrightarrow> fine env w' w'' \<Longrightarrow> fine env w w''"
  by (auto simp: fine_def intro: keeps_trans)

lemma fine_dom: "fine env w w' \<Longrightarrow> a \<in> dom (sessions w) \<Longrightarrow> a \<in> dom (sessions w')"
  by (simp add: fine_def keeps_def)

lemma fine_ok: "fine env w w' \<Longrightarrow> world_ok env w'"
  by (simp add: fine_def)

section \<open>Elementary updates\<close>

definition no_recv :: "world \<Rightarrow> nat \<Rightarrow> bool" where
  "no_recv w a \<longleftrightarrow> a \<notin> io_session ` set (pending_recv w)"

lemma world_ok_session:
  "world_ok env w \<Longrightarrow> sessions w a = Some s \<Longrightarrow> session_ok s \<and> mRefCount s = int (refs w a)"
  by (simp add: world_ok_def)

lemma refs_cong:
  "pending_recv w' = pending_recv w \<Longrightarrow> pending_send w' = pending_send w \<Longrightarrow>
     mTaskQueue w' = mTaskQueue w \<Longrightarrow> refs w' a = refs w a"
  by (simp add: refs_def)

lemma fine_set_session:
  assumes ok: "world_ok env w" and live: "sessions w a = Some s"
    and s': "session_ok s'" "mRefCount s' = mRefCount s" "mSocket s' = mSocket s"
      "mOverlappedSend s' \<in> {mOverlappedSend s, Some a}"
    and recv: "mOverlappedRecv s' = mOverlappedRecv s \<and> mRecvBuffer s' = mRecvBuffer s \<or> no_recv w a"
  shows "fine env w (set_session a s' w)"
proof -
  have dom: "dom (sessions (set_session a s' w)) = dom (sessions w)" using live by auto
  have refs: "refs (set_session a s' w) b = refs w b" for b by (rule refs_cong) simp_all
  have clients: "client_ok (set_session a s' w) e" if "client_ok w e" for e
    using that live s'(3) by (auto simp: client_ok_def)
  have send: "send_ok (set_session a s' w) op" if "send_ok w op" for op
    using that live s'(4) by (auto simp: send_ok_def)
  have recv: "recv_ok (set_session a s' w) op" if "recv_ok w op" "op \<in> set (pending_recv w)" for op
    using that live recv by (auto simp: recv_ok_def no_recv_def)
  have task: "task_ok (set_session a s' w) j = task_ok w j" for j
    using dom by (simp add: task_ok_def)
  have "world_ok env (set_session a s' w)"
    using ok dom refs clients send recv task live s' by (simp add: world_ok_def)
  moreover have "keeps w (set_session a s' w)"
    unfolding keeps_def using dom by (intro conjI exI [of _ "[]"]) simp_all
  ultimately show ?thesis by (simp add: fine_def)
qed

text \<open>Changes of the world outside what the invariant speaks about.\<close>

lemma fine_cong:
  assumes "world_ok env w"
    and "sessions w' = sessions w" "mPool w' = mPool w" "mClientList w' = mClientList w"
      "pending_recv w' = pending_recv w" "pending_send w' = pending_send w" "mTaskQueue w' = mTaskQueue w"
      "mCurrentTick w' = mCurrentTick w" "LThreadType w' = LThreadType w"
      "GDatabaseJobManager w' = GDatabaseJobManager w"
  shows "fine env w w'"
proof -
  have "world_ok env w'"
    using assms by (simp add: world_ok_def client_ok_def recv_ok_def send_ok_def task_ok_def refs_def)
  moreover have "keeps w w'"
    unfolding keeps_def using assms by (intro conjI exI [of _ "[]"]) simp_all
  ultimately show ?thesis by (simp add: fine_def)
qed

lemma fine_manager:
  assumes "world_ok env w" and "manager_ok m"
    and "mDbJobResultQueue m = mDbJobResultQueue (GDatabaseJobManager w)"
  shows "fine env w (w\<lparr>GDatabaseJobManager := m\<rparr>)"
proof -
  have "world_ok env (w\<lparr>GDatabaseJobManager := m\<rparr>)"
    using assms by (simp add: world_ok_def client_ok_def recv_ok_def send_ok_def task_ok_def refs_def)
  moreover have "keeps w (w\<lparr>GDatabaseJobManager := m\<rparr>)"
    unfolding keeps_def using assms by (intro conjI exI [of _ "[]"]) simp_all
  ultimately show ?thesis by (simp add: fine_def)
qed

lemma sys_call_fields [simp]:
  "sessions (sys_call w) = sessions w" "mPool (sys_call w) = mPool w"
  "mClientList (sys_call w) = mClientList w" "pending_recv (sys_call w) = pending_recv w"
  "pending_send (sys_call w) = pending_send w" "mTaskQueue (sys_call w) = mTaskQueue w"
  "mCurrentTick (sys_call w) = mCurrentTick w" "LThreadType (sys_call w) = LThreadType w"
  "GDatabaseJobManager (sys_call w) = GDatabaseJobManager w" "mLastGCTick (sys_call w) = mLastGCTick w"
  "transmitted (sys_call w) = transmitted w" "closed (sys_call w) = closed w"
  by (simp_all add: sys_call_def)

lemma fine_sys_call: "world_ok env w \<Longrightarrow> fine env w (sys_call w)"
  by (rule fine_cong) simp_all

lemma fine_closesocket: "world_ok env w \<Longrightarrow> fine env w (closesocket sock w)"
  by (rule fine_cong) (simp_all add: closesocket_def)

section \<open>Connections and sending\<close>

lemma live_session:
  assumes "world_ok env w" and "a \<in> dom (sessions w)"
  obtains s where "sessions w a = Some s" "get_session a w = Inr s" "session_ok s"
    "mRefCount s = int (refs w a)"
  using assms world_ok_session [OF assms(1)] by (auto simp: get_session_def)

lemma Disconnect_safe:
  assumes ok: "world_ok env w" and a: "a \<in> dom (sessions w)"
  shows "safe (fine env w) (Disconnect env a w)"
proof -
  from ok a obtain s where s: "sessions w a = Some s" "get_session a w = Inr s" "session_ok s"
    by (rule live_session)
  let ?w = "closesocket (mSocket s) (sys_call w)"
  note 1 = fine_sys_call [OF ok] and 2 = fine_closesocket [OF fine_ok [OF fine_sys_call [OF ok]], of "mSocket s"]
  have "sessions ?w a = Some s" using s by (simp add: closesocket_def)
  with fine_ok [OF 2] s(3) have "fine env ?w (set_session a (s\<lparr>mConnected := False\<rparr>) ?w)"
    by (intro fine_set_session) (auto simp: session_ok_def)
  with fine_trans [OF 1 2] have "fine env w (set_session a (s\<lparr>mConnected := False\<rparr>) ?w)"
    by (rule fine_trans)
  with s 1 ok show ?thesis by (auto simp: Disconnect_def setsockopt_def fine_refl)
qed

definition packet_fits :: "byte list \<Rightarrow> bool" where
  "packet_fits pkt \<longleftrightarrow> sz_of_short (mSize (PacketHeader_at pkt)) \<le> length pkt"

lemma SendRequest_safe:
  assumes ok: "world_ok env w" and a: "a \<in> dom (sessions w)" and pkt: "packet_fits pkt"
  shows "safe (\<lambda>(b, w'). fine env w w') (SendRequest env a pkt w)"
proof -
  from ok a obtain s where s: "sessions w a = Some s" "get_session a w = Inr s" "session_ok s"
    by (rule live_session)
  let ?n = "sz_of_short (mSize (PacketHeader_at pkt))"
  from s(3) have cb: "cb_ok (mSendBuffer s)" by (simp add: session_ok_def)
  obtain b sb where wr: "Write (mSendBuffer s) pkt ?n = Inr (b, sb)"
    and sb: "cb_ok sb" "length (mBuffer sb) = length (mBuffer (mSendBuffer s))"
    using Write_full [OF cb, of ?n pkt] Write_contents [OF cb, of ?n pkt] pkt
    unfolding packet_fits_def by (cases "?n \<le> room (mSendBuffer s)") auto
  let ?w = "set_session a (s\<lparr>mSendBuffer := sb\<rparr>) w"
  have 1: "fine env w ?w"
    using ok s sb by (intro fine_set_session) (auto simp: session_ok_def)
  have "safe (fine env ?w) (Disconnect env a ?w)"
    by (rule Disconnect_safe [OF fine_ok [OF 1] fine_dom [OF 1 a]])
  then have "safe (\<lambda>(b, w'). fine env w w') (rbind (Disconnect env a ?w) (\<lambda>w. Inr (False, w)))"
    by (rule safe_bind) (use 1 fine_trans in auto)
  with s wr 1 ok show ?thesis by (auto simp: SendRequest_def fine_refl Let_def)
qed

lemma BroadcastPacket_loop_safe:
  assumes "world_ok env w" and "\<forall>e \<in> set it. snd e \<in> dom (sessions w)" and pkt: "packet_fits pkt"
  shows "safe (fine env w) (BroadcastPacket_loop env sender pkt it w)"
  using assms(1,2)
proof (induction it arbitrary: w)
  case Nil
  then show ?case by (simp add: fine_refl)
next
  case (Cons e it)
  obtain sock client where e: "e = (sock, client)" by (cases e)
  have "safe (fine env w) (rbind (SendRequest env client pkt w)
      (\<lambda>(_, w). BroadcastPacket_loop env sender pkt it w))"
  proof (rule safe_bind [OF SendRequest_safe])
    fix r assume r: "case r of (b, w') \<Rightarrow> fine env w w'"
    obtain b w1 where bw: "r = (b, w1)" by (cases r)
    with r have 1: "fine env w w1" by simp
    have "safe (fine env w1) (BroadcastPacket_loop env sender pkt it w1)"
      using Cons.prems fine_dom [OF 1] by (intro Cons.IH [OF fine_ok [OF 1]]) auto
    then have "safe (fine env w) (BroadcastPacket_loop env sender pkt it w1)"
      by (rule safe_mono) (rule fine_trans [OF 1])
    with bw show "safe (fine env w) (case r of (_, w) \<Rightarrow> BroadcastPacket_loop env sender pkt it w)" by simp
  qed (use Cons.prems e pkt in auto)
  with Cons e show ?case by auto
qed

lemma world_ok_clients:
  "world_ok env w \<Longrightarrow> e \<in> set (mClientList w) \<Longrightarrow> snd e \<in> dom (sessions w)"
  by (auto simp: world_ok_def client_ok_def)

lemma Broadcast_safe:
  assumes ok: "world_ok env w" and a: "a \<in> dom (sessions w)" and pkt: "packet_fits pkt"
  shows "safe (\<lambda>(b, w'). fine env w w') (Broadcast env a pkt w)"
  unfolding Broadcast_def
proof (rule safe_bind [OF SendRequest_safe [OF assms]], clarsimp)
  fix w1 assume 1: "fine env w w1"
  note a1 = fine_dom [OF 1 a]
  from fine_ok [OF 1] a1 obtain s where s: "get_session a w1 = Inr s" by (rule live_session)
  have "safe (fine env w1) (BroadcastPacket env a pkt w1)"
    unfolding BroadcastPacket_def
    using fine_ok [OF 1] world_ok_clients [OF fine_ok [OF 1]] pkt by (intro BroadcastPacket_loop_safe) auto
  then have "safe (\<lambda>(b, w'). fine env w w') (rbind (BroadcastPacket env a pkt w1) (\<lambda>w. Inr (True, w)))"
    by (rule safe_bind) (use 1 fine_trans in auto)
  with s 1 show "safe (\<lambda>(b, w'). fine env w w') (rbind (IsConnected a w1)
      (\<lambda>connected. if \<not> connected then Inr (False, w1)
        else rbind (BroadcastPacket env a pkt w1) (\<lambda>w. Inr (True, w))))"
    by (auto simp: IsConnected_def)
qed

lemma OnWriteComplete_safe:
  assumes ok: "world_ok env w" and a: "a \<in> dom (sessions w)"
  shows "safe (fine env w) (OnWriteComplete a n w)"
proof -
  from ok a obtain s where s: "sessions w a = Some s" "get_session a w = Inr s" "session_ok s"
    by (rule live_session)
  from s(3) have cb: "cb_ok (mSendBuffer s)" by (simp add: session_ok_def)
  from Remove_contents [OF cb, of n] obtain sb where "Remove (mSendBuffer s) n = Inr sb" "cb_ok sb"
    "length (mBuffer sb) = length (mBuffer (mSendBuffer s))" by auto
  moreover from this s(3) have "fine env w (set_session a (s\<lparr>mSendBuffer := sb\<rparr>) w)"
    using ok s by (intro fine_set_session) (auto simp: session_ok_def)
  ultimately show ?thesis using s by (simp add: OnWriteComplete_def)
qed

section \<open>Posting operations\<close>

text \<open>
  The general step: one session changes, and with it the lists of operations and tasks, so that
  the counter moves by as many references as come or go.
\<close>

lemma world_ok_step:
  assumes ok: "world_ok env w" and s: "sessions w a = Some s"
    and heap: "sessions w' = (sessions w)(a \<mapsto> s')" "mPool w' = mPool w" "mClientList w' = mClientList w"
      "LThreadType w' = LThreadType w" "GDatabaseJobManager w' = GDatabaseJobManager w"
    and s': "session_ok s'" "mSocket s' = mSocket s"
    and refs: "\<And>b. int (refs w' b) = int (refs w b) + (if b = a then mRefCount s' - mRefCount s else 0)"
    and recv: "\<forall>op \<in> set (pending_recv w'). recv_ok w' op" "distinct (map io_session (pending_recv w'))"
    and send: "\<forall>op \<in> set (pending_send w'). send_ok w' op"
    and tasks: "\<forall>j \<in> set (mTaskQueue w'). task_ok w j" "pq_sorted (mTaskQueue w')"
  shows "world_ok env w'"
proof -
  have dom: "dom (sessions w') = dom (sessions w)" using s heap by auto
  have "\<forall>b t. sessions w' b = Some t \<longrightarrow> session_ok t \<and> mRefCount t = int (refs w' b)"
  proof (intro allI impI)
    fix b t assume t: "sessions w' b = Some t"
    show "session_ok t \<and> mRefCount t = int (refs w' b)"
    proof (cases "b = a")
      case True
      with t heap s' refs [of b] world_ok_session [OF ok s] show ?thesis by simp
    next
      case False
      with t heap refs [of b] world_ok_session [OF ok, of b] show ?thesis by simp
    qed
  qed
  moreover have "\<forall>e \<in> set (mClientList w'). client_ok w' e"
  proof
    fix e assume "e \<in> set (mClientList w')"
    with ok heap have "client_ok w e" by (simp add: world_ok_def)
    with s heap s'(2) show "client_ok w' e" by (auto simp: client_ok_def)
  qed
  moreover have "\<forall>j \<in> set (mTaskQueue w'). task_ok w' j"
    using tasks(1) dom by (simp add: task_ok_def)
  ultimately show ?thesis
    unfolding world_ok_def using ok heap(2-5) dom recv send tasks(2)
    by (intro conjI) (simp_all add: world_ok_def)
qed

lemma recv_ok_update:
  "recv_ok w op \<Longrightarrow> sessions w a = Some s \<Longrightarrow> sessions w' = (sessions w)(a \<mapsto> s') \<Longrightarrow>
     mRecvBuffer s' = mRecvBuffer s \<Longrightarrow> mOverlappedRecv s' = mOverlappedRecv s \<Longrightarrow> recv_ok w' op"
  by (auto simp: recv_ok_def)

lemma send_ok_update:
  "send_ok w op \<Longrightarrow> sessions w a = Some s \<Longrightarrow> sessions w' = (sessions w)(a \<mapsto> s') \<Longrightarrow>
     mOverlappedSend s' = mOverlappedSend s \<Longrightarrow> send_ok w' op"
  by (auto simp: send_ok_def)

lemma world_ok_pending:
  assumes "world_ok env w"
  shows "op \<in> set (pending_recv w) \<Longrightarrow> recv_ok w op" "op \<in> set (pending_send w) \<Longrightarrow> send_ok w op"
    "j \<in> set (mTaskQueue w) \<Longrightarrow> task_ok w j" "distinct (map io_session (pending_recv w))"
    "pq_sorted (mTaskQueue w)" "map_ok (mClientList w)" "LThreadType w = THREAD_CLIENT"
    "manager_ok (GDatabaseJobManager w)"
  using assms by (simp_all add: world_ok_def)

lemma world_ok_post_recv:
  assumes ok: "world_ok env w" and s: "sessions w a = Some s" and no: "no_recv w a"
    and op: "io_session op = a" "io_offset op = GetBuffer (mRecvBuffer s)" "io_length op = room (mRecvBuffer s)"
    and settled: "settled (mRecvBuffer s)" "mOverlappedRecv s = Some a"
  shows "world_ok env (set_session a (s\<lparr>mRefCount := mRefCount s + 1\<rparr>)
    (w\<lparr>pending_recv := pending_recv w @ [op]\<rparr>))" (is "world_ok env ?w")
proof (rule world_ok_step [OF ok s, where s' = "s\<lparr>mRefCount := mRefCount s + 1\<rparr>"])
  show "session_ok (s\<lparr>mRefCount := mRefCount s + 1\<rparr>)"
    using world_ok_session [OF ok s] by (simp add: session_ok_def)
  have "recv_ok ?w op'" if "op' \<in> set (pending_recv w)" for op'
    using world_ok_pending(1) [OF ok that] s by (rule recv_ok_update [where s' = "s\<lparr>mRefCount := mRefCount s + 1\<rparr>"]) simp_all
  moreover have "recv_ok ?w op" using op settled by (simp add: recv_ok_def)
  ultimately show "\<forall>op' \<in> set (pending_recv ?w). recv_ok ?w op'" by auto
  show "\<forall>op' \<in> set (pending_send ?w). send_ok ?w op'"
    using world_ok_pending(2) [OF ok] send_ok_update [OF _ s, of _ ?w "s\<lparr>mRefCount := mRefCount s + 1\<rparr>"] by simp
  show "distinct (map io_session (pending_recv ?w))"
    using world_ok_pending(4) [OF ok] no op(1) by (simp add: no_recv_def)
qed (use world_ok_pending(3,5) [OF ok] op(1) in \<open>simp_all add: refs_def\<close>)

lemma world_ok_post_send:
  assumes ok: "world_ok env w" and s: "sessions w a = Some s"
    and op: "io_session op = a" and ov: "mOverlappedSend s = Some a"
  shows "world_ok env (set_session a (s\<lparr>mRefCount := mRefCount s + 1\<rparr>)
    (w\<lparr>pending_send := pending_send w @ [op], transmitted := t\<rparr>))" (is "world_ok env ?w")
proof (rule world_ok_step [OF ok s, where s' = "s\<lparr>mRefCount := mRefCount s + 1\<rparr>"])
  show "session_ok (s\<lparr>mRefCount := mRefCount s + 1\<rparr>)"
    using world_ok_session [OF ok s] by (simp add: session_ok_def)
  show "\<forall>op' \<in> set (pending_recv ?w). recv_ok ?w op'"
    using world_ok_pending(1) [OF ok] recv_ok_update [OF _ s, of _ ?w "s\<lparr>mRefCount := mRefCount s + 1\<rparr>"] by simp
  have "send_ok ?w op'" if "op' \<in> set (pending_send w)" for op'
    using world_ok_pending(2) [OF ok that] s by (rule send_ok_update [where s' = "s\<lparr>mRefCount := mRefCount s + 1\<rparr>"]) simp_all
  moreover have "send_ok ?w op" using op ov by (simp add: send_ok_def)
  ultimately show "\<forall>op' \<in> set (pending_send ?w). send_ok ?w op'" by auto
qed (use world_ok_pending(3,4,5) [OF ok] op(1) in \<open>simp_all add: refs_def\<close>)

text \<open>What stays the same when a receive or a send is posted or completed.\<close>

definition same_base :: "world \<Rightarrow> world \<Rightarrow> bool" where
  "same_base w w' \<longleftrightarrow> dom (sessions w') = dom (sessions w) \<and> mClientList w' = mClientList w \<and>
     mTaskQueue w' = mTaskQueue w \<and> mCurrentTick w' = mCurrentTick w"

lemma PostRecv_safe:
  assumes ok: "world_ok env w" and a: "a \<in> dom (sessions w)" and no: "no_recv w a"
  shows "safe (\<lambda>(b, w'). world_ok env w' \<and> same_base w w') (PostRecv env a w)"
proof -
  from ok a obtain s where s: "sessions w a = Some s" "get_session a w = Inr s" "session_ok s"
    by (rule live_session)
  from s(3) have cb: "cb_ok (mRecvBuffer s)" by (simp add: session_ok_def)
  note free = GetFreeSpaceSize_ok [OF cb]
  define rb where "rb = snd (GetFreeSpaceSize (mRecvBuffer s))"
  have G: "GetFreeSpaceSize (mRecvBuffer s) = (room rb, rb)"
    using free(1,5) by (simp add: rb_def prod_eq_iff)
  let ?s = "s\<lparr>mRecvBuffer := rb, mOverlappedRecv := Some a\<rparr>"
  have "session_ok ?s" using s(3) free(2,6) by (simp add: session_ok_def rb_def)
  then have "fine env w (set_session a ?s w)"
    using ok s no by (intro fine_set_session) auto
  from fine_trans [OF this fine_sys_call [OF fine_ok [OF this]]]
  have 1: "fine env w (sys_call (set_session a ?s w))" .
  let ?w = "sys_call (set_session a ?s w)"
  let ?op = "\<lparr>io_session = a, io_offset = GetBuffer rb, io_length = room rb\<rparr>"
  have "world_ok env (set_session a (?s\<lparr>mRefCount := mRefCount ?s + 1\<rparr>)
      (?w\<lparr>pending_recv := pending_recv ?w @ [?op]\<rparr>))"
    using fine_ok [OF 1] free(3) no
    by (intro world_ok_post_recv) (auto simp: rb_def no_recv_def)
  then show ?thesis
    using s G 1 ok a fine_cong [OF fine_ok [OF 1], of "?w\<lparr>pending_recv := pending_recv w\<rparr>"]
    by (auto simp: PostRecv_def WSARecv_def IncRefCount_def res_simps Let_def fine_def same_base_def)
qed

lemma SendFlush_safe:
  assumes ok: "world_ok env w" and a: "a \<in> dom (sessions w)"
  shows "safe (\<lambda>(b, w'). world_ok env w' \<and> same_base w w' \<and> pending_recv w' = pending_recv w) (SendFlush env a w)"
proof -
  from ok a obtain s where s: "sessions w a = Some s" "get_session a w = Inr s" "session_ok s"
    by (rule live_session)
  from s(3) have cb: "cb_ok (mSendBuffer s)" by (simp add: session_ok_def)
  show ?thesis
  proof (cases "mConnected s \<and> GetContiguiousBytes (mSendBuffer s) \<noteq> 0")
    case False
    with s ok show ?thesis by (auto simp: SendFlush_def same_base_def)
  next
    case True
    let ?len = "GetContiguiousBytes (mSendBuffer s)"
    from True GetContiguiousBytes_read [OF cb] GetContiguiousBytes_zero [OF cb] obtain buf where buf: "GetBufferStart (mSendBuffer s) = Some buf"
      "mem_read (mBuffer (mSendBuffer s)) buf ?len = Inr (take ?len (contents (mSendBuffer s)))"
      by auto
    let ?s = "s\<lparr>mOverlappedSend := Some a\<rparr>"
    have "fine env w (set_session a ?s w)"
      using ok s by (intro fine_set_session) (auto simp: session_ok_def)
    from fine_trans [OF this fine_sys_call [OF fine_ok [OF this]]]
    have 1: "fine env w (sys_call (set_session a ?s w))" .
    let ?w = "sys_call (set_session a ?s w)"
    let ?op = "\<lparr>io_session = a, io_offset = buf, io_length = ?len\<rparr>"
    have "world_ok env (set_session a (?s\<lparr>mRefCount := mRefCount ?s + 1\<rparr>)
      (?w\<lparr>pending_send := pending_send ?w @ [?op], transmitted := t\<rparr>))" for t
      using fine_ok [OF 1] by (intro world_ok_post_send) auto
    then show ?thesis
      using s buf True 1 ok a
        fine_cong [OF fine_ok [OF 1], of "?w\<lparr>pending_send := pending_send w, transmitted := transmitted w\<rparr>"]
      by (auto simp: SendFlush_def WSASend_def IncRefCount_def res_simps Let_def fine_def same_base_def)
  qed
qed

section \<open>Timers and database jobs\<close>

lemma filter_mset_push:
  "size (filter_mset P (mset (pq_push j q))) = size (filter_mset P (mset q)) + (if P j then 1 else 0)"
  by simp

lemma CallFuncAfter_safe:
  assumes ok: "world_ok env w" and a: "a \<in> dom (sessions w)" and t: "task_session t = a"
    and d: "d \<in> {PLAYER_HEART_BEAT, PLAYER_DB_UPDATE_INTERVAL}"
  shows "\<exists>w'. CallFuncAfter d a t w = Inr w' \<and> fine env w w'"
proof -
  from a obtain s where s: "sessions w a = Some s" by auto
  let ?j = "\<lparr>mOwner = a, mTask = t, mExecutionTick = uint (d + mCurrentTick w)\<rparr>"
  let ?s = "s\<lparr>mRefCount := mRefCount s + 1\<rparr>"
  let ?w = "(set_session a ?s w)\<lparr>mTaskQueue := pq_push ?j (mTaskQueue w)\<rparr>"
  have "world_ok env ?w"
  proof (rule world_ok_step [OF ok s, where s' = ?s])
    show "session_ok ?s" using world_ok_session [OF ok s] by (simp add: session_ok_def)
    show "\<forall>op \<in> set (pending_recv ?w). recv_ok ?w op"
      using world_ok_pending(1) [OF ok] recv_ok_update [OF _ s, of _ ?w ?s] by simp
    show "\<forall>op \<in> set (pending_send ?w). send_ok ?w op"
      using world_ok_pending(2) [OF ok] send_ok_update [OF _ s, of _ ?w ?s] by simp
    show "\<forall>j \<in> set (mTaskQueue ?w). task_ok w j"
      using world_ok_pending(3) [OF ok] a t by (auto simp: task_ok_def)
    show "pq_sorted (mTaskQueue ?w)" using pq_sorted_push [OF world_ok_pending(5) [OF ok]] by simp
  qed (use world_ok_pending(4) [OF ok] in \<open>simp_all add: refs_def\<close>)
  moreover have "keeps w ?w"
    unfolding keeps_def using a s d by (intro conjI exI [of _ "[?j]"]) (auto simp: new_task_def)
  moreover have "CallFuncAfter d a t w = Inr ?w"
    using s by (simp add: CallFuncAfter_def PushTask_def IncRefCount_def res_simps Let_def)
  ultimately show ?thesis by (simp add: fine_def)
qed

lemma OnTick_safe:
  assumes ok: "world_ok env w" and a: "a \<in> dom (sessions w)"
  shows "\<exists>w'. OnTick a w = Inr w' \<and> fine env w w'"
proof -
  from ok a obtain s where s: "get_session a w = Inr s" by (rule live_session)
  with CallFuncAfter_safe [OF assms, of "OnTick_task a" PLAYER_HEART_BEAT] fine_refl [OF ok]
  show ?thesis by (auto simp: OnTick_def IsConnected_def)
qed

lemma PushJob_safe:
  assumes ok: "world_ok env w" and j: "job_ok j"
  shows "safe (fine env w) (PushJob j w)"
proof -
  let ?m = "GDatabaseJobManager w"
  from world_ok_pending(7,8) [OF ok] have m: "pcq_ok MAX_DB_JOB (mDbJobRequestQueue ?m)"
    "manager_ok ?m" "LThreadType w = THREAD_CLIENT" by (simp_all add: manager_ok_def)
  from m(1) show ?thesis
  proof (cases rule: pcq.put_cases [where x = j and w = True])
    case (stored q)
    have "fine env w (w\<lparr>GDatabaseJobManager := ?m\<lparr>mDbJobRequestQueue := q\<rparr>\<rparr>)"
      using ok stored m j by (intro fine_manager) (auto simp: manager_ok_def)
    with stored m(3) show ?thesis by (simp add: PushJob_def PushDatabaseJobRequest_def)
  next
    case full
    with m(3) show ?thesis by (simp add: PushJob_def PushDatabaseJobRequest_def)
  qed
qed

lemma updated_test: "strcpy_s (replicate MAX_COMMENT_LEN 0) (c_literal ''updated_test'')
   = Inr (c_literal ''updated_test'' @ replicate 27 0)"
  by (simp add: strcpy_s_def c_literal_def MAX_COMMENT_LEN_def of_char_Char)

lemma terminated_literal [simp]: "length (c_literal s @ replicate k 0) = n \<Longrightarrow> terminated n (c_literal s @ replicate k 0)"
  by (auto simp: terminated_def c_literal_def)

lemma OnDbUpdate_safe:
  assumes ok: "world_ok env w" and a: "a \<in> dom (sessions w)"
  shows "safe (fine env w) (OnDbUpdate env a w)"
proof -
  from ok a obtain s where s: "get_session a w = Inr s" by (rule live_session)
  have push: "safe (fine env w) (rbind (PushJob j w) (\<lambda>w.
      CallFuncAfter PLAYER_DB_UPDATE_INTERVAL a (OnDbUpdate_task a) w))" if j: "job_ok j" for j
  proof (rule safe_bind [OF PushJob_safe [OF ok j]])
    fix w1 assume 1: "fine env w w1"
    from CallFuncAfter_safe [OF fine_ok [OF 1] fine_dom [OF 1 a], of "OnDbUpdate_task a" PLAYER_DB_UPDATE_INTERVAL]
    obtain w2 where "CallFuncAfter PLAYER_DB_UPDATE_INTERVAL a (OnDbUpdate_task a) w1 = Inr w2" "fine env w1 w2"
      by auto
    with fine_trans [OF 1] show "safe (fine env w)
        (CallFuncAfter PLAYER_DB_UPDATE_INTERVAL a (OnDbUpdate_task a) w1)" by simp
  qed
  have job: "job_ok (UpdatePlayer c)" if "update_mComment c = c_literal ''updated_test'' @ replicate 27 0" for c
    using that by (simp add: MAX_COMMENT_LEN_def c_literal_def terminated_def)
  show ?thesis
    using s fine_refl [OF ok]
    by (auto simp: OnDbUpdate_def UpdatePlayerDataContext_new_def updated_test Let_def
        intro!: push job)
qed

section \<open>Login\<close>

lemma packet_fits_header:
  assumes "mSize (PacketHeader_at pkt) = of_nat n" and "n < 32768" and "length pkt = n"
  shows "packet_fits pkt"
proof -
  have "sint (word_of_nat n :: short) = int n"
    using assms(2) by (simp add: signed_of_nat signed_take_bit_int_eq_self)
  then show ?thesis using assms by (simp add: packet_fits_def sz_of_short_nonneg)
qed

lemma header_of_packet:
  "PacketHeader_at (header_bytes p @ rest) = \<lparr>mSize = mSize p, mType = mType p\<rparr>"
  by (simp add: PacketHeader_at_def header_bytes_def)

lemma packet_fits_LoginResult:
  assumes "mSize p = of_nat sizeof_LoginResult" and "length (ls_mName p) = MAX_NAME_LEN"
  shows "packet_fits (LoginResult_bytes p)"
proof (rule packet_fits_header)
  show "mSize (PacketHeader_at (LoginResult_bytes p)) = of_nat sizeof_LoginResult"
    using assms(1) by (simp add: LoginResult_bytes_def header_of_packet)
qed (use assms(2) in \<open>simp_all add: sizeof_defs\<close>)

lemma packet_fits_ChatBroadcastResult:
  assumes "mSize p = of_nat sizeof_ChatBroadcastResult"
    and "length (cs_mName p) = MAX_NAME_LEN" and "length (cs_mChat p) = MAX_CHAT_LEN"
  shows "packet_fits (ChatBroadcastResult_bytes p)"
proof (rule packet_fits_header)
  show "mSize (PacketHeader_at (ChatBroadcastResult_bytes p)) = of_nat sizeof_ChatBroadcastResult"
    using assms(1) by (simp add: ChatBroadcastResult_bytes_def header_of_packet)
qed (use assms(2,3) in \<open>simp_all add: sizeof_defs\<close>)

lemma packet_fits_MoveBroadcastResult:
  assumes "mSize p = of_nat sizeof_MoveBroadcastResult"
  shows "packet_fits (MoveBroadcastResult_bytes p)"
proof (rule packet_fits_header)
  show "mSize (PacketHeader_at (MoveBroadcastResult_bytes p)) = of_nat sizeof_MoveBroadcastResult"
    using assms(1) by (simp add: MoveBroadcastResult_bytes_def header_of_packet)
qed (simp_all add: sizeof_defs)

lemma strcpy_s_name:
  assumes "terminated MAX_NAME_LEN name" and "length dst = MAX_NAME_LEN"
  shows "\<exists>r. strcpy_s dst name = Inr r \<and> terminated MAX_NAME_LEN r"
proof -
  from assms(1) obtain k where k: "strnlen name = Some k" "k < MAX_NAME_LEN" by (rule terminated_strnlen)
  from strcpy_s_ok [OF k(1), of dst] k(2) assms(2) obtain r where r: "strcpy_s dst name = Inr r" by auto
  from strcpy_s_terminated_array [OF r] r assms(2) show ?thesis by auto
qed

lemma fine_modify:
  assumes ok: "world_ok env w" and a: "a \<in> dom (sessions w)"
    and f: "\<And>s. session_ok s \<Longrightarrow> session_ok (f s)"
      "\<And>s. mRefCount (f s) = mRefCount s" "\<And>s. mSocket (f s) = mSocket s"
      "\<And>s. mOverlappedSend (f s) = mOverlappedSend s" "\<And>s. mOverlappedRecv (f s) = mOverlappedRecv s"
      "\<And>s. mRecvBuffer (f s) = mRecvBuffer s"
  shows "\<exists>w'. modify_session a f w = Inr w' \<and> fine env w w'"
proof -
  from ok a obtain s where s: "sessions w a = Some s" "session_ok s" by (rule live_session)
  then have "fine env w (set_session a (f s) w)" using f by (intro fine_set_session [OF ok]) auto
  with s show ?thesis by (auto simp: res_simps)
qed

lemma LoginDone_safe:
  assumes ok: "world_ok env w" and a: "a \<in> dom (sessions w)" and name: "terminated MAX_NAME_LEN name"
  shows "safe (fine env w) (LoginDone env a pid x y name w)"
proof -
  obtain w1 where w1: "modify_session a (\<lambda>s. s\<lparr>mPlayerId := pid, mPosX := x, mPosY := y\<rparr>) w = Inr w1"
    and 1: "fine env w w1"
    using fine_modify [OF ok a, of "\<lambda>s. s\<lparr>mPlayerId := pid, mPosX := x, mPosY := y\<rparr>"]
    by (auto simp: session_ok_def)
  from fine_ok [OF 1] fine_dom [OF 1 a] obtain s where
    s: "sessions w1 a = Some s" "get_session a w1 = Inr s" "session_ok s" by (rule live_session)
  from strcpy_s_name [OF name, of "mPlayerName s"] s(3) obtain n where
    n: "strcpy_s (mPlayerName s) name = Inr n" "terminated MAX_NAME_LEN n"
    by (auto simp: session_ok_def terminated_def)
  from strcpy_s_name [OF name, of "replicate MAX_NAME_LEN 0"] obtain n' where
    n': "strcpy_s (replicate MAX_NAME_LEN 0) name = Inr n'" "terminated MAX_NAME_LEN n'" by auto
  let ?w = "set_session a (s\<lparr>mPlayerName := n\<rparr>) w1"
  have "fine env w1 ?w"
    using s n by (intro fine_set_session [OF fine_ok [OF 1]]) (auto simp: session_ok_def)
  with 1 have 2: "fine env w ?w" by (rule fine_trans)
  have rest: "safe (fine env w) (rbind (SendRequest env a pkt ?w) (\<lambda>(_, w).
      rbind (modify_session a (\<lambda>s. s\<lparr>mLogon := True\<rparr>) w) (\<lambda>w.
      rbind (OnTick a w) (\<lambda>w. OnDbUpdate env a w))))" if pkt: "packet_fits pkt" for pkt
  proof (rule safe_bind [OF SendRequest_safe [OF fine_ok [OF 2] fine_dom [OF 2 a] pkt]], clarsimp)
    fix w3 assume "fine env ?w w3"
    with 2 have 3: "fine env w w3" by (rule fine_trans)
    obtain w4 where w4: "modify_session a (\<lambda>s. s\<lparr>mLogon := True\<rparr>) w3 = Inr w4" and "fine env w3 w4"
      using fine_modify [OF fine_ok [OF 3] fine_dom [OF 3 a], of "\<lambda>s. s\<lparr>mLogon := True\<rparr>"]
      by (auto simp: session_ok_def)
    with 3 have 4: "fine env w w4" by (blast intro: fine_trans)
    obtain w5 where w5: "OnTick a w4 = Inr w5" and "fine env w4 w5"
      using OnTick_safe [OF fine_ok [OF 4] fine_dom [OF 4 a]] by auto
    with 4 have 5: "fine env w w5" by (blast intro: fine_trans)
    from OnDbUpdate_safe [OF fine_ok [OF 5] fine_dom [OF 5 a]]
    have "safe (fine env w) (OnDbUpdate env a w5)" by (rule safe_mono) (rule fine_trans [OF 5])
    with w4 w5 show "safe (fine env w) (rbind (modify_session a (\<lambda>s. s\<lparr>mLogon := True\<rparr>) w3)
        (\<lambda>w. rbind (OnTick a w) (OnDbUpdate env a)))" by simp
  qed
  have "packet_fits (LoginResult_bytes (LoginResult_init u v\<lparr>ls_mPlayerId := pid, ls_mPosX := x,
      ls_mPosY := y, ls_mName := n'\<rparr>))" for u v
    by (rule packet_fits_LoginResult) (use n'(2) in \<open>simp_all add: LoginResult_init_def terminated_def\<close>)
  from rest [OF this] w1 s n n' show ?thesis
    by (simp add: LoginDone_def Let_def LoginResult_init_def)
qed

lemma DatabaseJobDone_safe:
  assumes ok: "world_ok env w" and s: "sessions w a = Some s" and key: "mSocket s = job_mSockKey j"
    and j: "job_ok j" "\<forall>c. j \<noteq> CreatePlayer c" "\<forall>c. j \<noteq> DeletePlayer c"
  shows "safe (fine env w) (DatabaseJobDone env a j w)"
proof -
  have a: "a \<in> dom (sessions w)" using s by auto
  from j(2,3) consider (load) c where "j = LoadPlayer c" | (update) c where "j = UpdatePlayer c"
    by (cases j) auto
  then show ?thesis
  proof cases
    case load
    with j(1) LoginDone_safe [OF ok a, of "load_mPlayerName c"] s key show ?thesis
      by (simp add: DatabaseJobDone_def get_session_def)
  next
    case update
    with s key fine_refl [OF ok] show ?thesis
      by (simp add: DatabaseJobDone_def UpdateDone_def get_session_def)
  qed
qed

section \<open>The client manager\<close>

lemma dispatch_result_safe:
  assumes ok: "world_ok env w" and j: "job_ok j"
  shows "safe (fine env w) (dispatch_result env j w)"
proof -
  have client: "safe (fine env w) (case map_of (mClientList w) (job_mSockKey j) of None \<Rightarrow> Inr w
      | Some client \<Rightarrow> rbind (IsConnected client w) (\<lambda>connected.
          if connected then DatabaseJobDone env client j w else Inr w))"
    if "\<forall>c. j \<noteq> CreatePlayer c" "\<forall>c. j \<noteq> DeletePlayer c"
  proof (cases "map_of (mClientList w) (job_mSockKey j)")
    case None
    with fine_refl [OF ok] show ?thesis by simp
  next
    case (Some a)
    then have "(job_mSockKey j, a) \<in> set (mClientList w)" by (rule map_of_SomeD)
    with ok have "client_ok w (job_mSockKey j, a)" unfolding world_ok_def by blast
    then obtain s where s: "sessions w a = Some s" "mSocket s = job_mSockKey j"
      by (auto simp: client_ok_def)
    from DatabaseJobDone_safe [OF ok s j that] Some s fine_refl [OF ok] show ?thesis
      by (simp add: IsConnected_def get_session_def)
  qed
  have "safe (fine env w) (CreatePlayerDone c w)" if "j = CreatePlayer c" for c
    using j that fine_refl [OF ok]
    by (auto simp: CreatePlayerDone_def elim!: terminated_strnlen dest!: strlen_ok)
  with client fine_refl [OF ok] show ?thesis
    by (auto simp: dispatch_result_def DeletePlayerDone_def split: job.split)
qed

text \<open>The loop of \<open>DispatchDatabaseJobResults\<close> ends: it takes one result per turn and adds none.\<close>

lemma Dispatch_turn:
  assumes ok: "world_ok env w"
  shows "PopDatabaseJobResult (LThreadType w) (GDatabaseJobManager w) = Inr (None, GDatabaseJobManager w) \<or>
    (\<exists>j m. PopDatabaseJobResult (LThreadType w) (GDatabaseJobManager w) = Inr (Some j, m) \<and> job_ok j \<and>
      world_ok env (w\<lparr>GDatabaseJobManager := m\<rparr>) \<and>
      items MAX_DB_JOB (mDbJobResultQueue (GDatabaseJobManager w)) = j # items MAX_DB_JOB (mDbJobResultQueue m))"
proof -
  let ?m = "GDatabaseJobManager w"
  from world_ok_pending(7,8) [OF ok] have m: "pcq_ok MAX_DB_JOB (mDbJobResultQueue ?m)" "manager_ok ?m"
    "LThreadType w = THREAD_CLIENT" by (simp_all add: manager_ok_def)
  from m(1) show ?thesis
  proof (cases rule: pcq.get_cases [where w = False])
    case (taken j q)
    have "manager_ok (?m\<lparr>mDbJobResultQueue := q\<rparr>)" "job_ok j"
      using m(2) taken by (auto simp: manager_ok_def)
    moreover from this(1) have "world_ok env (w\<lparr>GDatabaseJobManager := ?m\<lparr>mDbJobResultQueue := q\<rparr>\<rparr>)"
      using ok by (simp add: world_ok_def client_ok_def recv_ok_def send_ok_def task_ok_def refs_def)
    ultimately show ?thesis using taken m(3) by (auto simp: PopDatabaseJobResult_def)
  next
    case empty
    with m(3) show ?thesis by (simp add: PopDatabaseJobResult_def)
  qed
qed

lemma DispatchDatabaseJobResults_ends:
  assumes "world_ok env w"
  shows "\<exists>r. DispatchDatabaseJobResults env w = Some r \<and> safe (world_ok env) r"
  using assms
proof (induction "length (items MAX_DB_JOB (mDbJobResultQueue (GDatabaseJobManager w)))" arbitrary: w
    rule: less_induct)
  case less
  from Dispatch_turn [OF less.prems] show ?case
  proof (elim disjE exE conjE)
    assume "PopDatabaseJobResult (LThreadType w) (GDatabaseJobManager w) = Inr (None, GDatabaseJobManager w)"
    then show ?thesis using less.prems by (subst DispatchDatabaseJobResults.simps) simp
  next
    fix j m
    assume pop: "PopDatabaseJobResult (LThreadType w) (GDatabaseJobManager w) = Inr (Some j, m)"
      and j: "job_ok j" and ok: "world_ok env (w\<lparr>GDatabaseJobManager := m\<rparr>)"
      and its: "items MAX_DB_JOB (mDbJobResultQueue (GDatabaseJobManager w)) = j # items MAX_DB_JOB (mDbJobResultQueue m)"
    let ?w = "w\<lparr>GDatabaseJobManager := m\<rparr>"
    note d = dispatch_result_safe [OF ok j]
    show ?thesis
    proof (cases "dispatch_result env j ?w")
      case (Inl e)
      with d pop show ?thesis by (subst DispatchDatabaseJobResults.simps) auto
    next
      case (Inr w')
      with d have "fine env ?w w'" by simp
      with its less.hyps [of w'] have "\<exists>r. DispatchDatabaseJobResults env w' = Some r \<and> safe (world_ok env) r"
        by (simp add: fine_def keeps_def)
      with pop Inr show ?thesis by (subst DispatchDatabaseJobResults.simps) simp
    qed
  qed
qed

section \<open>Garbage collection\<close>

lemma refs_zero:
  assumes "refs w a = 0"
  shows "op \<in> set (pending_recv w) \<Longrightarrow> io_session op \<noteq> a" "op \<in> set (pending_send w) \<Longrightarrow> io_session op \<noteq> a"
    "j \<in> set (mTaskQueue w) \<Longrightarrow> mOwner j \<noteq> a"
proof -
  from assms have "filter (\<lambda>op. io_session op = a) (pending_recv w) = []"
    "filter (\<lambda>op. io_session op = a) (pending_send w) = []"
    "set_mset (filter_mset (\<lambda>j. mOwner j = a) (mset (mTaskQueue w))) = {}" by (simp_all add: refs_def)
  then show "op \<in> set (pending_recv w) \<Longrightarrow> io_session op \<noteq> a" "op \<in> set (pending_send w) \<Longrightarrow> io_session op \<noteq> a"
    "j \<in> set (mTaskQueue w) \<Longrightarrow> mOwner j \<noteq> a"
    by (auto simp: filter_empty_conv)
qed

lemma delete_session_safe:
  assumes ok: "world_ok env w" and s: "sessions w a = Some s" and zero: "mRefCount s = 0"
  shows "\<exists>w'. delete_session a w = Inr w' \<and> world_ok env w' \<and> sessions w' = (sessions w)(a := None) \<and>
    mClientList w' = map_erase (mSocket s) (mClientList w)"
proof -
  have pool: "pool_ok (sizeof_ClientSession env) (dom (sessions w)) (mPool w)"
    using ok by (simp add: world_ok_def)
  from operator_delete_ok [OF pool, of a] s obtain p where p: "operator_delete a (mPool w) = Inr p"
    "pool_ok (sizeof_ClientSession env) (dom (sessions w) - {a}) p" by auto
  let ?w = "w\<lparr>mClientList := map_erase (mSocket s) (mClientList w), mPool := p,
    sessions := (sessions w)(a := None)\<rparr>"
  from world_ok_session [OF ok s] zero have r0: "refs w a = 0" by simp
  note unused = refs_zero [OF r0]
  have refs: "refs ?w b = refs w b" for b by (rule refs_cong) simp_all
  have dom: "dom (sessions ?w) = dom (sessions w) - {a}" by auto
  have "\<forall>e \<in> set (mClientList ?w). client_ok ?w e"
  proof
    fix e assume "e \<in> set (mClientList ?w)"
    then have e: "e \<in> set (mClientList w)" "fst e \<noteq> mSocket s" by auto
    from ok e(1) have "client_ok w e" by (simp add: world_ok_def)
    with e(2) s show "client_ok ?w e" by (auto simp: client_ok_def)
  qed
  moreover have "\<forall>op \<in> set (pending_recv ?w). recv_ok ?w op"
    using world_ok_pending(1) [OF ok] unused(1) by (simp add: recv_ok_def)
  moreover have "\<forall>op \<in> set (pending_send ?w). send_ok ?w op"
    using world_ok_pending(2) [OF ok] unused(2) by (simp add: send_ok_def)
  moreover have "\<forall>j \<in> set (mTaskQueue ?w). task_ok ?w j"
    using world_ok_pending(3) [OF ok] unused(3) dom by (simp add: task_ok_def)
  moreover have "\<forall>b t. sessions ?w b = Some t \<longrightarrow> session_ok t \<and> mRefCount t = int (refs ?w b)"
  proof (intro allI impI)
    fix b t assume "sessions ?w b = Some t"
    then have "sessions w b = Some t" by (simp split: if_splits)
    from world_ok_session [OF ok this] refs show "session_ok t \<and> mRefCount t = int (refs ?w b)" by simp
  qed
  ultimately have "world_ok env ?w"
    using ok p(2) dom map_ok_erase [OF world_ok_pending(6) [OF ok]] by (simp add: world_ok_def)
  moreover have "delete_session a w = Inr ?w"
    using s p(1) by (simp add: delete_session_def GetSocketKey_def get_session_def Let_def)
  ultimately show ?thesis by (intro exI [of _ ?w]) simp
qed

definition collectable :: "world \<Rightarrow> nat \<Rightarrow> bool" where
  "collectable w a \<longleftrightarrow> (\<exists>s. sessions w a = Some s \<and> \<not> mConnected s \<and> mRefCount s = 0)"

lemma disconnectedSessions_eq:
  assumes ok: "world_ok env w" and "\<forall>e \<in> set it. snd e \<in> dom (sessions w)"
  shows "disconnectedSessions it w = Inr (filter (collectable w) (map snd it))"
  using assms(2)
proof (induction it)
  case (Cons e it)
  then obtain sock a s where e: "e = (sock, a)" "sessions w a = Some s" by (cases e) auto
  with Cons show ?case
    by (simp add: IsConnected_def GetRefCount_def get_session_def collectable_def)
qed simp

lemma delete_sessions_safe:
  assumes "world_ok env w" and "\<forall>a \<in> set cs. collectable w a" and "distinct cs"
  shows "\<exists>w'. delete_sessions cs w = Inr w' \<and> world_ok env w' \<and>
    sessions w' = (\<lambda>a. if a \<in> set cs then None else sessions w a) \<and>
    set (mClientList w') = {e \<in> set (mClientList w). \<forall>a \<in> set cs. \<forall>s. sessions w a = Some s \<longrightarrow> fst e \<noteq> mSocket s}"
  using assms
proof (induction cs arbitrary: w)
  case Nil
  then show ?case by simp
next
  case (Cons a cs)
  then obtain s where s: "sessions w a = Some s" "mRefCount s = 0" by (auto simp: collectable_def)
  from delete_session_safe [OF Cons.prems(1) s] obtain w1 where w1: "delete_session a w = Inr w1"
    "world_ok env w1" "sessions w1 = (sessions w)(a := None)"
    "mClientList w1 = map_erase (mSocket s) (mClientList w)" by blast
  have "\<forall>b \<in> set cs. collectable w1 b" using Cons.prems(2,3) w1(3) by (auto simp: collectable_def)
  from Cons.IH [OF w1(2) this] Cons.prems(3) obtain w2 where w2: "delete_sessions cs w1 = Inr w2" "world_ok env w2"
    "sessions w2 = (\<lambda>b. if b \<in> set cs then None else sessions w1 b)"
    "set (mClientList w2) = {e \<in> set (mClientList w1). \<forall>a \<in> set cs. \<forall>s. sessions w1 a = Some s \<longrightarrow> fst e \<noteq> mSocket s}"
    by auto
  have "sessions w2 = (\<lambda>b. if b \<in> set (a # cs) then None else sessions w b)"
    using w2(3) w1(3) by (auto simp: fun_eq_iff)
  moreover have "set (mClientList w2) = {e \<in> set (mClientList w).
      \<forall>b \<in> set (a # cs). \<forall>t. sessions w b = Some t \<longrightarrow> fst e \<noteq> mSocket t}"
    using w2(4) w1(3,4) s Cons.prems(3) by auto
  ultimately show ?case using w1(1) w2(1,2) by auto
qed

lemma client_entry:
  assumes "world_ok env w" and "(sock, a) \<in> set (mClientList w)"
  obtains s where "sessions w a = Some s" "mSocket s = sock"
  using assms unfolding world_ok_def client_ok_def by fastforce

lemma distinct_clients: "world_ok env w \<Longrightarrow> distinct (map snd (mClientList w))"
proof -
  assume ok: "world_ok env w"
  from world_ok_pending(6) [OF ok] have d: "distinct (map fst (mClientList w))" by (simp add: map_ok_def)
  then have "distinct (mClientList w)" by (simp add: distinct_map)
  moreover have "inj_on snd (set (mClientList w))"
  proof (rule inj_onI)
    fix e f assume "e \<in> set (mClientList w)" "f \<in> set (mClientList w)" "snd e = snd f"
    then show "e = f" using client_entry [OF ok, of "fst e" "snd e"] client_entry [OF ok, of "fst f" "snd f"]
      by (metis option.inject prod.collapse)
  qed
  ultimately show ?thesis by (simp add: distinct_map)
qed

lemma CollectGarbageSessions_spec:
  assumes ok: "world_ok env w"
  shows "\<exists>w'. CollectGarbageSessions w = Inr w' \<and> world_ok env w' \<and>
    sessions w' = (\<lambda>a. if a \<in> snd ` set (mClientList w) \<and> collectable w a then None else sessions w a) \<and>
    set (mClientList w') = {e \<in> set (mClientList w). \<not> collectable w (snd e)}"
proof -
  let ?cs = "filter (collectable w) (map snd (mClientList w))"
  have "disconnectedSessions (mClientList w) w = Inr ?cs"
    by (rule disconnectedSessions_eq [OF ok]) (use world_ok_clients [OF ok] in blast)
  moreover have "distinct ?cs" using distinct_clients [OF ok] by simp
  with delete_sessions_safe [OF ok, of ?cs] obtain w' where w': "delete_sessions ?cs w = Inr w'" "world_ok env w'"
    "sessions w' = (\<lambda>a. if a \<in> set ?cs then None else sessions w a)"
    "set (mClientList w') = {e \<in> set (mClientList w). \<forall>a \<in> set ?cs. \<forall>s. sessions w a = Some s \<longrightarrow> fst e \<noteq> mSocket s}"
    by (auto simp del: distinct_filter)
  have same: "(\<forall>a \<in> set ?cs. \<forall>s. sessions w a = Some s \<longrightarrow> fst e \<noteq> mSocket s) \<longleftrightarrow> \<not> collectable w (snd e)"
    if e: "e \<in> set (mClientList w)" for e
  proof -
    obtain sock b where eq: "e = (sock, b)" by (cases e)
    from client_entry [OF ok e [unfolded eq]] obtain t where t: "sessions w b = Some t" "mSocket t = sock" .
    have "a = b" if a: "(sock', a) \<in> set (mClientList w)" "sessions w a = Some s" "mSocket s = sock" for a s sock'
    proof -
      from client_entry [OF ok a(1)] a(2,3) have "sock' = sock" by auto
      with a(1) e eq world_ok_pending(6) [OF ok] show "a = b" by (auto simp: map_ok_def dest: eq_key_imp_eq_value)
    qed
    note only = this
    show ?thesis
    proof
      assume "\<forall>a \<in> set ?cs. \<forall>s. sessions w a = Some s \<longrightarrow> fst e \<noteq> mSocket s"
      with e eq t show "\<not> collectable w (snd e)" by force
    next
      assume no: "\<not> collectable w (snd e)"
      show "\<forall>a \<in> set ?cs. \<forall>s. sessions w a = Some s \<longrightarrow> fst e \<noteq> mSocket s"
      proof (intro ballI allI impI notI)
        fix a s assume a: "a \<in> set ?cs" "sessions w a = Some s" "fst e = mSocket s"
        then obtain sock' where "(sock', a) \<in> set (mClientList w)" by auto
        from only [OF this a(2)] a(3) eq have "a = b" by simp
        with a(1) no eq show False by simp
      qed
    qed
  qed
  have "set (mClientList w') = {e \<in> set (mClientList w). \<not> collectable w (snd e)}"
    unfolding w'(4) using same by blast
  moreover have "sessions w' = (\<lambda>a. if a \<in> snd ` set (mClientList w) \<and> collectable w a then None else sessions w a)"
    using w'(3) by (simp add: fun_eq_iff conj_commute)
  moreover have "CollectGarbageSessions w = Inr w'"
    using w'(1) calculation by (simp add: CollectGarbageSessions_def \<open>disconnectedSessions _ _ = _\<close>)
  ultimately show ?thesis using w'(2) by blast
qed

lemma fine_cong_ok:
  "world_ok env w \<Longrightarrow> world_ok env (w\<lparr>mLastGCTick := t\<rparr>)"
  by (erule fine_ok [OF fine_cong]) simp_all

lemma OnPeriodWork_ends:
  assumes ok: "world_ok env w"
  shows "\<exists>r. OnPeriodWork env w = Some r \<and> safe (world_ok env) r"
proof -
  note 1 = fine_ok [OF fine_sys_call [OF ok]]
  from CollectGarbageSessions_spec [OF 1] obtain w' where
    "CollectGarbageSessions (sys_call w) = Inr w'" "world_ok env w'" by blast
  with 1 DispatchDatabaseJobResults_ends [of env "sys_call w"]
    DispatchDatabaseJobResults_ends [OF fine_cong_ok, of env w' "os_GetTickCount env (calls w)"]
  show ?thesis by (simp add: OnPeriodWork_def Let_def)
qed

section \<open>Flushing and new connections\<close>

lemma Disconnect_ok:
  "world_ok env w \<Longrightarrow> a \<in> dom (sessions w) \<Longrightarrow>
     safe (\<lambda>w'. world_ok env w' \<and> dom (sessions w') = dom (sessions w)) (Disconnect env a w)"
  by (rule safe_mono [OF Disconnect_safe]) (auto simp: fine_def keeps_def)

lemma FlushClientSend_loop_safe:
  assumes "world_ok env w" and "\<forall>e \<in> set it. snd e \<in> dom (sessions w)"
  shows "safe (\<lambda>w'. world_ok env w' \<and> dom (sessions w') = dom (sessions w)) (FlushClientSend_loop env it w)"
  using assms
proof (induction it arbitrary: w)
  case (Cons e it)
  obtain sock a where e: "e = (sock, a)" by (cases e)
  with Cons.prems have a: "a \<in> dom (sessions w)" by simp
  have "safe (\<lambda>w'. world_ok env w' \<and> dom (sessions w') = dom (sessions w))
    (rbind (SendFlush env a w) (\<lambda>(ok, w). rbind (if \<not> ok then Disconnect env a w else Inr w)
      (\<lambda>w. FlushClientSend_loop env it w)))"
  proof (rule safe_bind [OF SendFlush_safe [OF Cons.prems(1) a]])
    fix r :: "bool \<times> world" assume r: "case r of (b, w') \<Rightarrow> world_ok env w' \<and> same_base w w' \<and> pending_recv w' = pending_recv w"
    obtain ok w1 where ow: "r = (ok, w1)" by (cases r)
    with r have 1: "world_ok env w1" "same_base w w1" by simp_all
    then have d1: "dom (sessions w1) = dom (sessions w)" by (simp add: same_base_def)
    have "safe (\<lambda>w'. world_ok env w' \<and> dom (sessions w') = dom (sessions w))
        (if \<not> ok then Disconnect env a w1 else Inr w1)"
      using Disconnect_ok [OF 1(1), of a] a d1 1(1) by (simp split: if_split)
    then have "safe (\<lambda>w'. world_ok env w' \<and> dom (sessions w') = dom (sessions w))
        (rbind (if \<not> ok then Disconnect env a w1 else Inr w1) (\<lambda>w. FlushClientSend_loop env it w))"
    proof (rule safe_bind)
      fix w2 assume 2: "world_ok env w2 \<and> dom (sessions w2) = dom (sessions w)"
      with Cons.prems Cons.IH [of w2] show "safe (\<lambda>w'. world_ok env w' \<and> dom (sessions w') = dom (sessions w))
          (FlushClientSend_loop env it w2)" by simp
    qed
    with ow show "safe (\<lambda>w'. world_ok env w' \<and> dom (sessions w') = dom (sessions w))
        (case r of (ok, w) \<Rightarrow> rbind (if \<not> ok then Disconnect env a w else Inr w)
          (\<lambda>w. FlushClientSend_loop env it w))" by simp
  qed
  with e show ?case by simp
qed simp

lemma FlushClientSend_safe: "world_ok env w \<Longrightarrow> safe (world_ok env) (FlushClientSend env w)"
  unfolding FlushClientSend_def
  by (rule safe_mono [OF FlushClientSend_loop_safe]) (auto dest: world_ok_clients)

text \<open>The environment: objects have a size, and a new block does not overlap a live object.\<close>

definition env_ok :: "environment \<Rightarrow> bool" where
  "env_ok env \<longleftrightarrow> 0 < sizeof_ClientSession env \<and>
     (\<forall>A. finite A \<longrightarrow> block_fresh (sizeof_ClientSession env) ALLOC_COUNT A (new_block env A))"

lemma ClientSession_new_ok: "session_ok (ClientSession_new junk sock)"
proof -
  have "cb_ok (CircularBuffer junk BUFSIZE)" by (rule CircularBuffer_ok) (simp add: BUFSIZE_def)
  then show ?thesis
    by (simp add: session_ok_def ClientSession_new_def terminated_def MAX_NAME_LEN_def CircularBuffer_def)
qed

lemma refs_dead:
  assumes ok: "world_ok env w" and a: "a \<notin> dom (sessions w)"
  shows "refs w a = 0"
proof -
  have "io_session op \<noteq> a" if "op \<in> set (pending_recv w)" for op
    using world_ok_pending(1) [OF ok that] a by (auto simp: recv_ok_def)
  moreover have "io_session op \<noteq> a" if "op \<in> set (pending_send w)" for op
    using world_ok_pending(2) [OF ok that] a by (auto simp: send_ok_def)
  moreover have "mOwner j \<noteq> a" if "j \<in> set (mTaskQueue w)" for j
    using world_ok_pending(3) [OF ok that] a by (auto simp: task_ok_def)
  ultimately show ?thesis by (simp add: refs_def filter_empty_conv)
qed

lemma world_ok_new_session:
  assumes ok: "world_ok env w" and a: "a \<notin> dom (sessions w)" "pool_ok (sizeof_ClientSession env) (insert a (dom (sessions w))) p"
  shows "world_ok env (w\<lparr>mPool := p, sessions := (sessions w)(a \<mapsto> ClientSession_new junk sock),
    mClientList := map_insert sock a (mClientList w)\<rparr>)"
proof -
  let ?s = "ClientSession_new junk sock"
  let ?w = "w\<lparr>mPool := p, sessions := (sessions w)(a \<mapsto> ?s), mClientList := map_insert sock a (mClientList w)\<rparr>"
  have refs: "refs ?w b = refs w b" for b by (rule refs_cong) simp_all
  have old: "client_ok ?w e" if "e \<in> set (mClientList w)" for e
  proof -
    from client_entry [OF ok, of "fst e" "snd e"] that obtain t where "sessions w (snd e) = Some t" "mSocket t = fst e"
      by auto
    with a(1) show ?thesis by (auto simp: client_ok_def)
  qed
  have "client_ok ?w e" if "e \<in> set (mClientList ?w)" for e
  proof (cases "sock \<in> fst ` set (mClientList w)")
    case True
    with that map_insert_present [OF world_ok_pending(6) [OF ok]] have "e \<in> set (mClientList w)" by simp
    then show ?thesis by (rule old)
  next
    case False
    with that have "e = (sock, a) \<or> e \<in> set (mClientList w)" by (simp add: set_map_insert_fresh)
    moreover have "client_ok ?w (sock, a)" by (simp add: client_ok_def ClientSession_new_def)
    ultimately show ?thesis using old by blast
  qed
  moreover have "recv_ok ?w op" if "op \<in> set (pending_recv w)" for op
    using world_ok_pending(1) [OF ok that] a(1) by (auto simp: recv_ok_def)
  moreover have "send_ok ?w op" if "op \<in> set (pending_send w)" for op
    using world_ok_pending(2) [OF ok that] a(1) by (auto simp: send_ok_def)
  moreover have "task_ok ?w j" if "j \<in> set (mTaskQueue w)" for j
    using world_ok_pending(3) [OF ok that] by (auto simp: task_ok_def)
  moreover have "\<forall>b t. sessions ?w b = Some t \<longrightarrow> session_ok t \<and> mRefCount t = int (refs ?w b)"
  proof (intro allI impI)
    fix b t assume "sessions ?w b = Some t"
    then show "session_ok t \<and> mRefCount t = int (refs ?w b)"
      using refs world_ok_session [OF ok, of b] refs_dead [OF ok a(1)] ClientSession_new_ok
      by (cases "b = a") (auto simp: ClientSession_new_def)
  qed
  ultimately show ?thesis
    using ok a(2) map_ok_insert [OF world_ok_pending(6) [OF ok]] by (simp add: world_ok_def)
qed

lemma CreateClient_ok:
  assumes ok: "world_ok env w" and env: "env_ok env"
  shows "\<exists>a w'. CreateClient env sock w = Inr (a, w') \<and> world_ok env w' \<and> a \<notin> dom (sessions w) \<and>
    sessions w' = (sessions w)(a \<mapsto> ClientSession_new (fresh_memory env) sock) \<and>
    mClientList w' = map_insert sock a (mClientList w) \<and> no_recv w' a"
proof -
  have pool: "pool_ok (sizeof_ClientSession env) (dom (sessions w)) (mPool w)"
    using ok by (simp add: world_ok_def)
  have fresh: "block_fresh (sizeof_ClientSession env) ALLOC_COUNT (dom (sessions w)) (new_block env (dom (sessions w)))"
    using env pool_ok_counts(3) [OF pool] by (simp add: env_ok_def)
  from operator_new_ok [OF pool _ _ fresh] env obtain a p where
    a: "operator_new (sizeof_ClientSession env) ALLOC_COUNT (new_block env (dom (sessions w))) (mPool w) = Inr (a, p)"
    "a \<notin> dom (sessions w)" "pool_ok (sizeof_ClientSession env) (insert a (dom (sessions w))) p"
    by (auto simp: env_ok_def ALLOC_COUNT_def)
  let ?w = "w\<lparr>mPool := p, sessions := (sessions w)(a \<mapsto> ClientSession_new (fresh_memory env) sock),
    mClientList := map_insert sock a (mClientList w)\<rparr>"
  from world_ok_new_session [OF ok a(2,3)] have "world_ok env ?w" .
  moreover have "CreateClient env sock w = Inr (a, ?w)"
    using a(1) world_ok_pending(7) [OF ok] by (simp add: CreateClient_def)
  moreover have "no_recv ?w a"
    using world_ok_pending(1) [OF ok] a(2) by (force simp: no_recv_def recv_ok_def)
  ultimately show ?thesis using a(2) by (intro exI [of _ a] exI [of _ ?w]) simp
qed

lemma OnConnect_safe:
  assumes ok: "world_ok env w" and a: "a \<in> dom (sessions w)" and no: "no_recv w a"
  shows "safe (\<lambda>(b, w'). world_ok env w' \<and> dom (sessions w') = dom (sessions w)) (OnConnect env a addr w)"
proof -
  obtain w1 where w1: "modify_session a (\<lambda>s. s\<lparr>mClientAddr := addr\<rparr>) w = Inr w1" and 1: "fine env w w1"
    using fine_modify [OF ok a, of "\<lambda>s. s\<lparr>mClientAddr := addr\<rparr>"] by (auto simp: session_ok_def)
  obtain w2 where w2: "modify_session a (\<lambda>s. s\<lparr>mConnected := True\<rparr>) w1 = Inr w2" and "fine env w1 w2"
    using fine_modify [OF fine_ok [OF 1] fine_dom [OF 1 a], of "\<lambda>s. s\<lparr>mConnected := True\<rparr>"]
    by (auto simp: session_ok_def)
  with 1 have 2: "fine env w w2" by (blast intro: fine_trans)
  then have no2: "no_recv w2 a" using no by (simp add: no_recv_def fine_def keeps_def)
  have "dom (sessions w2) = dom (sessions w)" using 2 by (simp add: fine_def keeps_def)
  with w1 w2 PostRecv_safe [OF fine_ok [OF 2] fine_dom [OF 2 a] no2] show ?thesis
    by (auto simp: OnConnect_def same_base_def elim!: safe_mono)
qed

lemma HandleAccept_safe:
  assumes ok: "world_ok env w" and env: "env_ok env"
  shows "safe (world_ok env) (HandleAccept env sock w)"
proof -
  from CreateClient_ok [OF assms, of sock] obtain a w1 where w1: "CreateClient env sock w = Inr (a, w1)"
    "world_ok env w1" "a \<in> dom (sessions w1)" "no_recv w1 a" by auto
  note 2 = fine_ok [OF fine_sys_call [OF w1(2)]]
  have "safe (world_ok env) (rbind (OnConnect env a addr (sys_call w1))
      (\<lambda>(ok, w). if \<not> ok then Disconnect env a w else Inr w))" for addr
  proof (rule safe_bind [OF OnConnect_safe [OF 2]])
    fix r :: "bool \<times> world"
    assume r: "case r of (b, w') \<Rightarrow> world_ok env w' \<and> dom (sessions w') = dom (sessions (sys_call w1))"
    with w1(3) Disconnect_safe [of env "snd r" a]
    show "safe (world_ok env) (case r of (ok, w) \<Rightarrow> if \<not> ok then Disconnect env a w else Inr w)"
      by (auto elim!: safe_mono dest: fine_ok split: prod.splits)
  qed (use w1 in \<open>simp_all add: no_recv_def\<close>)
  with w1(1) show ?thesis by (simp add: HandleAccept_def Let_def)
qed

section \<open>Reading\<close>

lemma no_recv_fine: "no_recv w a \<Longrightarrow> fine env w w' \<Longrightarrow> no_recv w' a"
  by (simp add: no_recv_def fine_def keeps_def)

lemma ParsePacket_safe:
  assumes ok: "world_ok env w" and a: "a \<in> dom (sessions w)" and no: "no_recv w a"
  shows "\<exists>pkt w'. ParsePacket a n w = Inr (pkt, w') \<and> fine env w w' \<and>
    (\<forall>bs. pkt = Some bs \<longrightarrow> length bs = sz_of_short n)"
proof -
  from ok a obtain s where s: "sessions w a = Some s" "get_session a w = Inr s" "session_ok s"
    by (rule live_session)
  from s(3) have cb: "cb_ok (mRecvBuffer s)" by (simp add: session_ok_def)
  obtain pkt rb where "Read (mRecvBuffer s) (sz_of_short n) = Inr (pkt, rb)" "cb_ok rb"
    "length (mBuffer rb) = length (mBuffer (mRecvBuffer s))" "\<forall>bs. pkt = Some bs \<longrightarrow> length bs = sz_of_short n"
  proof (cases "sz_of_short n \<le> length (contents (mRecvBuffer s))")
    case True
    with that Read_contents [OF cb True] show ?thesis by auto
  next
    case False
    with that Read_false [OF cb] cb show ?thesis by auto
  qed
  moreover from this s have "fine env w (set_session a (s\<lparr>mRecvBuffer := rb\<rparr>) w)"
    using ok no by (intro fine_set_session) (auto simp: session_ok_def)
  ultimately show ?thesis using s by (auto simp: ParsePacket_def)
qed

lemma after_Broadcast:
  assumes ok: "world_ok env w" and a: "a \<in> dom (sessions w)" and pkt: "packet_fits pkt"
  shows "safe (fine env w) (rbind (Broadcast env a pkt w)
    (\<lambda>(ok, w). if \<not> ok then Disconnect env a w else Inr w))"
proof (rule safe_bind [OF Broadcast_safe [OF assms]])
  fix r :: "bool \<times> world" assume r: "case r of (b, w') \<Rightarrow> fine env w w'"
  obtain b w1 where bw: "r = (b, w1)" by (cases r)
  with r have 1: "fine env w w1" by simp
  have "safe (fine env w) (Disconnect env a w1)"
    by (rule safe_mono [OF Disconnect_safe [OF fine_ok [OF 1] fine_dom [OF 1 a]]]) (rule fine_trans [OF 1])
  with bw 1 show "safe (fine env w) (case r of (ok, w) \<Rightarrow> if \<not> ok then Disconnect env a w else Inr w)"
    by simp
qed

lemma Handler_PKT_CS_LOGIN_safe:
  assumes ok: "world_ok env w" and a: "a \<in> dom (sessions w)" and no: "no_recv w a"
  shows "safe (fine env w) (Handler_PKT_CS_LOGIN env a w)"
proof -
  from ParsePacket_safe [OF assms, of "mSize LoginRequest_init"] obtain pkt w1 where
    p: "ParsePacket a (mSize LoginRequest_init) w = Inr (pkt, w1)" and 1: "fine env w w1" by blast
  from fine_ok [OF 1] fine_dom [OF 1 a] obtain s where s: "get_session a w1 = Inr s" by (rule live_session)
  have "safe (fine env w) (PushJob (LoadPlayer (LoadPlayerDataContext_new key pid)) w1)" for key pid
    by (rule safe_mono [OF PushJob_safe [OF fine_ok [OF 1]] fine_trans [OF 1]])
      (simp add: LoadPlayerDataContext_new_def terminated_def MAX_NAME_LEN_def)
  with p s 1 show ?thesis
    by (auto simp: Handler_PKT_CS_LOGIN_def GetSocketKey_def Let_def split: option.split)
qed

lemma strcpy_s_chat:
  "strcpy_s dst src = Inl e \<Longrightarrow> length dst \<le> length src \<Longrightarrow> e = InvalidParameter"
  by (auto simp: strcpy_s_def split: option.splits if_splits)

lemma Handler_PKT_CS_CHAT_safe:
  assumes ok: "world_ok env w" and a: "a \<in> dom (sessions w)" and no: "no_recv w a"
  shows "safe (fine env w) (Handler_PKT_CS_CHAT env a w)"
proof -
  from ParsePacket_safe [OF assms, of "mSize ChatBroadcastRequest_init"] obtain pkt w1 where
    p: "ParsePacket a (mSize ChatBroadcastRequest_init) w = Inr (pkt, w1)" and 1: "fine env w w1"
    and len: "\<And>bs. pkt = Some bs \<Longrightarrow> length bs = sz_of_short (mSize ChatBroadcastRequest_init)" by blast
  from fine_ok [OF 1] fine_dom [OF 1 a] obtain s where s: "get_session a w1 = Inr s" "session_ok s"
    by (rule live_session)
  from strcpy_s_name [of "mPlayerName s" "replicate MAX_NAME_LEN 0"] s(2) obtain n where
    n: "strcpy_s (replicate MAX_NAME_LEN 0) (mPlayerName s) = Inr n" "terminated MAX_NAME_LEN n"
    by (auto simp: session_ok_def)
  have chat: "safe (fine env w) (rbind (strcpy_s (replicate MAX_CHAT_LEN 0) msg) (\<lambda>outChat.
      rbind (Broadcast env a (ChatBroadcastResult_bytes
        (ChatBroadcastResult_init\<lparr>cs_mPlayerId := i, cs_mName := n, cs_mChat := outChat\<rparr>)) w1)
      (\<lambda>(ok, w). if \<not> ok then Disconnect env a w else Inr w)))" if t: "length msg = MAX_CHAT_LEN" for msg i
  proof (cases "strcpy_s (replicate MAX_CHAT_LEN 0) msg")
    case (Inl e)
    with strcpy_s_chat [OF Inl] t show ?thesis by simp
  next
    case (Inr c)
    have "packet_fits (ChatBroadcastResult_bytes
        (ChatBroadcastResult_init\<lparr>cs_mPlayerId := i, cs_mName := n, cs_mChat := c\<rparr>))"
      using strcpy_s_length [OF Inr] n(2)
      by (intro packet_fits_ChatBroadcastResult) (simp_all add: ChatBroadcastResult_init_def terminated_def)
    from after_Broadcast [OF fine_ok [OF 1] fine_dom [OF 1 a] this] Inr show ?thesis
      by (auto elim!: safe_mono intro: fine_trans [OF 1])
  qed
  have chatlen: "length (cr_mChat (ChatBroadcastRequest_at bs)) = MAX_CHAT_LEN" if "pkt = Some bs" for bs
  proof -
    have "length bs = sz_of_short 264"
      using len [OF that] by (simp add: ChatBroadcastRequest_init_def sizeof_defs)
    then have "length bs = 264" by (simp add: sz_of_short_nonneg)
    then show ?thesis by (simp add: ChatBroadcastRequest_at_def sizeof_defs)
  qed
  from p s n 1 chat [OF chatlen] show ?thesis
    by (auto simp: Handler_PKT_CS_CHAT_def GetPlayerId_def GetPlayerName_def Let_def
        ChatBroadcastResult_init_def split: option.split)
qed

lemma Handler_PKT_CS_MOVE_safe:
  assumes ok: "world_ok env w" and a: "a \<in> dom (sessions w)" and no: "no_recv w a"
  shows "safe (fine env w) (Handler_PKT_CS_MOVE env a w)"
proof -
  from ParsePacket_safe [OF assms, of "mSize MoveRequest_init"] obtain pkt w1 where
    p: "ParsePacket a (mSize MoveRequest_init) w = Inr (pkt, w1)" and 1: "fine env w w1" by blast
  from fine_ok [OF 1] fine_dom [OF 1 a] obtain s where s: "get_session a w1 = Inr s" by (rule live_session)
  have move: "safe (fine env w) (rbind (SetPosition a x y w1) (\<lambda>w.
      rbind (Broadcast env a (MoveBroadcastResult_bytes
        (MoveBroadcastResult_init\<lparr>ms_mPlayerId := i, ms_mPosX := u, ms_mPosY := v\<rparr>)) w)
      (\<lambda>(ok, w). if \<not> ok then Disconnect env a w else Inr w)))" for x y i u v
  proof -
    obtain w2 where w2: "SetPosition a x y w1 = Inr w2" and "fine env w1 w2"
      using fine_modify [OF fine_ok [OF 1] fine_dom [OF 1 a], of "\<lambda>s. s\<lparr>mPosX := x, mPosY := y\<rparr>"]
      by (auto simp: session_ok_def SetPosition_def)
    with 1 have 2: "fine env w w2" by (blast intro: fine_trans)
    have "packet_fits (MoveBroadcastResult_bytes
        (MoveBroadcastResult_init\<lparr>ms_mPlayerId := i, ms_mPosX := u, ms_mPosY := v\<rparr>))"
      by (rule packet_fits_MoveBroadcastResult) (simp add: MoveBroadcastResult_init_def)
    from after_Broadcast [OF fine_ok [OF 2] fine_dom [OF 2 a] this] w2 show ?thesis
      by (auto elim!: safe_mono intro: fine_trans [OF 2])
  qed
  from p s 1 move show ?thesis
    by (auto simp: Handler_PKT_CS_MOVE_def GetPlayerId_def Let_def split: option.split)
qed

lemma call_handler_safe:
  assumes "world_ok env w" and "a \<in> dom (sessions w)" and "no_recv w a"
  shows "safe (fine env w) (call_handler env h a w)"
  using Handler_PKT_CS_LOGIN_safe [OF assms] Handler_PKT_CS_CHAT_safe [OF assms]
    Handler_PKT_CS_MOVE_safe [OF assms] Disconnect_safe [OF assms(1,2)]
  by (cases h) (simp_all add: DefaultHandler_def)

lemma OnRead_turn_safe:
  assumes ok: "world_ok env w" and a: "a \<in> dom (sessions w)" and no: "no_recv w a"
  shows "safe (\<lambda>(b, w'). fine env w w') (OnRead_turn env a w)"
proof -
  from ok a obtain s where s: "get_session a w = Inr s" "session_ok s" by (rule live_session)
  from s(2) have cb: "cb_ok (mRecvBuffer s)" by (simp add: session_ok_def)
  have "safe (\<lambda>(b, w'). fine env w w') (rbind (call_handler env h a w) (\<lambda>w. Inr (True, w)))" for h
    by (rule safe_bind [OF call_handler_safe [OF assms]]) simp
  moreover have "safe (\<lambda>(b, w'). fine env w w') (rbind (Disconnect env a w) (\<lambda>w. Inr (False, w)))"
    by (rule safe_bind [OF Disconnect_safe [OF ok a]]) simp
  ultimately show ?thesis
    using s Peek_contents [OF cb, of sizeof_PacketHeader] fine_refl [OF ok]
    by (simp add: OnRead_turn_def Let_def split: option.split)
qed

lemma OnRead_loop_safe:
  assumes "world_ok env w" and "a \<in> dom (sessions w)" and "no_recv w a"
  shows "safe_option (fine env w) (OnRead_loop env a w)"
proof (cases "OnRead_loop env a w")
  case (Some r)
  then have "world_ok env w \<and> a \<in> dom (sessions w) \<and> no_recv w a \<longrightarrow> safe (fine env w) r"
  proof (rule OnRead_loop.raw_induct [where P = "\<lambda>env a w r. world_ok env w \<and> a \<in> dom (sessions w) \<and>
      no_recv w a \<longrightarrow> safe (fine env w) r", rotated], intro impI, elim conjE)
    fix loop env a w r
    assume IH: "\<And>env a w r. loop env a w = Some r \<Longrightarrow>
        world_ok env w \<and> a \<in> dom (sessions w) \<and> no_recv w a \<longrightarrow> safe (fine env w) r"
      and r: "(case OnRead_turn env a w of Inl e \<Rightarrow> Some (Inl e)
        | Inr (goes_on, w') \<Rightarrow> if goes_on then loop env a w' else Some (Inr w')) = Some r"
      and w: "world_ok env w" "a \<in> dom (sessions w)" "no_recv w a"
    show "safe (fine env w) r"
    proof (cases "OnRead_turn env a w")
      case (Inl e)
      with r OnRead_turn_safe [OF w] show ?thesis by auto
    next
      case (Inr p)
      obtain b w' where p: "p = (b, w')" by (cases p)
      with Inr OnRead_turn_safe [OF w] have 1: "fine env w w'" by simp
      show ?thesis
      proof (cases b)
        case True
        with r Inr p have "loop env a w' = Some r" by simp
        from IH [OF this] fine_ok [OF 1] fine_dom [OF 1 w(2)] no_recv_fine [OF w(3) 1]
        have "safe (fine env w') r" by blast
        then show ?thesis by (rule safe_mono) (rule fine_trans [OF 1])
      next
        case False
        with r Inr p 1 show ?thesis by auto
      qed
    qed
  qed
  with assms Some show ?thesis by simp
qed simp

section \<open>Completions\<close>

lemma refs_remove1:
  "op \<in> set xs \<Longrightarrow> length (filter (\<lambda>o'. io_session o' = b) xs)
     = length (filter (\<lambda>o'. io_session o' = b) (remove1 op xs)) + (if io_session op = b then 1 else 0)"
  by (induction xs) auto

lemma KernelWrite_ok:
  "cb_ok cb \<Longrightarrow> KernelWrite cb off bs = Inr cb' \<Longrightarrow>
     cb_ok cb' \<and> length (mBuffer cb') = length (mBuffer cb) \<and> settled cb' = settled cb"
  by (auto simp: KernelWrite_def rbind_eq_Inr cb_ok_def settled_def dest!: mem_write_length split: option.splits)

text \<open>A receive that completes: its region is filled and its reference given back.\<close>

lemma recv_taken:
  assumes ok: "world_ok env w" and op: "op \<in> set (pending_recv w)" and bs: "length bs \<le> io_length op"
  shows "\<exists>s rb w2. sessions w (io_session op) = Some s \<and> mOverlappedRecv s = Some (io_session op) \<and>
    KernelReceive op bs (w\<lparr>pending_recv := remove1 op (pending_recv w)\<rparr>)
      = Inr (set_session (io_session op) (s\<lparr>mRecvBuffer := rb\<rparr>) (w\<lparr>pending_recv := remove1 op (pending_recv w)\<rparr>)) \<and>
    w2 = set_session (io_session op) (s\<lparr>mRecvBuffer := rb, mRefCount := mRefCount s - 1\<rparr>)
      (w\<lparr>pending_recv := remove1 op (pending_recv w)\<rparr>) \<and>
    world_ok env w2 \<and> no_recv w2 (io_session op) \<and>
    cb_ok (Commit rb (length bs)) \<and> contents (Commit rb (length bs)) = contents (mRecvBuffer s) @ bs \<and>
    length (mBuffer (Commit rb (length bs))) = BUFSIZE"
proof -
  let ?a = "io_session op" and ?w1 = "w\<lparr>pending_recv := remove1 op (pending_recv w)\<rparr>"
  from world_ok_pending(1) [OF ok op] obtain s where s: "sessions w ?a = Some s" "mOverlappedRecv s = Some ?a"
    "settled (mRecvBuffer s)" "io_offset op = GetBuffer (mRecvBuffer s)" "io_length op = room (mRecvBuffer s)"
    by (auto simp: recv_ok_def)
  from world_ok_session [OF ok s(1)] have sok: "session_ok s" "mRefCount s = int (refs w ?a)" by auto
  then have cb: "cb_ok (mRecvBuffer s)" "length (mBuffer (mRecvBuffer s)) = BUFSIZE" by (simp_all add: session_ok_def)
  from Receive_contents [OF cb(1) s(3)] bs s(5) obtain rb where
    rb: "KernelWrite (mRecvBuffer s) (io_offset op) bs = Inr rb" "cb_ok (Commit rb (length bs))"
    "contents (Commit rb (length bs)) = contents (mRecvBuffer s) @ bs"
    "length (mBuffer (Commit rb (length bs))) = BUFSIZE" using s(4) cb(2) by auto
  from KernelWrite_ok [OF cb(1) rb(1)] have rbok: "cb_ok rb" "length (mBuffer rb) = BUFSIZE" using cb(2) by auto
  let ?s = "s\<lparr>mRecvBuffer := rb, mRefCount := mRefCount s - 1\<rparr>"
  let ?w2 = "set_session ?a ?s ?w1"
  note d = world_ok_pending(4) [OF ok]
  have notin: "io_session op' \<noteq> ?a" if "op' \<in> set (remove1 op (pending_recv w))" for op'
    using d op that by (metis distinct_map distinct_remove1 in_set_remove1 inj_onD notin_set_remove1 set_remove1_eq DiffE singletonI)
  have "world_ok env ?w2"
  proof (rule world_ok_step [OF ok s(1), where s' = ?s])
    show "session_ok ?s" using sok(1) rbok by (simp add: session_ok_def)
    show "\<forall>op' \<in> set (pending_recv ?w2). recv_ok ?w2 op'"
      using world_ok_pending(1) [OF ok] notin by (auto simp: recv_ok_def dest: notin_set_remove1)
    show "distinct (map io_session (pending_recv ?w2))"
      using d by (simp add: distinct_map inj_on_diff)
    show "\<forall>op \<in> set (pending_send ?w2). send_ok ?w2 op"
      using world_ok_pending(2) [OF ok] send_ok_update [OF _ s(1), of _ ?w2 ?s] by simp
    show "int (refs ?w2 b) = int (refs w b) + (if b = ?a then mRefCount ?s - mRefCount s else 0)" for b
      using refs_remove1 [OF op, of b] by (auto simp: refs_def)
  qed (use world_ok_pending(3,5) [OF ok] in simp_all)
  moreover have "no_recv ?w2 ?a" using notin by (fastforce simp: no_recv_def)
  ultimately show ?thesis using s rb by (intro exI [of _ s] exI [of _ rb]) (simp add: KernelReceive_def get_session_def)
qed

lemma RecvCompletion_tail_safe:
  assumes ok: "world_ok env w" and a: "a \<in> dom (sessions w)" and no: "no_recv w a"
  shows "safe (world_ok env) (rbind (PostRecv env a w) (\<lambda>(ok, w). if \<not> ok then Disconnect env a w else Inr w))"
proof (rule safe_bind [OF PostRecv_safe [OF assms]])
  fix r :: "bool \<times> world" assume r: "case r of (b, w') \<Rightarrow> world_ok env w' \<and> same_base w w'"
  obtain b w1 where bw: "r = (b, w1)" by (cases r)
  with r have 1: "world_ok env w1" "a \<in> dom (sessions w1)" using a by (simp_all add: same_base_def)
  with bw safe_mono [OF Disconnect_safe [OF 1], of "world_ok env"] fine_ok
  show "safe (world_ok env) (case r of (ok, w) \<Rightarrow> if \<not> ok then Disconnect env a w else Inr w)" by auto
qed

lemma complete_recv_safe:
  assumes ok: "world_ok env w" and op: "op \<in> set (pending_recv w)" and bs: "length bs \<le> io_length op"
  shows "safe_option (world_ok env) (complete_recv env op dwError bs w)"
proof -
  let ?a = "io_session op"
  from recv_taken [OF assms] obtain s rb w2 where s: "mOverlappedRecv s = Some ?a"
    and k: "KernelReceive op bs (w\<lparr>pending_recv := remove1 op (pending_recv w)\<rparr>)
      = Inr (set_session ?a (s\<lparr>mRecvBuffer := rb\<rparr>) (w\<lparr>pending_recv := remove1 op (pending_recv w)\<rparr>))"
    and w2: "w2 = set_session ?a (s\<lparr>mRecvBuffer := rb, mRefCount := mRefCount s - 1\<rparr>)
      (w\<lparr>pending_recv := remove1 op (pending_recv w)\<rparr>)"
    and ok2: "world_ok env w2" and no: "no_recv w2 ?a"
    and cb: "cb_ok (Commit rb (length bs))" "length (mBuffer (Commit rb (length bs))) = BUFSIZE" by blast
  have live: "sessions w2 ?a = Some (s\<lparr>mRecvBuffer := rb, mRefCount := mRefCount s - 1\<rparr>)" by (simp add: w2)
  then have a: "?a \<in> dom (sessions w2)" by auto
  have dec: "DecRefCount ?a (set_session ?a (s\<lparr>mRecvBuffer := rb\<rparr>) (w\<lparr>pending_recv := remove1 op (pending_recv w)\<rparr>)) = Inr w2"
    by (simp add: DecRefCount_def modify_session_def get_session_def w2)
  have read: "safe_option (fine env w2) (OnRead env ?a (length bs) w2)"
  proof -
    let ?s = "s\<lparr>mRefCount := mRefCount s - 1, mRecvBuffer := Commit rb (length bs)\<rparr>"
    have "fine env w2 (set_session ?a ?s w2)"
      using world_ok_session [OF ok2 live] live cb no
      by (intro fine_set_session [OF ok2 live]) (auto simp: session_ok_def)
    note 1 = this
    have "safe_option (fine env w2) (OnRead_loop env ?a (set_session ?a ?s w2))"
      by (rule safe_option_mono [OF OnRead_loop_safe [OF fine_ok [OF 1] fine_dom [OF 1 a] no_recv_fine [OF no 1]]])
        (rule fine_trans [OF 1])
    with live show ?thesis by (simp add: OnRead_def res_simps)
  qed
  have "safe_option (world_ok env) (then_do (OnRead env ?a (length bs) w2) (\<lambda>w.
      Some (rbind (PostRecv env ?a w) (\<lambda>(ok, w). if \<not> ok then Disconnect env ?a w else Inr w))))"
    by (rule safe_then_do [OF read])
      (simp add: RecvCompletion_tail_safe fine_ok fine_dom [OF _ a] no_recv_fine [OF no])
  moreover have "safe (world_ok env) (Disconnect env ?a w2)"
    by (rule safe_mono [OF Disconnect_safe [OF ok2 a]]) (rule fine_ok)
  ultimately show ?thesis
    using k s dec live ok2
    by (simp add: complete_recv_def RecvCompletion_def get_session_def IsConnected_def)
qed

lemma complete_send_safe:
  assumes ok: "world_ok env w" and op: "op \<in> set (pending_send w)"
  shows "safe (world_ok env) (complete_send env op dwError n w)"
proof -
  let ?a = "io_session op" and ?w1 = "w\<lparr>pending_send := remove1 op (pending_send w)\<rparr>"
  from world_ok_pending(2) [OF ok op] obtain s where s: "sessions w ?a = Some s" "mOverlappedSend s = Some ?a"
    by (auto simp: send_ok_def)
  let ?s = "s\<lparr>mRefCount := mRefCount s - 1\<rparr>"
  let ?w2 = "set_session ?a ?s ?w1"
  have ok2: "world_ok env ?w2"
  proof (rule world_ok_step [OF ok s(1), where s' = ?s])
    show "session_ok ?s" using world_ok_session [OF ok s(1)] by (simp add: session_ok_def)
    show "\<forall>op \<in> set (pending_recv ?w2). recv_ok ?w2 op"
      using world_ok_pending(1) [OF ok] recv_ok_update [OF _ s(1), of _ ?w2 ?s] by simp
    show "\<forall>op \<in> set (pending_send ?w2). send_ok ?w2 op"
      using world_ok_pending(2) [OF ok] send_ok_update [OF _ s(1), of _ ?w2 ?s]
      by (auto dest: notin_set_remove1)
    show "int (refs ?w2 b) = int (refs w b) + (if b = ?a then mRefCount ?s - mRefCount s else 0)" for b
      using refs_remove1 [OF op, of b] by (auto simp: refs_def)
  qed (use world_ok_pending(3,4,5) [OF ok] in simp_all)
  have a: "?a \<in> dom (sessions ?w2)" by simp
  have "safe (world_ok env) (Disconnect env ?a ?w2)"
    by (rule safe_mono [OF Disconnect_safe [OF ok2 a]]) (rule fine_ok)
  moreover have "safe (world_ok env) (OnWriteComplete ?a n ?w2)"
    by (rule safe_mono [OF OnWriteComplete_safe [OF ok2 a]]) (rule fine_ok)
  ultimately show ?thesis
    using s ok2
    by (simp add: complete_send_def SendCompletion_def get_session_def DecRefCount_def modify_session_def IsConnected_def)
qed

section \<open>Scheduled tasks\<close>

lemma CallFuncAfter_queue:
  assumes "CallFuncAfter d a t w = Inr w'"
  shows "\<exists>j. mOwner j = a \<and> mTaskQueue w' = pq_push j (mTaskQueue w)"
  using assms
  by (intro exI [of _ "\<lparr>mOwner = a, mTask = t, mExecutionTick = uint (d + mCurrentTick w)\<rparr>"])
    (auto simp: CallFuncAfter_def PushTask_def IncRefCount_def modify_session_def rbind_eq_Inr Let_def)

lemma run_task_queue:
  assumes "run_task env t w = Inr w'"
  shows "mTaskQueue w' = mTaskQueue w \<or>
    (\<exists>j. mOwner j = task_session t \<and> mTaskQueue w' = pq_push j (mTaskQueue w))"
  using assms
  by (cases t) (auto simp: OnTick_def OnDbUpdate_def PushJob_def rbind_eq_Inr Let_def
      split: if_split_asm dest!: CallFuncAfter_queue)

lemma run_task_safe:
  "world_ok env w \<Longrightarrow> task_session t \<in> dom (sessions w) \<Longrightarrow> safe (fine env w) (run_task env t w)"
  using OnTick_safe [of env w] OnDbUpdate_safe [of env w] by (cases t) fastforce+

lemma pop_task:
  assumes ok: "world_ok env w" and q: "mTaskQueue w = j # q"
  shows "\<exists>w'. DecRefCount (mOwner j) w = Inr w' \<and> mTaskQueue w' = j # q \<and> mCurrentTick w' = mCurrentTick w \<and>
    world_ok env (w'\<lparr>mTaskQueue := q\<rparr>)"
proof -
  from world_ok_pending(3) [OF ok, of j] q have "mOwner j \<in> dom (sessions w)" by (simp add: task_ok_def)
  then obtain s where s: "sessions w (mOwner j) = Some s" by auto
  let ?s = "s\<lparr>mRefCount := mRefCount s - 1\<rparr>"
  let ?w = "(set_session (mOwner j) ?s w)\<lparr>mTaskQueue := q\<rparr>"
  have "world_ok env ?w"
  proof (rule world_ok_step [OF ok s, where s' = ?s])
    show "session_ok ?s" using world_ok_session [OF ok s] by (simp add: session_ok_def)
    show "\<forall>op \<in> set (pending_recv ?w). recv_ok ?w op"
      using world_ok_pending(1) [OF ok] recv_ok_update [OF _ s, of _ ?w ?s] by simp
    show "\<forall>op \<in> set (pending_send ?w). send_ok ?w op"
      using world_ok_pending(2) [OF ok] send_ok_update [OF _ s, of _ ?w ?s] by simp
    show "int (refs ?w b) = int (refs w b) + (if b = mOwner j then mRefCount ?s - mRefCount s else 0)" for b
      using q by (simp add: refs_def)
  qed (use world_ok_pending(3,4,5) [OF ok] q in simp_all)
  then show ?thesis
    using s q by (intro exI [of _ "set_session (mOwner j) ?s w"])
      (simp add: DecRefCount_def modify_session_def get_session_def)
qed

text \<open>
  One turn of \<open>DoTasks\<close>. What is popped is the job that was run or, when the tick has wrapped
  around, a job the task has just pushed; both hold a reference to the same session.
\<close>

lemma task_turn:
  assumes ok: "world_ok env w" and q: "mTaskQueue w = job # q"
  shows "safe (\<lambda>w'. mTaskQueue w' \<noteq> [] \<and> world_ok env (w'\<lparr>mTaskQueue := tl (mTaskQueue w')\<rparr>) \<and>
      mCurrentTick w' = mCurrentTick w \<and>
      (\<exists>new. mTaskQueue w' = fold pq_push new (job # q) \<and> (\<forall>j \<in> set new. new_task w j)))
    (rbind (run_task env (mTask job) w) (DecRefCount (mOwner job)))"
proof -
  from world_ok_pending(3) [OF ok, of job] q have
    own: "mOwner job \<in> dom (sessions w)" "task_session (mTask job) = mOwner job" by (simp_all add: task_ok_def)
  show ?thesis
  proof (cases "run_task env (mTask job) w")
    case (Inl e)
    with run_task_safe [OF ok, of "mTask job"] own show ?thesis by auto
  next
    case (Inr w1)
    with run_task_safe [OF ok, of "mTask job"] own have 1: "fine env w w1" by auto
    have "\<exists>j q1. mTaskQueue w1 = j # q1 \<and> mOwner j = mOwner job"
      using run_task_queue [OF Inr] q own(2) by (auto split: if_split)
    then obtain j q1 where j: "mTaskQueue w1 = j # q1" "mOwner j = mOwner job" by blast
    from pop_task [OF fine_ok [OF 1] j(1)] j(2) obtain w2 where
      w2: "DecRefCount (mOwner job) w1 = Inr w2" "mTaskQueue w2 = j # q1" "mCurrentTick w2 = mCurrentTick w1"
        "world_ok env (w2\<lparr>mTaskQueue := q1\<rparr>)" by auto
    from 1 have tick: "mCurrentTick w1 = mCurrentTick w" and
      "\<exists>new. mTaskQueue w1 = fold pq_push new (mTaskQueue w) \<and> (\<forall>j \<in> set new. new_task w j)"
      by (auto simp: fine_def keeps_def)
    then have "\<exists>new. j # q1 = fold pq_push new (job # q) \<and> (\<forall>j \<in> set new. new_task w j)"
      using j(1) q by simp
    with w2 tick Inr show ?thesis by simp
  qed
qed

definition before_wrap :: "environment \<Rightarrow> world \<Rightarrow> bool" where
  "before_wrap env w \<longleftrightarrow> world_ok env w \<and> uint (mCurrentTick w) + 60000 < 4294967296"

lemma new_task_later:
  assumes "uint (mCurrentTick w) + 60000 < 4294967296" and "new_task w j"
  shows "uint (mCurrentTick w) < mExecutionTick j"
proof -
  have "uint (1000 + mCurrentTick w) = 1000 + uint (mCurrentTick w)"
    "uint (60000 + mCurrentTick w) = 60000 + uint (mCurrentTick w)"
    using assms(1) uint_add_lem [of "1000 :: dword" "mCurrentTick w"] uint_add_lem [of "60000 :: dword" "mCurrentTick w"]
    by simp_all
  with assms(2) show ?thesis
    by (auto simp: new_task_def PLAYER_HEART_BEAT_def PLAYER_DB_UPDATE_INTERVAL_def)
qed

interpretation server_tasks: task_runner "run_task env" DecRefCount "before_wrap env" for env
proof unfold_locales
  fix w :: world
  assume good: "before_wrap env w"
  then have ok: "world_ok env w" and tick: "uint (mCurrentTick w) + 60000 < 4294967296"
    by (simp_all add: before_wrap_def)
  show "pq_sorted (mTaskQueue w)" using world_ok_pending(5) [OF ok] .
  fix job q w'
  assume q: "mTaskQueue w = job # q" and run: "rbind (run_task env (mTask job) w) (DecRefCount (mOwner job)) = Inr w'"
  from safe_Inr [OF task_turn [OF ok q] run] new_task_later [OF tick] tick
  show "mCurrentTick w' = mCurrentTick w \<and>
      (\<exists>new. mTaskQueue w' = fold pq_push new (job # q) \<and>
         (\<forall>j \<in> set new. uint (mCurrentTick w) < mExecutionTick j)) \<and>
      before_wrap env (w'\<lparr>mTaskQueue := tl (mTaskQueue w')\<rparr>)"
    by (auto simp: before_wrap_def)
qed

lemma DoTasks_loop_safe:
  assumes "world_ok env w"
  shows "safe_option (world_ok env) (DoTasks_loop (run_task env) DecRefCount w)"
proof (cases "DoTasks_loop (run_task env) DecRefCount w")
  case (Some r)
  then have "run_task env = run_task env \<and> DecRefCount = DecRefCount \<and> world_ok env w \<longrightarrow> safe (world_ok env) r"
  proof (rule DoTasks_loop.raw_induct [where P = "\<lambda>run dec w r. run = run_task env \<and> dec = DecRefCount \<and>
      world_ok env w \<longrightarrow> safe (world_ok env) r", rotated], intro impI, elim conjE)
    fix loop run dec and w :: world and r
    assume IH: "\<And>run dec w r. loop run dec w = Some r \<Longrightarrow>
        run = run_task env \<and> dec = DecRefCount \<and> world_ok env w \<longrightarrow> safe (world_ok env) r"
      and r: "(if mTaskQueue w = [] then Some (Inr w)
        else let timerJobElem = hd (mTaskQueue w)
          in if uint (mCurrentTick w) < mExecutionTick timerJobElem then Some (Inr w)
             else case rbind (run (mTask timerJobElem) w) (dec (mOwner timerJobElem)) of
                 Inl e \<Rightarrow> Some (Inl e)
               | Inr s' \<Rightarrow> if mTaskQueue s' = [] then Some (Inl OutOfBounds)
                   else loop run dec (s'\<lparr>mTaskQueue := tl (mTaskQueue s')\<rparr>)) = Some r"
      and w: "run = run_task env" "dec = DecRefCount" "world_ok env w"
    show "safe (world_ok env) r"
    proof (cases "mTaskQueue w = [] \<or> uint (mCurrentTick w) < mExecutionTick (hd (mTaskQueue w))")
      case True
      with r w show ?thesis by (auto simp: Let_def split: if_splits)
    next
      case False
      then obtain job q where q: "mTaskQueue w = job # q" by (cases "mTaskQueue w") auto
      from False q r w show ?thesis
        using task_turn [OF w(3) q] IH
        by (cases "rbind (run_task env (mTask job) w) (DecRefCount (mOwner job))") (auto simp: Let_def)
    qed
  qed
  with assms Some show ?thesis by simp
qed simp

lemma world_ok_tick: "world_ok env w \<Longrightarrow> world_ok env (w\<lparr>mCurrentTick := t\<rparr>)"
  by (simp add: world_ok_def client_ok_def recv_ok_def send_ok_def task_ok_def refs_def)

lemma OnPeriodWork_safe: "world_ok env w \<Longrightarrow> safe_option (world_ok env) (OnPeriodWork env w)"
  using OnPeriodWork_ends [of env w] by auto

lemma TimerProc_safe:
  assumes "world_ok env w"
  shows "safe_option (world_ok env) (TimerProc env w)"
proof -
  have "safe_option (world_ok env) (then_do (DoTasks (run_task env) DecRefCount t (sys_call w)) (OnPeriodWork env))" for t
    unfolding DoTasks_def
    by (rule safe_then_do [OF DoTasks_loop_safe OnPeriodWork_safe])
      (use world_ok_tick [OF fine_ok [OF fine_sys_call [OF assms]]] in simp_all)
  with world_ok_pending(7) [OF assms] show ?thesis by (simp add: TimerProc_def)
qed

lemma TimerProc_ends:
  assumes ok: "world_ok env w" and tick: "uint (os_GetTickCount env (calls w)) + 60000 < 4294967296"
  shows "\<exists>r. TimerProc env w = Some r"
proof -
  let ?w = "(sys_call w)\<lparr>mCurrentTick := os_GetTickCount env (calls w)\<rparr>"
  have "before_wrap env ?w"
    using world_ok_tick [OF fine_ok [OF fine_sys_call [OF ok]]] tick by (simp add: before_wrap_def)
  from server_tasks.DoTasks_loop_terminates [OF this] obtain r where
    r: "DoTasks_loop (run_task env) DecRefCount ?w = Some r" "\<And>w'. r = Inr w' \<Longrightarrow> before_wrap env w'" by blast
  show ?thesis
  proof (cases r)
    case (Inr w')
    with r(2) OnPeriodWork_ends [of env w'] r(1) world_ok_pending(7) [OF ok] show ?thesis
      by (auto simp: TimerProc_def DoTasks_def before_wrap_def)
  qed (use r(1) world_ok_pending(7) [OF ok] in \<open>simp add: TimerProc_def DoTasks_def\<close>)
qed

end
