(* ===== verification/Db_Pipeline.thy ===== *)
theory Db_Pipeline
  imports Db_Jobs
begin

text \<open>
  The two threads around the queues of \<open>DatabaseJobManager\<close>
  (\<open>EasyServer/EasyServer/DatabaseJobManager.cpp\<close>): the client thread pushes requests and pops
  results, the database thread runs \<open>ExecuteDatabaseJobs\<close>. A run interleaves their actions; the
  requests pushed and the results popped so far are recorded beside the state.
\<close>

section \<open>Runs\<close>

datatype db_action = RequestJob job | TakeResult | DatabaseThread

record 'db pipeline =
  database :: 'db
  db_thread :: worker
  manager :: DatabaseJobManager
  pushed :: "job list"
  popped :: "job list"

definition pipeline_init :: "'db \<Rightarrow> job \<Rightarrow> 'db pipeline" where
  "pipeline_init db zero =
     \<lparr>database = db, db_thread = Ready, manager = DatabaseJobManager_new zero, pushed = [], popped = []\<rparr>"

text \<open>One action. It is \<open>Inl Sleeping\<close> when the thread would wait on a condition variable.\<close>

fun pipeline_act ::
    "('db, 'stmt) sqlite_api \<Rightarrow> db_action \<Rightarrow> 'db pipeline \<Rightarrow> 'db pipeline res" where
  "pipeline_act api (RequestJob j) p =
     rbind (PushDatabaseJobRequest THREAD_CLIENT (manager p) j) (\<lambda>m.
     Inr (p\<lparr>manager := m, pushed := pushed p @ [j]\<rparr>))"
| "pipeline_act api TakeResult p =
     rbind (PopDatabaseJobResult THREAD_CLIENT (manager p)) (\<lambda>(r, m).
     Inr (p\<lparr>manager := m, popped := popped p @ (case r of None \<Rightarrow> [] | Some j \<Rightarrow> [j])\<rparr>))"
| "pipeline_act api DatabaseThread p =
     rbind (ExecuteDatabaseJobs_step api (database p, db_thread p, manager p)) (\<lambda>(db, w, m).
     Inr (p\<lparr>database := db, db_thread := w, manager := m\<rparr>))"

inductive pipeline_reachable ::
    "('db, 'stmt) sqlite_api \<Rightarrow> 'db \<Rightarrow> job \<Rightarrow> 'db pipeline \<Rightarrow> bool" for api db zero where
  start: "pipeline_reachable api db zero (pipeline_init db zero)"
| act: "pipeline_reachable api db zero p \<Longrightarrow> pipeline_act api a p = Inr p' \<Longrightarrow>
    pipeline_reachable api db zero p'"

section \<open>Where the jobs are\<close>

fun in_hand :: "worker \<Rightarrow> job list" where
  "in_hand Ready = []"
| "in_hand (Executing j) = [j]"
| "in_hand (Finished j) = [j]"

abbreviation request_items :: "'db pipeline \<Rightarrow> job list" where
  "request_items p \<equiv> items MAX_DB_JOB (mDbJobRequestQueue (manager p))"

abbreviation result_items :: "'db pipeline \<Rightarrow> job list" where
  "result_items p \<equiv> items MAX_DB_JOB (mDbJobResultQueue (manager p))"

text \<open>The jobs under way, the next result first.\<close>

definition under_way :: "'db pipeline \<Rightarrow> job list" where
  "under_way p = result_items p @ in_hand (db_thread p) @ request_items p"

definition pipeline_inv :: "'db pipeline \<Rightarrow> bool" where
  "pipeline_inv p \<longleftrightarrow>
     pcq_ok MAX_DB_JOB (mDbJobRequestQueue (manager p)) \<and>
     pcq_ok MAX_DB_JOB (mDbJobResultQueue (manager p)) \<and>
     map job_request (pushed p) = map job_request (popped p @ under_way p)"

lemma OnExecute_request:
  assumes "OnExecute api db j = Inr (ok, db', j')"
  shows "job_request j' = job_request j"
  using assms
  by (cases j;
      auto simp: rbind_eq_Inr execute_defs Let_def split: prod.split_asm if_split_asm option.split_asm)

lemma PushDatabaseJobRequest_cases:
  assumes "pcq_ok MAX_DB_JOB (mDbJobRequestQueue m)"
  obtains (stored) q where "PushDatabaseJobRequest THREAD_CLIENT m j = Inr (m\<lparr>mDbJobRequestQueue := q\<rparr>)"
      "pcq_ok MAX_DB_JOB q" "items MAX_DB_JOB q = items MAX_DB_JOB (mDbJobRequestQueue m) @ [j]"
      "length (items MAX_DB_JOB (mDbJobRequestQueue m)) < MAX_DB_JOB"
  | (asleep) "PushDatabaseJobRequest THREAD_CLIENT m j = Inl Sleeping"
      "length (items MAX_DB_JOB (mDbJobRequestQueue m)) = MAX_DB_JOB"
  using assms
  by (cases rule: pcq.put_cases [where x = j and w = True]) (auto simp: PushDatabaseJobRequest_def)

lemma PopDatabaseJobResult_cases:
  assumes "pcq_ok MAX_DB_JOB (mDbJobResultQueue m)"
  obtains (taken) j q where "PopDatabaseJobResult THREAD_CLIENT m = Inr (Some j, m\<lparr>mDbJobResultQueue := q\<rparr>)"
      "pcq_ok MAX_DB_JOB q" "items MAX_DB_JOB (mDbJobResultQueue m) = j # items MAX_DB_JOB q"
  | (empty) "PopDatabaseJobResult THREAD_CLIENT m = Inr (None, m)" "items MAX_DB_JOB (mDbJobResultQueue m) = []"
  using assms
  by (cases rule: pcq.get_cases [where w = False]) (auto simp: PopDatabaseJobResult_def)

lemma take_request_cases:
  assumes "pcq_ok MAX_DB_JOB (mDbJobRequestQueue m)"
  obtains (taken) j q where
      "ExecuteDatabaseJobs_step api (db, Ready, m) = Inr (db, Executing j, m\<lparr>mDbJobRequestQueue := q\<rparr>)"
      "pcq_ok MAX_DB_JOB q" "items MAX_DB_JOB (mDbJobRequestQueue m) = j # items MAX_DB_JOB q"
  | (asleep) "ExecuteDatabaseJobs_step api (db, Ready, m) = Inl Sleeping"
      "items MAX_DB_JOB (mDbJobRequestQueue m) = []"
  using assms
  by (cases rule: pcq.get_cases [where w = True]) (auto simp: ExecuteDatabaseJobs_step_def)

lemma put_result_cases:
  assumes "pcq_ok MAX_DB_JOB (mDbJobResultQueue m)"
  obtains (stored) q where
      "ExecuteDatabaseJobs_step api (db, Finished j, m) = Inr (db, Ready, m\<lparr>mDbJobResultQueue := q\<rparr>)"
      "pcq_ok MAX_DB_JOB q" "items MAX_DB_JOB q = items MAX_DB_JOB (mDbJobResultQueue m) @ [j]"
      "length (items MAX_DB_JOB (mDbJobResultQueue m)) < MAX_DB_JOB"
  | (asleep) "ExecuteDatabaseJobs_step api (db, Finished j, m) = Inl Sleeping"
      "length (items MAX_DB_JOB (mDbJobResultQueue m)) = MAX_DB_JOB"
  using assms
  by (cases rule: pcq.put_cases [where x = j and w = True]) (auto simp: ExecuteDatabaseJobs_step_def)

lemma execute_step:
  "ExecuteDatabaseJobs_step api (db, Executing j, m) =
     rbind (OnExecute api db j) (\<lambda>(ok, db, j). Inr (db, Finished (SetSuccess ok j), m))"
  by (simp add: ExecuteDatabaseJobs_step_def)

lemma pipeline_inv_init: "pipeline_inv (pipeline_init db zero)"
  by (simp add: pipeline_inv_def pipeline_init_def DatabaseJobManager_new_def under_way_def pcq_ok_init
      MAX_DB_JOB_def)

lemma pipeline_inv_act:
  assumes inv: "pipeline_inv p" and act: "pipeline_act api a p = Inr p'"
  shows "pipeline_inv p'"
proof (cases a)
  case (RequestJob j)
  have "pcq_ok MAX_DB_JOB (mDbJobRequestQueue (manager p))" using inv by (simp add: pipeline_inv_def)
  then show ?thesis
    by (cases rule: PushDatabaseJobRequest_cases [where j = j])
      (use RequestJob act inv in \<open>auto simp: pipeline_inv_def under_way_def\<close>)
next
  case TakeResult
  have "pcq_ok MAX_DB_JOB (mDbJobResultQueue (manager p))" using inv by (simp add: pipeline_inv_def)
  then show ?thesis
    by (cases rule: PopDatabaseJobResult_cases)
      (use TakeResult act inv in \<open>auto simp: pipeline_inv_def under_way_def\<close>)
next
  case DatabaseThread
  have ok: "pcq_ok MAX_DB_JOB (mDbJobRequestQueue (manager p))"
      "pcq_ok MAX_DB_JOB (mDbJobResultQueue (manager p))" using inv by (simp_all add: pipeline_inv_def)
  show ?thesis
  proof (cases "db_thread p")
    case Ready
    from ok(1) show ?thesis
      by (cases rule: take_request_cases [where api = api and db = "database p"])
        (use DatabaseThread Ready act inv in \<open>auto simp: pipeline_inv_def under_way_def\<close>)
  next
    case (Executing j)
    with DatabaseThread act inv show ?thesis
      by (auto simp: pipeline_inv_def under_way_def execute_step rbind_eq_Inr dest: OnExecute_request)
  next
    case (Finished j)
    from ok(2) show ?thesis
      by (cases rule: put_result_cases [where api = api and db = "database p" and j = j])
        (use DatabaseThread Finished act inv in \<open>auto simp: pipeline_inv_def under_way_def\<close>)
  qed
qed

lemma pipeline_reachable_inv: "pipeline_reachable api db zero p \<Longrightarrow> pipeline_inv p"
  by (induction rule: pipeline_reachable.induct) (auto intro: pipeline_inv_init pipeline_inv_act)

lemma length_under_way:
  assumes "pipeline_inv p"
  shows "length (pushed p) = length (popped p) + length (under_way p)"
  using assms map_eq_imp_length_eq [of job_request "pushed p" job_request "popped p @ under_way p"]
  by (simp add: pipeline_inv_def)

lemma queue_bounds:
  assumes "pipeline_inv p"
  shows "length (request_items p) \<le> MAX_DB_JOB" and "length (result_items p) \<le> MAX_DB_JOB"
    and "length (in_hand (db_thread p)) \<le> 1"
  using assms by (auto simp: pipeline_inv_def intro!: pcq.within_limit) (cases "db_thread p"; simp)


section \<open>Properties\<close>

text \<open>
  C21: every result the client thread takes answers the requests in the order in which they were
  pushed, and no request is lost, repeated or changed on the way.
\<close>

theorem pipeline_order:
  assumes "pipeline_reachable api db zero p"
  shows "map job_request (pushed p) = map job_request (popped p) @ map job_request (under_way p)"
  using pipeline_reachable_inv [OF assms] by (simp add: pipeline_inv_def)


text \<open>A sequence of actions.\<close>

fun pipeline_run ::
    "('db, 'stmt) sqlite_api \<Rightarrow> db_action list \<Rightarrow> 'db pipeline \<Rightarrow> 'db pipeline res" where
  "pipeline_run api [] p = Inr p"
| "pipeline_run api (a # as) p = rbind (pipeline_act api a p) (pipeline_run api as)"

lemma pipeline_run_reachable:
  "pipeline_reachable api db zero p \<Longrightarrow> pipeline_run api as p = Inr p' \<Longrightarrow> pipeline_reachable api db zero p'"
  by (induction "as" arbitrary: p) (auto simp: rbind_eq_Inr intro: pipeline_reachable.act)


text \<open>
  As long as the client thread keeps taking results, a request under way is answered after at most
  three actions of the database thread, unless its execution is a fault.
\<close>

definition answered_in :: "('db, 'stmt) sqlite_api \<Rightarrow> nat \<Rightarrow> 'db pipeline \<Rightarrow> bool" where
  "answered_in api n p \<longleftrightarrow>
     (\<exists>p'. pipeline_run api (replicate n DatabaseThread @ [TakeResult]) p = Inr p' \<and>
       length (popped p') = Suc (length (popped p)))"

lemma answered_in_Suc:
  "pipeline_act api DatabaseThread p = Inr p' \<Longrightarrow> popped p' = popped p \<Longrightarrow> answered_in api n p' \<Longrightarrow>
     answered_in api (Suc n) p"
  by (auto simp: answered_in_def)

lemma answer_result:
  assumes "pipeline_inv p" and "result_items p \<noteq> []"
  shows "answered_in api 0 p"
proof -
  have "pcq_ok MAX_DB_JOB (mDbJobResultQueue (manager p))" using assms by (simp add: pipeline_inv_def)
  then show ?thesis
    by (cases rule: PopDatabaseJobResult_cases) (use assms(2) in \<open>auto simp: answered_in_def\<close>)
qed

lemma answer_finished:
  assumes "pipeline_inv p" and "result_items p = []" and "db_thread p = Finished j"
  shows "answered_in api 1 p"
proof -
  have "pcq_ok MAX_DB_JOB (mDbJobResultQueue (manager p))" using assms by (simp add: pipeline_inv_def)
  then show ?thesis
  proof (cases rule: put_result_cases [where api = api and db = "database p" and j = j])
    case (stored q)
    let ?p = "p\<lparr>database := database p, db_thread := Ready, manager := manager p\<lparr>mDbJobResultQueue := q\<rparr>\<rparr>"
    have act: "pipeline_act api DatabaseThread p = Inr ?p" using stored assms by simp
    from answer_result [OF pipeline_inv_act [OF assms(1) act], of api] stored
      answered_in_Suc [OF act, of 0] show ?thesis by simp
  qed (use assms in \<open>simp add: MAX_DB_JOB_def\<close>)
qed

lemma answer_executing:
  assumes "pipeline_inv p" and "result_items p = []" and "db_thread p = Executing j"
    and "\<exists>r. OnExecute api (database p) j = Inr r"
  shows "answered_in api 2 p"
proof -
  obtain ok db j' where r: "OnExecute api (database p) j = Inr (ok, db, j')" using assms(4) by auto
  let ?p = "p\<lparr>database := db, db_thread := Finished (SetSuccess ok j'), manager := manager p\<rparr>"
  have act: "pipeline_act api DatabaseThread p = Inr ?p"
    using assms r by (simp add: execute_step)
  from answer_finished [OF pipeline_inv_act [OF assms(1) act], of "SetSuccess ok j'" api] assms
    answered_in_Suc [OF act, of 1] show ?thesis by (simp add: numeral_eq_Suc)
qed

lemma answer_waiting:
  assumes "pipeline_inv p" and "result_items p = []" and "db_thread p = Ready" and "request_items p = j # js"
    and "\<exists>r. OnExecute api (database p) j = Inr r"
  shows "answered_in api 3 p"
proof -
  have "pcq_ok MAX_DB_JOB (mDbJobRequestQueue (manager p))" using assms by (simp add: pipeline_inv_def)
  then show ?thesis
  proof (cases rule: take_request_cases [where api = api and db = "database p"])
    case (taken j' q)
    let ?p = "p\<lparr>database := database p, db_thread := Executing j, manager := manager p\<lparr>mDbJobRequestQueue := q\<rparr>\<rparr>"
    have act: "pipeline_act api DatabaseThread p = Inr ?p" using taken assms by simp
    from answer_executing [OF pipeline_inv_act [OF assms(1) act], of j api] assms
      answered_in_Suc [OF act, of 2] show ?thesis by (simp add: numeral_eq_Suc)
  qed (use assms in simp)
qed


section \<open>A run\<close>

text \<open>A database that accepts every statement and has no rows.\<close>

definition empty_db :: "(unit, unit) sqlite_api" where
  "empty_db =
     \<lparr>sqlite3_open = \<lambda>_. (SQLITE_OK, Some ()), sqlite3_exec = \<lambda>db _. (SQLITE_OK, db),
      sqlite3_prepare_v2 = \<lambda>db _. (SQLITE_OK, ()),
      sqlite3_bind_int = \<lambda>st _ _. (SQLITE_OK, st), sqlite3_bind_double = \<lambda>st _ _. (SQLITE_OK, st),
      sqlite3_bind_text = \<lambda>st _ _. (SQLITE_OK, st), sqlite3_step = \<lambda>db st. (SQLITE_DONE, db, st),
      sqlite3_column_count = \<lambda>_. 0, sqlite3_column_int = \<lambda>_ _. 0, sqlite3_column_double = \<lambda>_ _. 0,
      sqlite3_column_text = \<lambda>_ _. None, sqlite3_finalize = \<lambda>db _. db\<rparr>"

abbreviation delete_one :: job where
  "delete_one \<equiv> DeletePlayer (DeletePlayerDataContext_new 0 7)"

lemma delete_one_executes:
  "OnExecute empty_db db delete_one = Inr (True, (), delete_one)"
  by (simp add: empty_db_def DeletePlayer_OnExecute_def db_helper_defs Let_def)


abbreviation reached :: "unit pipeline \<Rightarrow> bool" where
  "reached \<equiv> pipeline_reachable empty_db () delete_one"

text \<open>The shape of a state: thread, number of waiting requests, results and unanswered requests.\<close>

definition shape :: "worker \<Rightarrow> nat \<Rightarrow> nat \<Rightarrow> nat \<Rightarrow> bool" where
  "shape w r d n \<longleftrightarrow> (\<exists>p. reached p \<and> db_thread p = w \<and> set (request_items p) \<subseteq> {delete_one} \<and>
     length (request_items p) = r \<and> length (result_items p) = d \<and> length (pushed p) = n \<and> popped p = [])"

lemma shape_start: "shape Ready 0 0 0"
  unfolding shape_def
  by (intro exI [of _ "pipeline_init () delete_one"])
    (use pipeline_reachable.start [of empty_db "()" delete_one] in
      \<open>simp add: pipeline_init_def DatabaseJobManager_new_def\<close>)

lemma shape_push: "shape w r d n \<Longrightarrow> r < MAX_DB_JOB \<Longrightarrow> shape w (Suc r) d (Suc n)"
  unfolding shape_def
proof (elim exE conjE)
  fix p
  assume p: "reached p" "r < MAX_DB_JOB" "db_thread p = w" "set (request_items p) \<subseteq> {delete_one}"
    "length (request_items p) = r" "length (result_items p) = d" "length (pushed p) = n" "popped p = []"
  have "pcq_ok MAX_DB_JOB (mDbJobRequestQueue (manager p))"
    using pipeline_reachable_inv [OF p(1)] by (simp add: pipeline_inv_def)
  then obtain q where q: "PushDatabaseJobRequest THREAD_CLIENT (manager p) delete_one
        = Inr (manager p\<lparr>mDbJobRequestQueue := q\<rparr>)"
      "items MAX_DB_JOB q = request_items p @ [delete_one]"
    by (cases rule: PushDatabaseJobRequest_cases [where j = delete_one]) (use p in auto)
  have "pipeline_act empty_db (RequestJob delete_one) p
      = Inr (p\<lparr>manager := manager p\<lparr>mDbJobRequestQueue := q\<rparr>, pushed := pushed p @ [delete_one]\<rparr>)"
    using q by simp
  from pipeline_reachable.act [OF p(1) this] p q
  show "\<exists>p. reached p \<and> db_thread p = w \<and> set (request_items p) \<subseteq> {delete_one} \<and>
      length (request_items p) = Suc r \<and> length (result_items p) = d \<and> length (pushed p) = Suc n \<and> popped p = []"
    by (intro exI [of _ "p\<lparr>manager := manager p\<lparr>mDbJobRequestQueue := q\<rparr>, pushed := pushed p @ [delete_one]\<rparr>"]) auto
qed

lemma shape_serve: "shape Ready (Suc r) d n \<Longrightarrow> shape (Finished (SetSuccess True delete_one)) r d n"
  unfolding shape_def
proof (elim exE conjE)
  fix p
  assume p: "reached p" "db_thread p = Ready" "set (request_items p) \<subseteq> {delete_one}"
    "length (request_items p) = Suc r" "length (result_items p) = d" "length (pushed p) = n" "popped p = []"
  have ok: "pcq_ok MAX_DB_JOB (mDbJobRequestQueue (manager p))"
    using pipeline_reachable_inv [OF p(1)] by (simp add: pipeline_inv_def)
  from ok obtain q where q: "ExecuteDatabaseJobs_step empty_db ((), Ready, manager p)
        = Inr ((), Executing delete_one, manager p\<lparr>mDbJobRequestQueue := q\<rparr>)"
      "request_items p = delete_one # items MAX_DB_JOB q"
    by (cases rule: take_request_cases [where api = empty_db and db = "()"]) (use p in auto)
  let ?p = "p\<lparr>database := (), db_thread := Executing delete_one, manager := manager p\<lparr>mDbJobRequestQueue := q\<rparr>\<rparr>"
  have "pipeline_act empty_db DatabaseThread p = Inr ?p" using q p by simp
  from pipeline_reachable.act [OF p(1) this] have 1: "reached ?p" .
  let ?p' = "?p\<lparr>db_thread := Finished (SetSuccess True delete_one)\<rparr>"
  have "pipeline_act empty_db DatabaseThread ?p = Inr ?p'"
    using delete_one_executes by (simp add: execute_step)
  from pipeline_reachable.act [OF 1 this] p q
  show "\<exists>p. reached p \<and> db_thread p = Finished (SetSuccess True delete_one) \<and>
      set (request_items p) \<subseteq> {delete_one} \<and> length (request_items p) = r \<and>
      length (result_items p) = d \<and> length (pushed p) = n \<and> popped p = []"
    by (intro exI [of _ ?p']) auto
qed

lemma shape_deliver: "shape (Finished j) r d n \<Longrightarrow> d < MAX_DB_JOB \<Longrightarrow> shape Ready r (Suc d) n"
  unfolding shape_def
proof (elim exE conjE)
  fix p
  assume p: "reached p" "d < MAX_DB_JOB" "db_thread p = Finished j" "set (request_items p) \<subseteq> {delete_one}"
    "length (request_items p) = r" "length (result_items p) = d" "length (pushed p) = n" "popped p = []"
  have "pcq_ok MAX_DB_JOB (mDbJobResultQueue (manager p))"
    using pipeline_reachable_inv [OF p(1)] by (simp add: pipeline_inv_def)
  then obtain q where q: "ExecuteDatabaseJobs_step empty_db ((), Finished j, manager p)
        = Inr ((), Ready, manager p\<lparr>mDbJobResultQueue := q\<rparr>)" "items MAX_DB_JOB q = result_items p @ [j]"
    by (cases rule: put_result_cases [where api = empty_db and db = "()" and j = j]) (use p in auto)
  let ?p = "p\<lparr>database := (), db_thread := Ready, manager := manager p\<lparr>mDbJobResultQueue := q\<rparr>\<rparr>"
  have "pipeline_act empty_db DatabaseThread p = Inr ?p" using q p by simp
  from pipeline_reachable.act [OF p(1) this] p q
  show "\<exists>p. reached p \<and> db_thread p = Ready \<and> set (request_items p) \<subseteq> {delete_one} \<and>
      length (request_items p) = r \<and> length (result_items p) = Suc d \<and> length (pushed p) = n \<and> popped p = []"
    by (intro exI [of _ ?p]) auto
qed

lemma shape_results: "n \<le> MAX_DB_JOB \<Longrightarrow> shape Ready 0 n n"
proof (induction n)
  case (Suc n)
  then have "shape Ready (Suc 0) n (Suc n)" using shape_push [of Ready 0 n n] by (simp add: MAX_DB_JOB_def)
  then show ?case using Suc.prems by (auto dest!: shape_serve shape_deliver)
qed (simp add: shape_start)

lemma shape_requests:
  "k \<le> MAX_DB_JOB \<Longrightarrow> shape (Finished (SetSuccess True delete_one)) k MAX_DB_JOB (128 + k)"
proof (induction k)
  case 0
  have "shape Ready (Suc 0) MAX_DB_JOB (Suc MAX_DB_JOB)"
    using shape_push [OF shape_results [of MAX_DB_JOB]] by (simp add: MAX_DB_JOB_def)
  from shape_serve [OF this] show ?case by (simp add: MAX_DB_JOB_def)
next
  case (Suc k)
  then show ?case using shape_push [of _ k MAX_DB_JOB "128 + k"] by simp
qed



theorem pipeline_order_witness:
  "\<exists>p. reached p \<and> pushed p \<noteq> [] \<and>
    map job_request (pushed p) = map job_request (popped p) @ map job_request (under_way p)"
proof -
  have "shape Ready (Suc 0) 0 1" using shape_push [OF shape_start] by (simp add: MAX_DB_JOB_def)
  then obtain p where p: "reached p" "length (pushed p) = 1" by (auto simp: shape_def)
  with pipeline_order [OF p(1)] show ?thesis by auto
qed

text \<open>The statement a job stands for, with the values of its placeholders from left to right.\<close>

fun job_statement :: "job \<Rightarrow> string \<times> sql_value list" where
  "job_statement (LoadPlayer c) = (SQL_SelectTest, [SqlInt (load_mPlayerId c)])"
| "job_statement (CreatePlayer c) = (SQL_InsertTest,
     [SqlInt (create_mPlayerId c), SqlText (c_string (create_mPlayerName c)), SqlDouble (create_mPosX c),
      SqlDouble (create_mPosY c), SqlDouble (create_mPosZ c), SqlText (c_string (create_mComment c))])"
| "job_statement (DeletePlayer c) = (SQL_DeleteTest, [SqlInt (delete_mPlayerId c)])"
| "job_statement (UpdatePlayer c) = (SQL_UpdateTest,
     [SqlDouble (update_mPosX c), SqlDouble (update_mPosY c), SqlDouble (update_mPosZ c),
      SqlText (c_string (update_mComment c)), SqlInt (update_mPlayerId c)])"

lemma job_statement_placeholders:
  "length (snd (job_statement j)) = placeholders (fst (job_statement j))"
  by (cases j) (simp_all add: placeholders_SQL)

text \<open>
  C23: a create, delete or update job runs its statement: it prepares the statement, binds every value
  to the placeholder it belongs to and no placeholder is left out, steps it once and finalizes it. It
  succeeds when the step does, and the job itself is not changed.
\<close>

theorem job_runs_statement:
  assumes "job_ok j" and "\<forall>c. j \<noteq> LoadPlayer c"
  shows "OnExecute api db j = rbind (run_statement api db (fst (job_statement j)) (snd (job_statement j)))
      (\<lambda>(ok, db'). Inr (ok, db', j)) \<and>
    length (snd (job_statement j)) = placeholders (fst (job_statement j))"
proof
  show "OnExecute api db j = rbind (run_statement api db (fst (job_statement j)) (snd (job_statement j)))
      (\<lambda>(ok, db'). Inr (ok, db', j))"
    using assms
    by (cases j) (auto simp: CreatePlayer_statement DeletePlayer_statement UpdatePlayer_statement rbind_assoc
        split_def)
qed (rule job_statement_placeholders)

theorem job_runs_statement_witness:
  "OnExecute empty_db () delete_one = Inr (True, (), delete_one)"
  using job_runs_statement [of delete_one empty_db "()"]
  by (simp add: run_statement_def empty_db_def DeletePlayerDataContext_new_def)

text \<open>
  What becomes of a load. Without a row the job fails and is not changed. With a row its
  coordinates are the columns 1 to 3, and its name is the text of column 0 up to its zero byte if that
  fits into the array with its terminator; a name of \<open>MAX_NAME_LEN\<close> or more characters, or a
  \<open>NULL\<close>, ends the process.
\<close>

lemma load_row_outcome:
  assumes "select_row api db (load_mPlayerId c) = Inr (rc, db', st)"
    and "rc = SQLITE_ROW \<Longrightarrow> 4 \<le> sqlite3_column_count api st"
    and "job_ok (LoadPlayer c)"
  shows "(rc \<noteq> SQLITE_ROW \<longrightarrow>
      OnExecute api db (LoadPlayer c) = Inr (False, sqlite3_finalize api db' st, LoadPlayer c)) \<and>
    (rc = SQLITE_ROW \<longrightarrow> sqlite3_column_text api st 0 = None \<longrightarrow>
      OnExecute api db (LoadPlayer c) = Inl InvalidParameter) \<and>
    (\<forall>s. rc = SQLITE_ROW \<longrightarrow> sqlite3_column_text api st 0 = Some s \<longrightarrow> 0 \<in> set s \<longrightarrow>
      (if length (c_string s) < MAX_NAME_LEN
       then \<exists>n. OnExecute api db (LoadPlayer c) = Inr (True, sqlite3_finalize api db' st, LoadPlayer
           (c\<lparr>load_mPosX := sqlite3_column_double api st 1, load_mPosY := sqlite3_column_double api st 2,
              load_mPosZ := sqlite3_column_double api st 3, load_mPlayerName := n\<rparr>)) \<and>
           terminated MAX_NAME_LEN n \<and> c_string n = c_string s
       else OnExecute api db (LoadPlayer c) = Inl InvalidParameter))"
proof (intro conjI allI impI)
  assume "rc \<noteq> SQLITE_ROW"
  from LoadPlayer_no_row [OF assms(1) this]
  show "OnExecute api db (LoadPlayer c) = Inr (False, sqlite3_finalize api db' st, LoadPlayer c)" by simp
next
  have len: "length (load_mPlayerName c) = MAX_NAME_LEN" using assms(3) by (simp add: terminated_def)
  { assume row: "rc = SQLITE_ROW" 
    note LoadPlayer_row [OF assms(1) [unfolded row] assms(2) [OF row] len] }
  note load = this
  { assume "rc = SQLITE_ROW" and "sqlite3_column_text api st 0 = None"
    with load show "OnExecute api db (LoadPlayer c) = Inl InvalidParameter" by simp }
  fix s assume s: "rc = SQLITE_ROW" "sqlite3_column_text api st 0 = Some s" "0 \<in> set s"
  then obtain k where k: "strnlen s = Some k" "length (c_string s) = k"
    using strnlen_Some_iff [of s] strnlen_c_string [of s] strnlen_less [of s]
    by (metis length_take less_imp_le min.absorb2)
  show "if length (c_string s) < MAX_NAME_LEN
       then \<exists>n. OnExecute api db (LoadPlayer c) = Inr (True, sqlite3_finalize api db' st, LoadPlayer
           (c\<lparr>load_mPosX := sqlite3_column_double api st 1, load_mPosY := sqlite3_column_double api st 2,
              load_mPosZ := sqlite3_column_double api st 3, load_mPlayerName := n\<rparr>)) \<and>
           terminated MAX_NAME_LEN n \<and> c_string n = c_string s
       else OnExecute api db (LoadPlayer c) = Inl InvalidParameter"
  proof (cases "k < MAX_NAME_LEN")
    case True
    then obtain n where n: "strcpy_s (load_mPlayerName c) s = Inr n" using strcpy_s_ok [OF k(1)] len by simp
    from strcpy_s_terminated [OF this] strcpy_s_terminated_array [OF n] strnlen_c_string [of n] strnlen_c_string [of s] len
    show ?thesis using load s True k n by auto
  next
    case False
    with k have "strcpy_s (load_mPlayerName c) s = Inl InvalidParameter"
      using strcpy_s_too_long [OF k(1), of "load_mPlayerName c"] len by simp
    with load s False k show ?thesis by simp
  qed
qed

text \<open>A database whose select finds one row with the given name and the coordinates 1, 2 and 3.\<close>

definition one_row_db :: "byte list option \<Rightarrow> (unit, unit) sqlite_api" where
  "one_row_db name = empty_db\<lparr>sqlite3_step := \<lambda>db st. (SQLITE_ROW, db, st), sqlite3_column_count := \<lambda>_. 4,
     sqlite3_column_text := \<lambda>_ _. name, sqlite3_column_double := \<lambda>_ i. of_nat i\<rparr>"

lemma load_row_outcome_example:
  "(\<exists>n. OnExecute (one_row_db (Some [98, 111, 98, 0])) () (LoadPlayer (LoadPlayerDataContext_new 5 1001)) =
      Inr (True, (), LoadPlayer ((LoadPlayerDataContext_new 5 1001)
        \<lparr>load_mPosX := 1, load_mPosY := 2, load_mPosZ := 3, load_mPlayerName := n\<rparr>)) \<and> c_string n = [98, 111, 98]) \<and>
    OnExecute (one_row_db (Some (replicate 30 65 @ [0]))) () (LoadPlayer (LoadPlayerDataContext_new 5 1001)) =
      Inl InvalidParameter \<and>
    OnExecute (one_row_db None) () (LoadPlayer (LoadPlayerDataContext_new 5 1001)) = Inl InvalidParameter"
proof -
  let ?c = "LoadPlayerDataContext_new 5 1001"
  have row: "select_row (one_row_db x) () (load_mPlayerId ?c) = Inr (SQLITE_ROW, (), ())" for x
    by (simp add: select_row_def one_row_db_def empty_db_def)
  have ok: "job_ok (LoadPlayer ?c)"
    by (simp add: LoadPlayerDataContext_new_def terminated_def MAX_NAME_LEN_def)
  have four: "SQLITE_ROW = SQLITE_ROW \<Longrightarrow> 4 \<le> sqlite3_column_count (one_row_db x) ()" for x
    by (simp add: one_row_db_def)
  note out = load_row_outcome [OF row four ok]
  from out [of "Some [98, 111, 98, 0]"] out [of "Some (replicate 30 65 @ [0])"] out [of None]
  show ?thesis by (simp add: one_row_db_def empty_db_def c_string_def MAX_NAME_LEN_def takeWhile_append)
      blast
qed

end
