(* ===== verification/Server_System.thy ===== *)
theory Server_System
  imports Server_Invariant Db_Pipeline
begin

text \<open>
  The server process as a whole (\<open>_tmain\<close>, \<open>ClientHandlingThread\<close> and \<open>DatabaseHandlingThread\<close> of
  \<open>EasyServer/EasyServer/EasyServer.cpp\<close>): three threads and the system's completions, interleaved.
  Completion routines run only while the client thread is in \<open>SleepEx\<close>, which it leaves after at
  least one of them. A step whose thread would sleep on a full queue is taken later, as a whole.
\<close>

section \<open>The process\<close>

datatype client_pc = AtLoopTop | InSleepEx | Awake

record 'db server =
  pending_accept :: "SOCKET pcq"
  client_pc :: client_pc
  client :: world
  server_db :: 'db
  db_worker :: worker

datatype server_action =
    Accepted SOCKET
  | ClientTurn
  | TimerApc
  | RecvApc io_op dword "byte list"
  | SendApc io_op dword nat
  | DatabaseTurn

definition server_init :: "environment \<Rightarrow> job \<Rightarrow> 'db \<Rightarrow> 'db server" where
  "server_init env zero db =
     \<lparr>pending_accept = ProducerConsumerQueue PENDING_ACCEPT 0, client_pc = AtLoopTop,
      client = world_init env zero, server_db = db, db_worker = Ready\<rparr>"

text \<open>When an action can happen.\<close>

fun enabled :: "server_action \<Rightarrow> 'db server \<Rightarrow> bool" where
  "enabled (Accepted sock) s = True"
| "enabled ClientTurn s = (client_pc s \<noteq> InSleepEx)"
| "enabled TimerApc s = (client_pc s \<noteq> AtLoopTop)"
| "enabled (RecvApc op err bs) s =
     (client_pc s \<noteq> AtLoopTop \<and> op \<in> set (pending_recv (client s)) \<and> length bs \<le> io_length op)"
| "enabled (SendApc op err n) s =
     (client_pc s \<noteq> AtLoopTop \<and> op \<in> set (pending_send (client s)) \<and> n \<le> io_length op)"
| "enabled DatabaseTurn s = True"

text \<open>What it does; \<open>None\<close> when the action does not return.\<close>

definition after_apc :: "'db server \<Rightarrow> world res option \<Rightarrow> 'db server res option" where
  "after_apc s m = then_do m (\<lambda>w. Some (Inr (s\<lparr>client := w, client_pc := Awake\<rparr>)))"

fun server_act ::
    "environment \<Rightarrow> ('db, 'stmt) sqlite_api \<Rightarrow> server_action \<Rightarrow> 'db server \<Rightarrow> 'db server res option" where
  "server_act env api (Accepted sock) s =
     Some (rbind (Produce PENDING_ACCEPT (pending_accept s) sock True) (\<lambda>(_, q).
       Inr (s\<lparr>pending_accept := q\<rparr>)))"
| "server_act env api ClientTurn s =
     Some (rbind (ClientHandlingThread_turn env (pending_accept s) (client s)) (\<lambda>(sleeps, q, w).
       Inr (s\<lparr>pending_accept := q, client := w, client_pc := (if sleeps then InSleepEx else AtLoopTop)\<rparr>)))"
| "server_act env api TimerApc s = after_apc s (TimerProc env (client s))"
| "server_act env api (RecvApc op err bs) s = after_apc s (complete_recv env op err bs (client s))"
| "server_act env api (SendApc op err n) s = after_apc s (Some (complete_send env op err n (client s)))"
| "server_act env api DatabaseTurn s =
     Some (rbind (ExecuteDatabaseJobs_step api (server_db s, db_worker s, GDatabaseJobManager (client s)))
       (\<lambda>(db, wk, m).
       Inr (s\<lparr>server_db := db, db_worker := wk, client := (client s)\<lparr>GDatabaseJobManager := m\<rparr>\<rparr>)))"

inductive server_step ::
    "environment \<Rightarrow> ('db, 'stmt) sqlite_api \<Rightarrow> 'db server \<Rightarrow> 'db server \<Rightarrow> bool" for env api where
  act: "enabled a s \<Longrightarrow> server_act env api a s = Some (Inr s') \<Longrightarrow> server_step env api s s'"

inductive server_reachable ::
    "environment \<Rightarrow> ('db, 'stmt) sqlite_api \<Rightarrow> job \<Rightarrow> 'db \<Rightarrow> 'db server \<Rightarrow> bool" for env api zero db where
  start: "server_reachable env api zero db (server_init env zero db)"
| step: "server_reachable env api zero db s \<Longrightarrow> server_step env api s s' \<Longrightarrow>
    server_reachable env api zero db s'"

inductive_cases server_stepE: "server_step env api s s'"

section \<open>SQLite\<close>

text \<open>
  What the code relies on: the four statements can be prepared, a row of the select has its four
  columns, and a text column is zero-terminated.
\<close>

definition sqlite_ok :: "('db, 'stmt) sqlite_api \<Rightarrow> bool" where
  "sqlite_ok api \<longleftrightarrow>
     (\<forall>db sql. sql \<in> {SQL_InsertTest, SQL_SelectTest, SQL_UpdateTest, SQL_DeleteTest} \<longrightarrow>
        fst (sqlite3_prepare_v2 api db sql) = SQLITE_OK) \<and>
     (\<forall>db pid rc db' st. select_row api db pid = Inr (rc, db', st) \<and> rc = SQLITE_ROW \<longrightarrow>
        4 \<le> sqlite3_column_count api st) \<and>
     (\<forall>st i str. sqlite3_column_text api st i = Some str \<longrightarrow> 0 \<in> set str)"

lemma strcpy_s_terminated_source:
  "0 \<in> set src \<Longrightarrow> strcpy_s dst src = Inl e \<Longrightarrow> e = InvalidParameter"
proof -
  assume "0 \<in> set src" and e: "strcpy_s dst src = Inl e"
  then obtain k where k: "strnlen src = Some k" using strnlen_Some_iff [of src] by auto
  show ?thesis
  proof (rule ccontr)
    assume "e \<noteq> InvalidParameter"
    with e have "strnlen (take (length dst) src) = None" "length src < length dst"
      by (auto simp: strcpy_s_def split: option.splits if_splits)
    with k show False by simp
  qed
qed

lemma run_statement_safe:
  assumes "sqlite_ok api" and "sql \<in> {SQL_InsertTest, SQL_SelectTest, SQL_UpdateTest, SQL_DeleteTest}"
  shows "safe (\<lambda>_. True) (rbind (rbind (run_statement api db sql vs) (\<lambda>(ok, db'). Inr (ok, db', c)))
    (\<lambda>(ok, db, c). Inr (ok, db, f c)))"
proof -
  obtain st where "sqlite3_prepare_v2 api db sql = (SQLITE_OK, st)"
    using assms by (metis prod.collapse sqlite_ok_def)
  then show ?thesis by (simp add: run_statement_def split: prod.split)
qed

lemma LoadPlayer_OnExecute_safe:
  assumes api: "sqlite_ok api" and c: "terminated MAX_NAME_LEN (load_mPlayerName c)"
  shows "safe (\<lambda>_. True) (LoadPlayer_OnExecute api db c)"
proof -
  obtain st where "sqlite3_prepare_v2 api db SQL_SelectTest = (SQLITE_OK, st)"
    using api by (metis insertI1 insertI2 prod.collapse sqlite_ok_def)
  then obtain rc db' st' where row: "select_row api db (load_mPlayerId c) = Inr (rc, db', st')"
    by (cases "sqlite3_step api db (bind_values api 1 [SqlInt (load_mPlayerId c)] st)") (simp add: select_row_def)
  show ?thesis
  proof (cases "rc = SQLITE_ROW")
    case False
    with LoadPlayer_no_row [OF row] show ?thesis by simp
  next
    case True
    with row api have cols: "4 \<le> sqlite3_column_count api st'" by (auto simp: sqlite_ok_def)
    from LoadPlayer_row [OF row [unfolded True] cols] c
    have "LoadPlayer_OnExecute api db c =
      (case sqlite3_column_text api st' 0 of
         None \<Rightarrow> Inl InvalidParameter
       | Some s \<Rightarrow> rbind (strcpy_s (load_mPlayerName c) s) (\<lambda>n.
           Inr (True, sqlite3_finalize api db' st',
             c\<lparr>load_mPosX := sqlite3_column_double api st' 1, load_mPosY := sqlite3_column_double api st' 2,
               load_mPosZ := sqlite3_column_double api st' 3, load_mPlayerName := n\<rparr>)))"
      by (simp add: terminated_def)
    moreover have "safe (\<lambda>_. True) (strcpy_s (load_mPlayerName c) s)" if "sqlite3_column_text api st' 0 = Some s" for s
      using that api strcpy_s_terminated_source [of s "load_mPlayerName c"]
      by (cases "strcpy_s (load_mPlayerName c) s") (auto simp: sqlite_ok_def)
    ultimately show ?thesis by (auto intro: safe_bind split: option.split)
  qed
qed

lemma OnExecute_safe:
  assumes "sqlite_ok api" and "job_ok j"
  shows "safe (\<lambda>(ok, db', j'). job_ok j') (OnExecute api db j)"
proof -
  have "safe (\<lambda>_. True) (OnExecute api db j)"
  proof (cases j)
    case (LoadPlayer c)
    with LoadPlayer_OnExecute_safe [OF assms(1), of c db] assms(2) show ?thesis
      by (auto intro: safe_bind split: prod.split)
  next
    case (CreatePlayer c)
    with assms run_statement_safe [OF assms(1), of SQL_InsertTest] show ?thesis
      by (simp add: CreatePlayer_statement)
  next
    case (DeletePlayer c)
    with assms run_statement_safe [OF assms(1), of SQL_DeleteTest] show ?thesis
      by (simp add: DeletePlayer_statement)
  next
    case (UpdatePlayer c)
    with assms run_statement_safe [OF assms(1), of SQL_UpdateTest] show ?thesis
      by (simp add: UpdatePlayer_statement)
  qed
  then show ?thesis
    using OnExecute_keeps(2) [of api db j] assms(2) by (cases "OnExecute api db j") auto
qed

section \<open>Every reachable state\<close>

definition server_ok :: "environment \<Rightarrow> 'db server \<Rightarrow> bool" where
  "server_ok env s \<longleftrightarrow> world_ok env (client s) \<and> pcq_ok PENDING_ACCEPT (pending_accept s) \<and>
     list_all job_ok (in_hand (db_worker s))"

lemma world_ok_init: "world_ok env (world_init env zero)"
proof -
  have "pcq_ok MAX_DB_JOB (ProducerConsumerQueue MAX_DB_JOB zero)" by (rule pcq_ok_init) (simp_all add: MAX_DB_JOB_def)
  then show ?thesis
    by (simp add: world_ok_def world_init_def manager_ok_def DatabaseJobManager_new_def map_ok_def pool_ok_init)
qed

lemma server_ok_init: "server_ok env (server_init env zero db)"
  using world_ok_init [of env zero]
  by (simp add: server_ok_def server_init_def PENDING_ACCEPT_def pcq_ok_init)

lemma world_ok_manager:
  "world_ok env w \<Longrightarrow> manager_ok m \<Longrightarrow> world_ok env (w\<lparr>GDatabaseJobManager := m\<rparr>)"
  by (simp add: world_ok_def client_ok_def recv_ok_def send_ok_def task_ok_def refs_def)

lemma ClientHandlingThread_turn_safe:
  assumes ok: "world_ok env w" and q: "pcq_ok PENDING_ACCEPT q" and env: "env_ok env"
  shows "safe (\<lambda>(b, q', w'). pcq_ok PENDING_ACCEPT q' \<and> world_ok env w') (ClientHandlingThread_turn env q w)"
  using q
proof (cases rule: pcq.get_cases [where w = False])
  case (taken sock q')
  have "safe (\<lambda>(b, q', w'). pcq_ok PENDING_ACCEPT q' \<and> world_ok env w')
      (rbind (HandleAccept env sock w) (\<lambda>w. Inr (False, q', w)))"
    by (rule safe_bind [OF HandleAccept_safe [OF ok env]]) (use taken in simp)
  with taken show ?thesis by (simp add: ClientHandlingThread_turn_def)
next
  case empty
  have "safe (\<lambda>(b, q', w'). pcq_ok PENDING_ACCEPT q' \<and> world_ok env w')
      (rbind (FlushClientSend env w) (\<lambda>w. Inr (True, q, w)))"
    by (rule safe_bind [OF FlushClientSend_safe [OF ok]]) (use q in simp)
  with empty show ?thesis by (simp add: ClientHandlingThread_turn_def)
qed

lemma ExecuteDatabaseJobs_step_safe:
  assumes m: "manager_ok m" and wk: "list_all job_ok (in_hand wk)" and api: "sqlite_ok api"
  shows "safe (\<lambda>(db', wk', m'). manager_ok m' \<and> list_all job_ok (in_hand wk'))
    (ExecuteDatabaseJobs_step api (db, wk, m))"
proof (cases wk)
  case Ready
  from m have "pcq_ok MAX_DB_JOB (mDbJobRequestQueue m)" by (simp add: manager_ok_def)
  then show ?thesis
    by (cases rule: take_request_cases [where api = api and db = db])
      (use Ready m in \<open>auto simp: manager_ok_def\<close>)
next
  case (Executing j)
  with wk have "job_ok j" by simp
  from OnExecute_safe [OF api this, of db]
  have "safe (\<lambda>(db', wk', m'). manager_ok m' \<and> list_all job_ok (in_hand wk'))
      (rbind (OnExecute api db j) (\<lambda>(ok, db, j). Inr (db, Finished (SetSuccess ok j), m)))"
    by (rule safe_bind) (use m in auto)
  with Executing show ?thesis by (simp add: execute_step)
next
  case (Finished j)
  from m have "pcq_ok MAX_DB_JOB (mDbJobResultQueue m)" by (simp add: manager_ok_def)
  then show ?thesis
    by (cases rule: put_result_cases [where api = api and db = db and j = j])
      (use Finished m wk in \<open>auto simp: manager_ok_def\<close>)
qed

lemma after_apc_safe:
  "server_ok env s \<Longrightarrow> safe_option (world_ok env) m \<Longrightarrow> safe_option (server_ok env) (after_apc s m)"
  unfolding after_apc_def by (erule safe_then_do) (simp add: server_ok_def)

lemma server_act_safe:
  assumes ok: "server_ok env s" and env: "env_ok env" and api: "sqlite_ok api" and en: "enabled a s"
  shows "safe_option (server_ok env) (server_act env api a s)"
proof -
  from ok have w: "world_ok env (client s)" and q: "pcq_ok PENDING_ACCEPT (pending_accept s)"
    and wk: "list_all job_ok (in_hand (db_worker s))" by (simp_all add: server_ok_def)
  show ?thesis
  proof (cases a)
    case (Accepted sock)
    from q show ?thesis
      by (cases rule: pcq.put_cases [where x = sock and w = True])
        (use Accepted ok in \<open>auto simp: server_ok_def\<close>)
  next
    case ClientTurn
    from ClientHandlingThread_turn_safe [OF w q env] have "safe (server_ok env)
      (rbind (ClientHandlingThread_turn env (pending_accept s) (client s)) (\<lambda>(sleeps, q, w).
       Inr (s\<lparr>pending_accept := q, client := w, client_pc := (if sleeps then InSleepEx else AtLoopTop)\<rparr>)))"
      by (rule safe_bind) (use wk in \<open>auto simp: server_ok_def\<close>)
    with ClientTurn show ?thesis by simp
  next
    case TimerApc
    with after_apc_safe [OF ok TimerProc_safe [OF w]] show ?thesis by simp
  next
    case (RecvApc op err bs)
    with after_apc_safe [OF ok complete_recv_safe [OF w]] en show ?thesis by simp
  next
    case (SendApc op err n)
    with after_apc_safe [OF ok, of "Some (complete_send env op err n (client s))"] complete_send_safe [OF w] en
    show ?thesis by simp
  next
    case DatabaseTurn
    from ExecuteDatabaseJobs_step_safe [OF world_ok_pending(8) [OF w] wk api, of "server_db s"]
    have "safe (server_ok env)
      (rbind (ExecuteDatabaseJobs_step api (server_db s, db_worker s, GDatabaseJobManager (client s)))
       (\<lambda>(db, wk, m). Inr (s\<lparr>server_db := db, db_worker := wk, client := (client s)\<lparr>GDatabaseJobManager := m\<rparr>\<rparr>)))"
      by (rule safe_bind) (use w q in \<open>auto simp: server_ok_def world_ok_manager\<close>)
    with DatabaseTurn show ?thesis by simp
  qed
qed

lemma server_reachable_ok:
  assumes "server_reachable env api zero db s" and "env_ok env" and "sqlite_ok api"
  shows "server_ok env s"
  using assms(1)
proof induction
  case start
  show ?case by (rule server_ok_init)
next
  case (step s s')
  from step.hyps(2) obtain a where "enabled a s" "server_act env api a s = Some (Inr s')" by (rule server_stepE)
  with server_act_safe [OF step.IH assms(2,3), of a] show ?case by simp
qed

section \<open>A concrete environment\<close>

text \<open>
  System calls that succeed at once, objects of 64 bytes in blocks behind the live ones, zeroed
  memory, and a tick that the argument gives.
\<close>

definition demo_env :: "dword \<Rightarrow> environment" where
  "demo_env tick =
     \<lparr>os_setsockopt_fails = \<lambda>_. False, os_WSARecv = \<lambda>_. WsaIoPending, os_WSASend = \<lambda>_. WsaIoPending,
      os_getpeername = \<lambda>_. replicate sizeof_SOCKADDR_IN 0, os_GetTickCount = \<lambda>_. tick,
      new_block = \<lambda>A. if A = {} then 64 else Max A + 64, fresh_memory = \<lambda>_. 0,
      float_of_double = ucast, double_of_float = ucast, sizeof_ClientSession = 64\<rparr>"

lemma demo_env_ok: "env_ok (demo_env tick)"
proof -
  have "a + 64 \<le> (if A = {} then 64 else Max A + 64)" if "finite A" "a \<in> A" for A and a :: nat
    using that Max_ge [of A a] by auto
  then show ?thesis by (auto simp: env_ok_def demo_env_def block_fresh_def)
qed

lemma empty_db_ok: "sqlite_ok empty_db"
  by (auto simp: sqlite_ok_def empty_db_def select_row_def)

abbreviation demo_job :: job where
  "demo_job \<equiv> delete_one"

text \<open>The world after the first connection, on socket 7: one session at address 64, receiving.\<close>

definition demo_session :: session where
  "demo_session =
     (ClientSession_new (\<lambda>_. 0) 7)\<lparr>mConnected := True, mClientAddr := replicate sizeof_SOCKADDR_IN 0,
        mOverlappedRecv := Some 64, mRefCount := 1\<rparr>"

definition demo_world :: "dword \<Rightarrow> world" where
  "demo_world tick =
     (world_init (demo_env tick) demo_job)
       \<lparr>sessions := [64 \<mapsto> demo_session],
        mPool := snd (projr (operator_new 64 ALLOC_COUNT 64 ObjectPool)),
        mClientList := [(7, 64)],
        pending_recv := [\<lparr>io_session = 64, io_offset = 0, io_length = BUFSIZE\<rparr>], calls := 3\<rparr>"

lemma operator_new_demo:
  "operator_new 64 ALLOC_COUNT 64 ObjectPool = Inr (64, snd (projr (operator_new 64 ALLOC_COUNT 64 ObjectPool)))"
  by (simp add: operator_new_def ObjectPool_def Let_def split: prod.split)

lemma HandleAccept_demo:
  "HandleAccept (demo_env tick) 7 (world_init (demo_env tick) demo_job) = Inr (demo_world tick)"
proof -
  let ?env = "demo_env tick"
  have new: "operator_new (sizeof_ClientSession ?env) ALLOC_COUNT (new_block ?env (dom (sessions (world_init ?env demo_job))))
      (mPool (world_init ?env demo_job)) = Inr (64, snd (projr (operator_new 64 ALLOC_COUNT 64 ObjectPool)))"
    using operator_new_demo by (simp add: demo_env_def world_init_def)
  show ?thesis
    unfolding HandleAccept_def CreateClient_def
    apply (subst new)
    by (simp add: world_init_def OnConnect_def modify_session_def get_session_def
        set_session_def PostRecv_def ClientSession_new_def CircularBuffer_def GetFreeSpaceSize_def GetAFreeSpace_def
        GetSpaceBeforeA_def BUFSIZE_def GetBuffer_def WSARecv_def sys_call_def IncRefCount_def Let_def demo_world_def
        demo_session_def demo_env_def)
qed

definition demo_server :: "dword \<Rightarrow> unit server" where
  "demo_server tick =
     \<lparr>pending_accept = \<lparr>mQueueArray = (replicate PENDING_ACCEPT 0)[0 := 7], mOccupiedSize = 0, mQueueOffset = 1\<rparr>,
      client_pc = AtLoopTop, client = demo_world tick, server_db = (), db_worker = Ready\<rparr>"

lemma demo_server_reachable:
  "server_reachable (demo_env tick) empty_db demo_job () (demo_server tick)"
proof -
  let ?s0 = "server_init (demo_env tick) demo_job () :: unit server"
  let ?s1 = "?s0\<lparr>pending_accept := \<lparr>mQueueArray = (replicate PENDING_ACCEPT 0)[0 := 7], mOccupiedSize = 1,
    mQueueOffset = 0\<rparr>\<rparr>"
  have 1: "server_act (demo_env tick) empty_db (Accepted 7) ?s0 = Some (Inr ?s1)"
    by (simp add: server_init_def Produce_def ProducerConsumerQueue_def PENDING_ACCEPT_def)
  have "Consume PENDING_ACCEPT (pending_accept ?s1) False =
      Inr (Some 7, \<lparr>mQueueArray = (replicate PENDING_ACCEPT 0)[0 := 7], mOccupiedSize = 0, mQueueOffset = 1\<rparr>)"
    by (simp add: Consume_def PENDING_ACCEPT_def)
  then have 2: "server_act (demo_env tick) empty_db ClientTurn ?s1 = Some (Inr (demo_server tick))"
    by (simp add: ClientHandlingThread_turn_def HandleAccept_demo server_init_def demo_server_def)
  have "server_reachable (demo_env tick) empty_db demo_job () ?s1"
    by (rule server_reachable.step [OF server_reachable.start]) (rule server_step.act [OF _ 1], simp)
  then show ?thesis
    by (rule server_reachable.step) (rule server_step.act [OF _ 2], simp add: server_init_def)
qed

section \<open>Properties\<close>



text \<open>
  C2: a session is not deleted as long as anything refers to it. In every reachable state the
  client list maps a socket to a live session of that socket; the session of every receive or send
  under way and the owner of every scheduled task is live; its reference counter is the number of
  these operations and tasks; and no session has two receives under way.
\<close>

theorem server_sessions_live:
  assumes "server_reachable env api zero db s" and "env_ok env" and "sqlite_ok api"
  shows "(\<forall>(sock, a) \<in> set (mClientList (client s)). \<exists>c. sessions (client s) a = Some c \<and> mSocket c = sock) \<and>
    (\<forall>op \<in> set (pending_recv (client s) @ pending_send (client s)). io_session op \<in> dom (sessions (client s))) \<and>
    (\<forall>j \<in> set (mTaskQueue (client s)). mOwner j \<in> dom (sessions (client s))) \<and>
    (\<forall>a c. sessions (client s) a = Some c \<longrightarrow> mRefCount c = int
       (length (filter (\<lambda>op. io_session op = a) (pending_recv (client s))) +
        length (filter (\<lambda>op. io_session op = a) (pending_send (client s))) +
        length (filter (\<lambda>j. mOwner j = a) (mTaskQueue (client s))))) \<and>
    distinct (map io_session (pending_recv (client s)))"
proof -
  let ?w = "client s"
  have ok: "world_ok env ?w" using server_reachable_ok [OF assms] by (simp add: server_ok_def)
  have "\<forall>(sock, a) \<in> set (mClientList ?w). \<exists>c. sessions ?w a = Some c \<and> mSocket c = sock"
    using client_entry [OF ok] by blast
  moreover have "\<forall>op \<in> set (pending_recv ?w @ pending_send ?w). io_session op \<in> dom (sessions ?w)"
    using world_ok_pending(1,2) [OF ok] by (auto simp: recv_ok_def send_ok_def)
  moreover have "\<forall>j \<in> set (mTaskQueue ?w). mOwner j \<in> dom (sessions ?w)"
    using world_ok_pending(3) [OF ok] by (simp add: task_ok_def)
  moreover have "size (filter_mset P (mset q)) = length (filter P q)" for P and q :: "server_task JobElement list"
    by (metis mset_filter size_mset)
  ultimately show ?thesis
    using world_ok_session [OF ok] world_ok_pending(4) [OF ok] by (simp add: refs_def)
qed

theorem server_sessions_live_witness:
  "mClientList (client (demo_server 0)) = [(7, 64)] \<and> length (pending_recv (client (demo_server 0))) = 1 \<and>
    64 \<in> dom (sessions (client (demo_server 0)))"
  using server_sessions_live [OF demo_server_reachable demo_env_ok empty_db_ok, of 0]
  by (simp add: demo_server_def demo_world_def)

end
