(* ===== verification/Read_Loop.thy ===== *)
theory Read_Loop
  imports Server_System Packet_Streams
begin

text \<open>
  What \<open>ClientSession::OnRead\<close> (\<open>EasyServer/EasyServer/PacketHandling.cpp\<close>) does with a stream: on
  complete well-formed requests it is the sequence of their handlers and leaves the incomplete
  rest in the buffer; on a packet without a handler, or one that is shorter than its type, it does
  not return.
\<close>

section \<open>Operations that leave the receive buffers alone\<close>

definition recv_same :: "world \<Rightarrow> world \<Rightarrow> bool" where
  "recv_same w w' \<longleftrightarrow> (\<forall>b. map_option mRecvBuffer (sessions w' b) = map_option mRecvBuffer (sessions w b))"

lemma recv_same_refl [simp]: "recv_same w w"
  by (simp add: recv_same_def)

lemma recv_same_trans: "recv_same w w' \<Longrightarrow> recv_same w' w'' \<Longrightarrow> recv_same w w''"
  by (simp add: recv_same_def)

lemma recv_same_set:
  "sessions w a = Some s \<Longrightarrow> mRecvBuffer s' = mRecvBuffer s \<Longrightarrow> recv_same w (set_session a s' w)"
  by (simp add: recv_same_def)

lemma recv_same_sessions: "sessions w' = sessions w \<Longrightarrow> recv_same w w'"
  by (simp add: recv_same_def)

lemma recv_same_Some:
  "recv_same w w' \<Longrightarrow> sessions w a = Some s \<Longrightarrow> \<exists>s'. sessions w' a = Some s' \<and> mRecvBuffer s' = mRecvBuffer s"
  unfolding recv_same_def by (metis map_option_eq_Some option.simps(9))

lemma get_session_eq [simp]:
  "get_session a w = Inr s \<longleftrightarrow> sessions w a = Some s" "get_session a w = Inl e \<longleftrightarrow> sessions w a = None \<and> e = DanglingPointer"
  by (auto simp: get_session_def split: option.splits)

lemma modify_session_recv:
  "modify_session a f w = Inr w' \<Longrightarrow> (\<And>s. mRecvBuffer (f s) = mRecvBuffer s) \<Longrightarrow> recv_same w w'"
  by (auto simp: modify_session_def rbind_eq_Inr intro: recv_same_set)

lemma Disconnect_recv: "Disconnect env a w = Inr w' \<Longrightarrow> recv_same w w'"
  by (auto simp: Disconnect_def rbind_eq_Inr setsockopt_def closesocket_def recv_same_def split: if_splits)

lemma SendRequest_recv:
  assumes "SendRequest env a pkt w = Inr (b, w')"
  shows "recv_same w w'"
proof -
  from assms obtain s where s: "sessions w a = Some s" by (auto simp: SendRequest_def rbind_eq_Inr)
  show ?thesis
  proof (cases "mConnected s")
    case True
    with assms s obtain ok sb where
      "Write (mSendBuffer s) pkt (sz_of_short (mSize (PacketHeader_at pkt))) = Inr (ok, sb)"
      and rest: "(if ok then Inr (True, set_session a (s\<lparr>mSendBuffer := sb\<rparr>) w)
        else rbind (Disconnect env a (set_session a (s\<lparr>mSendBuffer := sb\<rparr>) w)) (\<lambda>w. Inr (False, w))) = Inr (b, w')"
      by (auto simp: SendRequest_def rbind_eq_Inr get_session_def Let_def)
    have "recv_same w (set_session a (s\<lparr>mSendBuffer := sb\<rparr>) w)" using s by (rule recv_same_set) simp
    with rest show ?thesis
      by (auto simp: rbind_eq_Inr split: if_splits dest: Disconnect_recv intro: recv_same_trans)
  qed (use assms s in \<open>auto simp: SendRequest_def get_session_def\<close>)
qed

lemma BroadcastPacket_loop_recv: "BroadcastPacket_loop env sender pkt it w = Inr w' \<Longrightarrow> recv_same w w'"
proof (induction it arbitrary: w)
  case (Cons e it)
  then show ?case
    by (cases e) (auto simp: rbind_eq_Inr split: if_splits dest!: SendRequest_recv intro: recv_same_trans)
qed simp

lemma Broadcast_recv: "Broadcast env a pkt w = Inr (b, w') \<Longrightarrow> recv_same w w'"
  by (auto simp: Broadcast_def rbind_eq_Inr BroadcastPacket_def split: if_splits
      dest!: SendRequest_recv BroadcastPacket_loop_recv intro: recv_same_trans)

lemma PushJob_recv: "PushJob j w = Inr w' \<Longrightarrow> recv_same w w'"
  by (auto simp: PushJob_def rbind_eq_Inr intro: recv_same_sessions)

section \<open>The effect of a request\<close>

text \<open>What the server does with a request once it is out of the buffer.\<close>

fun packet_effect :: "environment \<Rightarrow> nat \<Rightarrow> client_packet \<Rightarrow> world \<Rightarrow> world res" where
  "packet_effect env a (LoginPacket p) w =
     rbind (GetSocketKey a w) (\<lambda>key. PushJob (LoadPlayer (LoadPlayerDataContext_new key (lr_mPlayerId p))) w)"
| "packet_effect env a (ChatPacket p) w =
     rbind (GetPlayerId a w) (\<lambda>pid.
     if cr_mPlayerId p \<noteq> pid then Inr w
     else
       rbind (GetPlayerName a w) (\<lambda>name.
       rbind (strcpy_s (replicate MAX_NAME_LEN 0) name) (\<lambda>outName.
       rbind (strcpy_s (replicate MAX_CHAT_LEN 0) (cr_mChat p)) (\<lambda>outChat.
       rbind (Broadcast env a (ChatBroadcastResult_bytes
           (ChatBroadcastResult_init\<lparr>cs_mPlayerId := pid, cs_mName := outName, cs_mChat := outChat\<rparr>)) w)
         (\<lambda>(ok, w). if \<not> ok then Disconnect env a w else Inr w)))))"
| "packet_effect env a (MovePacket p) w =
     rbind (GetPlayerId a w) (\<lambda>pid.
     if mr_mPlayerId p \<noteq> pid then Inr w
     else
       rbind (SetPosition a (mr_mPosX p) (mr_mPosY p) w) (\<lambda>w.
       rbind (Broadcast env a (MoveBroadcastResult_bytes
           (MoveBroadcastResult_init\<lparr>ms_mPlayerId := pid, ms_mPosX := mr_mPosX p, ms_mPosY := mr_mPosY p\<rparr>)) w)
         (\<lambda>(ok, w). if \<not> ok then Disconnect env a w else Inr w)))"

lemma packet_effect_recv:
  assumes "packet_effect env a p w = Inr w'"
  shows "recv_same w w'"
proof (cases p)
  case (MovePacket q)
  with assms show ?thesis
    by (auto simp: rbind_eq_Inr SetPosition_def split: if_splits
        dest!: Broadcast_recv Disconnect_recv intro: recv_same_trans
        dest!: modify_session_recv [where f = "\<lambda>s. s\<lparr>mPosX := mr_mPosX q, mPosY := mr_mPosY q\<rparr>"])
qed (use assms in \<open>auto simp: rbind_eq_Inr split: if_splits
    dest!: Broadcast_recv Disconnect_recv PushJob_recv intro: recv_same_trans\<close>)

text \<open>One request after the other: each is taken out of the buffer and then handled.\<close>

fun handle_packets :: "environment \<Rightarrow> nat \<Rightarrow> client_packet list \<Rightarrow> world \<Rightarrow> world res" where
  "handle_packets env a [] w = Inr w"
| "handle_packets env a (p # ps) w =
     rbind (get_session a w) (\<lambda>s.
     rbind (Read (mRecvBuffer s) (length (packet_bytes p))) (\<lambda>(_, rb).
     rbind (packet_effect env a p (set_session a (s\<lparr>mRecvBuffer := rb\<rparr>) w)) (\<lambda>w.
     handle_packets env a ps w)))"

section \<open>One turn\<close>

lemma HandlerTable_entries:
  "length HandlerTable = 1024"
  "HandlerTable ! 1 = CS_LOGIN_HandlerFunc" "HandlerTable ! 11 = CS_CHAT_HandlerFunc"
  "HandlerTable ! 21 = CS_MOVE_HandlerFunc"
  "i < 1024 \<Longrightarrow> i \<notin> {1, 11, 21} \<Longrightarrow> HandlerTable ! i = Default_HandlerFunc"
  by (simp_all add: HandlerTable_def RegisterHandler_def InitializeHandlers_def)

lemma HandlerTable_requests:
  "PKT_NONE < t \<Longrightarrow> t < PKT_MAX \<Longrightarrow>
     HandlerTable ! nat (PacketTypes_value t) = Default_HandlerFunc \<longleftrightarrow> t \<in> {PKT_SC_LOGIN, PKT_SC_CHAT, PKT_SC_MOVE}"
  by (cases t) (simp_all add: HandlerTable_entries HandlerTable_entries(2) [unfolded One_nat_def] less_PacketTypes_def)

lemma OnRead_turn_packet:
  assumes s: "sessions w a = Some s" and cb: "cb_ok (mRecvBuffer s)"
    and c: "contents (mRecvBuffer s) = packet_bytes p @ rest" and p: "packet_ok p"
  shows "\<exists>rb. Read (mRecvBuffer s) (length (packet_bytes p)) = Inr (Some (packet_bytes p), rb) \<and>
    cb_ok rb \<and> contents rb = rest \<and>
    OnRead_turn env a w = rbind (packet_effect env a p (set_session a (s\<lparr>mRecvBuffer := rb\<rparr>) w)) (\<lambda>w. Inr (True, w))"
proof -
  from Read_contents [OF cb, of "length (packet_bytes p)"] c obtain rb where
    rb: "Read (mRecvBuffer s) (length (packet_bytes p)) = Inr (Some (packet_bytes p), rb)" "cb_ok rb" "contents rb = rest"
    by auto
  note len = length_client_packet [OF p]
  have peek: "Peek (mRecvBuffer s) sizeof_PacketHeader = Inr (Some (take 4 (packet_bytes p)))"
    using Peek_contents [OF cb, of sizeof_PacketHeader] c len
    by (cases p) (simp_all add: sizeof_PacketHeader_def)
  have stored: "GetStoredSize (mRecvBuffer s) = length (packet_bytes p) + length rest"
    using GetStoredSize_contents [OF cb] c by simp
  have "OnRead_turn env a w = rbind (packet_effect env a p (set_session a (s\<lparr>mRecvBuffer := rb\<rparr>) w)) (\<lambda>w. Inr (True, w))"
  proof (cases p)
    case (LoginPacket q)
    then have h: "PacketHeader_at (take 4 (packet_bytes p)) = \<lparr>mSize = 8, mType = 1\<rparr>"
      using p PacketHeader_at_packet [of q] by (simp add: LoginRequest_bytes_def LoginRequest_init_def sizeof_defs)
    have "LoginRequest_at (packet_bytes p) = q" using LoginPacket packet_roundtrip(1) by simp
    with LoginPacket rb s h peek stored len HandlerTable_entries(2) show ?thesis
      by (simp add: OnRead_turn_def get_session_def Handler_PKT_CS_LOGIN_def ParsePacket_def LoginRequest_init_def
          sizeof_LoginRequest_def rbind_assoc Let_def)
  next
    case (ChatPacket q)
    then have h: "PacketHeader_at (take 4 (packet_bytes p)) = \<lparr>mSize = 264, mType = 11\<rparr>"
      using p PacketHeader_at_packet [of q]
      by (simp add: ChatBroadcastRequest_bytes_def ChatBroadcastRequest_init_def sizeof_defs)
    have "ChatBroadcastRequest_at (packet_bytes p) = q" using ChatPacket p packet_roundtrip(3) by simp
    with ChatPacket rb s h peek stored len HandlerTable_entries(3) show ?thesis
      by (auto simp: OnRead_turn_def get_session_def Handler_PKT_CS_CHAT_def ParsePacket_def ChatBroadcastRequest_init_def
          ChatBroadcastResult_init_def sizeof_ChatBroadcastRequest_def MAX_CHAT_LEN_def GetPlayerId_def Let_def)
  next
    case (MovePacket q)
    then have h: "PacketHeader_at (take 4 (packet_bytes p)) = \<lparr>mSize = 16, mType = 21\<rparr>"
      using p PacketHeader_at_packet [of q] by (simp add: MoveRequest_bytes_def MoveRequest_init_def sizeof_defs)
    have "MoveRequest_at (packet_bytes p) = q" using MovePacket packet_roundtrip(5) by simp
    with MovePacket rb s h peek stored len HandlerTable_entries(4) show ?thesis
      by (auto simp: OnRead_turn_def get_session_def Handler_PKT_CS_MOVE_def ParsePacket_def MoveRequest_init_def
          sizeof_MoveRequest_def GetPlayerId_def Let_def)
  qed
  with rb show ?thesis by blast
qed

section \<open>The whole loop\<close>

lemma OnRead_loop_stop: "OnRead_turn env a w = Inr (False, w') \<Longrightarrow> OnRead_loop env a w = Some (Inr w')"
  by (subst OnRead_loop.simps) simp

lemma OnRead_loop_fault: "OnRead_turn env a w = Inl e \<Longrightarrow> OnRead_loop env a w = Some (Inl e)"
  by (subst OnRead_loop.simps) simp

lemma OnRead_loop_goes_on: "OnRead_turn env a w = Inr (True, w') \<Longrightarrow> OnRead_loop env a w = OnRead_loop env a w'"
  by (subst OnRead_loop.simps) simp

lemma OnRead_turn_incomplete:
  assumes s: "sessions w a = Some s" and cb: "cb_ok (mRecvBuffer s)" and inc: "incomplete (contents (mRecvBuffer s))"
  shows "OnRead_turn env a w = Inr (False, w)"
  using s Peek_contents [OF cb, of sizeof_PacketHeader] GetStoredSize_contents [OF cb] inc
  by (auto simp: OnRead_turn_def get_session_def incomplete_def Let_def)

text \<open>
  C6: when the receive buffer of a session holds complete well-formed requests and then an
  incomplete rest, \<open>OnRead\<close> returns, its effect is that of the handlers of these requests one
  after the other, each exactly once, and the rest stays in the buffer.
\<close>

theorem OnRead_packets:
  assumes "sessions w a = Some s" and "cb_ok (mRecvBuffer s)"
    and "contents (mRecvBuffer s) = concat (map packet_bytes ps) @ rest"
    and "\<forall>p \<in> set ps. packet_ok p" and "incomplete rest"
  shows "OnRead_loop env a w = Some (handle_packets env a ps w) \<and>
    (\<forall>w'. handle_packets env a ps w = Inr w' \<longrightarrow>
      (\<exists>s'. sessions w' a = Some s' \<and> cb_ok (mRecvBuffer s') \<and> contents (mRecvBuffer s') = rest))"
  using assms(1-4)
proof (induction ps arbitrary: w s)
  case Nil
  with assms(5) OnRead_loop_stop [OF OnRead_turn_incomplete] show ?case by simp
next
  case (Cons p ps)
  have p: "packet_ok p" and ps: "\<forall>p \<in> set ps. packet_ok p" using Cons.prems(4) by simp_all
  have c: "contents (mRecvBuffer s) = packet_bytes p @ (concat (map packet_bytes ps) @ rest)"
    using Cons.prems(3) by simp
  from OnRead_turn_packet [OF Cons.prems(1,2) c p, of env] obtain rb where
    rb: "Read (mRecvBuffer s) (length (packet_bytes p)) = Inr (Some (packet_bytes p), rb)" "cb_ok rb"
      "contents rb = concat (map packet_bytes ps) @ rest"
    and turn: "OnRead_turn env a w = rbind (packet_effect env a p (set_session a (s\<lparr>mRecvBuffer := rb\<rparr>) w))
      (\<lambda>w. Inr (True, w))" by blast
  let ?w = "set_session a (s\<lparr>mRecvBuffer := rb\<rparr>) w"
  have handle: "handle_packets env a (p # ps) w = rbind (packet_effect env a p ?w) (handle_packets env a ps)"
    using Cons.prems(1) rb(1) by (simp add: get_session_def)
  show ?case
  proof (cases "packet_effect env a p ?w")
    case (Inl e)
    with turn handle show ?thesis by (simp add: OnRead_loop_fault)
  next
    case (Inr w1)
    from recv_same_Some [OF packet_effect_recv [OF Inr], of a "s\<lparr>mRecvBuffer := rb\<rparr>"] obtain s1 where
      s1: "sessions w1 a = Some s1" "mRecvBuffer s1 = rb" by auto
    from turn Inr have "OnRead_loop env a w = OnRead_loop env a w1" by (simp add: OnRead_loop_goes_on)
    moreover from s1 rb ps have "OnRead_loop env a w1 = Some (handle_packets env a ps w1) \<and>
      (\<forall>w'. handle_packets env a ps w1 = Inr w' \<longrightarrow>
        (\<exists>s'. sessions w' a = Some s' \<and> cb_ok (mRecvBuffer s') \<and> contents (mRecvBuffer s') = rest))"
      by (intro Cons.IH [of w1 s1]) simp_all
    ultimately show ?thesis using handle Inr by simp
  qed
qed

section \<open>Packets that stop the server\<close>

text \<open>When every turn leads to another one, the loop does not return.\<close>

lemma OnRead_loop_diverges:
  assumes turn: "\<And>w. P w \<Longrightarrow> \<exists>w'. OnRead_turn env a w = Inr (True, w') \<and> P w'" and "P w"
  shows "OnRead_loop env a w = None"
proof (rule ccontr)
  assume "OnRead_loop env a w \<noteq> None"
  then obtain r where "OnRead_loop env a w = Some r" by blast
  then have "env = env \<and> a = a \<longrightarrow> \<not> P w"
  proof (rule OnRead_loop.raw_induct [where P = "\<lambda>e b w _. e = env \<and> b = a \<longrightarrow> \<not> P w", rotated])
    fix loop e b w r
    assume IH: "\<And>e b w r. loop e b w = Some r \<Longrightarrow> e = env \<and> b = a \<longrightarrow> \<not> P w"
      and r: "(case OnRead_turn e b w of Inl e \<Rightarrow> Some (Inl e)
        | Inr (goes_on, w') \<Rightarrow> if goes_on then loop e b w' else Some (Inr w')) = Some r"
    show "e = env \<and> b = a \<longrightarrow> \<not> P w"
    proof (intro impI notI, elim conjE)
      assume eq: "e = env" "b = a" and "P w"
      then obtain w' where "OnRead_turn env a w = Inr (True, w')" "P w'" using turn by blast
      with r eq have "loop env a w' = Some r" by simp
      with IH \<open>P w'\<close> show False by blast
    qed
  qed
  with assms(2) show False by simp
qed

text \<open>The header at the front of a receive buffer that holds the whole packet it announces.\<close>

definition front_header :: "world \<Rightarrow> nat \<Rightarrow> PacketHeader \<Rightarrow> bool" where
  "front_header w a h \<longleftrightarrow> (\<exists>s. sessions w a = Some s \<and> cb_ok (mRecvBuffer s) \<and>
     sizeof_PacketHeader \<le> length (contents (mRecvBuffer s)) \<and>
     PacketHeader_at (take sizeof_PacketHeader (contents (mRecvBuffer s))) = h \<and>
     sz_of_short (mSize h) \<le> length (contents (mRecvBuffer s)))"

lemma OnRead_turn_front:
  assumes "front_header w a h" and "0 < sint (mType h)" and "sint (mType h) < 1024"
  shows "OnRead_turn env a w =
    rbind (call_handler env (HandlerTable ! nat (sint (mType h))) a w) (\<lambda>w. Inr (True, w))"
proof -
  from assms(1) obtain s where s: "sessions w a = Some s" "cb_ok (mRecvBuffer s)"
    "sizeof_PacketHeader \<le> length (contents (mRecvBuffer s))"
    "PacketHeader_at (take sizeof_PacketHeader (contents (mRecvBuffer s))) = h"
    "sz_of_short (mSize h) \<le> length (contents (mRecvBuffer s))" by (auto simp: front_header_def)
  with Peek_contents [OF s(2), of sizeof_PacketHeader] GetStoredSize_contents [OF s(2)] assms(2,3) show ?thesis
    by (simp add: OnRead_turn_def get_session_def)
qed

lemma Disconnect_returns:
  "sessions w a = Some s \<Longrightarrow> \<exists>w'. Disconnect env a w = Inr w'"
  by (simp add: Disconnect_def get_session_def setsockopt_def Let_def)

text \<open>
  C27: a complete packet of a type that is valid and has no handler makes \<open>OnRead\<close> run for ever,
  and with it the only client thread: \<open>DefaultHandler\<close> disconnects the session, but the loop
  neither takes the packet out of the buffer nor looks at the connection.
\<close>

theorem OnRead_unhandled_type_diverges:
  assumes "front_header w a h" and "0 < sint (mType h)" and "sint (mType h) < 1024"
    and "sint (mType h) \<notin> {1, 11, 21}"
  shows "OnRead_loop env a w = None"
proof (rule OnRead_loop_diverges [where P = "\<lambda>w. front_header w a h"])
  fix w assume front: "front_header w a h"
  then obtain s where s: "sessions w a = Some s" by (auto simp: front_header_def)
  from assms(2-4) have "nat (sint (mType h)) < 1024" "nat (sint (mType h)) \<notin> {1, 11, 21}" by auto
  from HandlerTable_entries(5) [OF this] OnRead_turn_front [OF front assms(2,3), of env]
  have turn: "OnRead_turn env a w = rbind (Disconnect env a w) (\<lambda>w. Inr (True, w))"
    by (simp add: DefaultHandler_def)
  from Disconnect_returns [OF s, of env] obtain w' where w': "Disconnect env a w = Inr w'" by blast
  from recv_same_Some [OF Disconnect_recv [OF w'] s] front s have "front_header w' a h"
    by (auto simp: front_header_def)
  with turn w' show "\<exists>w'. OnRead_turn env a w = Inr (True, w') \<and> front_header w' a h" by simp
qed (rule assms(1))

text \<open>
  A packet whose header announces fewer bytes than its type has, with no further bytes behind
  it, makes \<open>OnRead\<close> run for ever as well: the loop takes it as complete, the handler does not,
  and nothing is taken out of the buffer.
\<close>

theorem OnRead_short_packet_diverges:
  assumes "sessions w a = Some s" and "front_header w a h"
    and "(sint (mType h), n) \<in> {(1, sizeof_LoginRequest), (11, sizeof_ChatBroadcastRequest), (21, sizeof_MoveRequest)}"
    and "length (contents (mRecvBuffer s)) < n"
  shows "OnRead_loop env a w = None"
proof (rule OnRead_loop_diverges [where P = "\<lambda>w'. w' = w"])
  fix w' assume w': "w' = w"
  from assms(1,2) have cb: "cb_ok (mRecvBuffer s)" by (auto simp: front_header_def)
  have same: "set_session a (s\<lparr>mRecvBuffer := mRecvBuffer s\<rparr>) w = w"
    using assms(1) by (simp add: set_session_def fun_upd_idem)
  have short: "ParsePacket a k w = Inr (None, w)" if "sz_of_short k = n" for k
    using assms(1) that Read_false [OF cb assms(4)] same by (auto simp: ParsePacket_def get_session_def)
  have "call_handler env (HandlerTable ! nat (sint (mType h))) a w = Inr w"
    using assms(3) short HandlerTable_entries(2-4)
    by (auto simp: Handler_PKT_CS_LOGIN_def Handler_PKT_CS_CHAT_def Handler_PKT_CS_MOVE_def
        LoginRequest_init_def ChatBroadcastRequest_init_def MoveRequest_init_def sizeof_defs)
  with OnRead_turn_front [OF assms(2), of env] assms(3) w'
  show "\<exists>w''. OnRead_turn env a w' = Inr (True, w'') \<and> w'' = w" by auto
qed simp

section \<open>Concrete streams\<close>

text \<open>The connected session of \<open>demo_world\<close> with the given bytes in its receive buffer.\<close>

definition received :: "byte list \<Rightarrow> circular_buffer" where
  "received bs =
     \<lparr>mBuffer = bs @ replicate (BUFSIZE - length bs) 0, mBufferEnd = BUFSIZE, mARegionPointer = 0,
      mARegionSize = length bs, mBRegionPointer = None, mBRegionSize = 0\<rparr>"

definition reading :: "byte list \<Rightarrow> world" where
  "reading bs = set_session 64 (demo_session\<lparr>mRecvBuffer := received bs\<rparr>) (demo_world 0)"

lemma received_ok:
  assumes "length bs < 1000"
  shows "cb_ok (received bs)" and "contents (received bs) = bs" and "length (mBuffer (received bs)) = BUFSIZE"
  using assms by (simp_all add: received_def cb_ok_def contents_def BUFSIZE_def)

lemma demo_world_ok: "world_ok (demo_env t) (demo_world t)"
  using server_reachable_ok [OF demo_server_reachable demo_env_ok empty_db_ok, of t]
  by (simp add: server_ok_def demo_server_def)

lemma demo_world_session: "sessions (demo_world t) 64 = Some demo_session"
  by (simp add: demo_world_def)

lemma reading_session:
  assumes "length bs < 1000"
  shows "\<exists>s. sessions (reading bs) 64 = Some s \<and> cb_ok (mRecvBuffer s) \<and> contents (mRecvBuffer s) = bs \<and>
    session_ok s \<and> mPlayerId s = -1 \<and> \<not> mLogon s"
proof -
  have "session_ok demo_session" using world_ok_session [OF demo_world_ok demo_world_session] by simp
  then have "session_ok (demo_session\<lparr>mRecvBuffer := received bs\<rparr>)"
    using received_ok [OF assms] by (simp add: session_ok_def)
  then show ?thesis
    using received_ok [OF assms] by (simp add: reading_def demo_session_def ClientSession_new_def)
qed

theorem OnRead_packets_witness:
  "OnRead_loop (demo_env 0) 64 (reading (MoveRequest_bytes MoveRequest_init @ [16]))
    = Some (handle_packets (demo_env 0) 64 [MovePacket MoveRequest_init]
        (reading (MoveRequest_bytes MoveRequest_init @ [16])))"
proof -
  obtain s where s: "sessions (reading (MoveRequest_bytes MoveRequest_init @ [16])) 64 = Some s"
    "cb_ok (mRecvBuffer s)" "contents (mRecvBuffer s) = MoveRequest_bytes MoveRequest_init @ [16]"
    using reading_session [of "MoveRequest_bytes MoveRequest_init @ [16]"] by (auto simp: sizeof_defs)
  from OnRead_packets [OF s(1,2), of "[MovePacket MoveRequest_init]" "[16]"] s(3) show ?thesis
    by (simp add: incomplete_def sizeof_PacketHeader_def)
qed

theorem OnRead_unhandled_type_diverges_witness:
  "OnRead_loop (demo_env 0) 64 (reading [4, 0, 2, 0]) = None"
proof -
  obtain s where s: "sessions (reading [4, 0, 2, 0]) 64 = Some s"
    "cb_ok (mRecvBuffer s)" "contents (mRecvBuffer s) = [4, 0, 2, 0]"
    using reading_session [of "[4, 0, 2, 0]"] by auto
  then have "front_header (reading [4, 0, 2, 0]) 64 \<lparr>mSize = 4, mType = 2\<rparr>"
    by (simp add: front_header_def sizeof_PacketHeader_def PacketHeader_at_def word16_at_def sz_of_short_nonneg)
  then show ?thesis by (rule OnRead_unhandled_type_diverges) simp_all
qed

theorem OnRead_short_packet_diverges_witness:
  "OnRead_loop (demo_env 0) 64 (reading [4, 0, 21, 0]) = None"
proof -
  obtain s where s: "sessions (reading [4, 0, 21, 0]) 64 = Some s"
    "cb_ok (mRecvBuffer s)" "contents (mRecvBuffer s) = [4, 0, 21, 0]"
    using reading_session [of "[4, 0, 21, 0]"] by auto
  then have "front_header (reading [4, 0, 21, 0]) 64 \<lparr>mSize = 4, mType = 21\<rparr>"
    by (simp add: front_header_def sizeof_PacketHeader_def PacketHeader_at_def word16_at_def sz_of_short_nonneg)
  from OnRead_short_packet_diverges [OF s(1) this, of 16] s(3) show ?thesis
    by (simp add: sizeof_MoveRequest_def)
qed

end
