(* ===== verification/Server_Properties.thy ===== *)
theory Server_Properties
  imports Read_Loop
begin

text \<open>
  What the operations of the server do, on every branch: sending and broadcasting, login, garbage
  collection, connections on a socket number that is still in the client list, the flush of the
  send buffers, and the timer.
\<close>

section \<open>Sending\<close>

text \<open>The number of bytes a packet says it has.\<close>

definition packet_size :: "byte list \<Rightarrow> nat" where
  "packet_size pkt = sz_of_short (mSize (PacketHeader_at pkt))"

text \<open>
  \<open>SendRequest\<close> changes one session, in its send buffer and its flag: the packet is appended when
  it fits; otherwise the session is disconnected unless the system call fails.
\<close>

definition sent_to :: "byte list \<Rightarrow> session \<Rightarrow> session \<Rightarrow> bool" where
  "sent_to pkt s s' \<longleftrightarrow>
     s' = s\<lparr>mSendBuffer := mSendBuffer s', mConnected := mConnected s'\<rparr> \<and>
     contents (mSendBuffer s') = contents (mSendBuffer s) @
       (if mConnected s \<and> packet_size pkt \<le> room (mSendBuffer s) then take (packet_size pkt) pkt else []) \<and>
     (mConnected s' \<longrightarrow> mConnected s) \<and>
     (mConnected s \<and> packet_size pkt \<le> room (mSendBuffer s) \<longrightarrow> mConnected s')"

lemma SendRequest_spec:
  assumes ok: "world_ok env w" and s: "sessions w a = Some s" and pkt: "packet_fits pkt"
  shows "\<exists>w' s'. SendRequest env a pkt w = Inr (mConnected s \<and> packet_size pkt \<le> room (mSendBuffer s), w') \<and>
    fine env w w' \<and> sessions w' = (sessions w)(a \<mapsto> s') \<and> sent_to pkt s s' \<and>
    mTaskQueue w' = mTaskQueue w \<and> GDatabaseJobManager w' = GDatabaseJobManager w"
proof -
  from world_ok_session [OF ok s] have cb: "cb_ok (mSendBuffer s)" by (simp add: session_ok_def)
  have safe: "safe (\<lambda>(b, w'). fine env w w') (SendRequest env a pkt w)"
    using s by (intro SendRequest_safe [OF ok _ pkt]) auto
  consider (off) "\<not> mConnected s" | (fits) "mConnected s" "packet_size pkt \<le> room (mSendBuffer s)"
    | (full) "mConnected s" "room (mSendBuffer s) < packet_size pkt" by fastforce
  then show ?thesis
  proof cases
    case off
    then show ?thesis using s ok fine_refl [OF ok]
      by (intro exI [of _ w] exI [of _ s]) (auto simp: SendRequest_def get_session_def sent_to_def)
  next
    case fits
    from Write_contents [OF cb fits(2), of pkt] pkt obtain sb where
      sb: "Write (mSendBuffer s) pkt (packet_size pkt) = Inr (True, sb)"
        "contents sb = contents (mSendBuffer s) @ take (packet_size pkt) pkt"
      by (auto simp: packet_fits_def packet_size_def)
    let ?s = "s\<lparr>mSendBuffer := sb\<rparr>"
    have eq: "SendRequest env a pkt w = Inr (True, set_session a ?s w)"
      using fits s sb by (simp add: SendRequest_def get_session_def packet_size_def Let_def)
    with safe fits sb show ?thesis
      by (intro exI [of _ "set_session a ?s w"] exI [of _ ?s]) (simp add: sent_to_def)
  next
    case full
    from Write_full [OF cb full(2), of pkt] obtain sb where
      sb: "Write (mSendBuffer s) pkt (packet_size pkt) = Inr (False, sb)" "contents sb = contents (mSendBuffer s)"
      by auto
    let ?s = "s\<lparr>mSendBuffer := sb\<rparr>" and ?b = "os_setsockopt_fails env (calls w)"
    let ?w = "sys_call (set_session a ?s w)"
    let ?w' = "if ?b then ?w else set_session a (?s\<lparr>mConnected := False\<rparr>) (closesocket (mSocket s) ?w)"
    have eq: "SendRequest env a pkt w = Inr (False, ?w')"
      using full s sb
      by (simp add: SendRequest_def get_session_def packet_size_def Disconnect_def setsockopt_def Let_def)
    with safe full sb show ?thesis
      by (intro exI [of _ ?w'] exI [of _ "?s\<lparr>mConnected := ?b\<rparr>"])
        (auto simp: sent_to_def closesocket_def)
  qed
qed

lemma sent_to_fields:
  assumes "sent_to pkt s s'"
  shows "mPosX s' = mPosX s" "mPosY s' = mPosY s" "mLogon s' = mLogon s" "mPlayerId s' = mPlayerId s"
    "mPlayerName s' = mPlayerName s" "mSocket s' = mSocket s" "mRefCount s' = mRefCount s"
    "mRecvBuffer s' = mRecvBuffer s"
proof -
  from assms have eq: "s' = s\<lparr>mSendBuffer := mSendBuffer s', mConnected := mConnected s'\<rparr>"
    by (simp add: sent_to_def)
  show "mPosX s' = mPosX s" "mPosY s' = mPosY s" "mLogon s' = mLogon s" "mPlayerId s' = mPlayerId s"
    "mPlayerName s' = mPlayerName s" "mSocket s' = mSocket s" "mRefCount s' = mRefCount s"
    "mRecvBuffer s' = mRecvBuffer s"
    using arg_cong [OF eq, of mPosX] arg_cong [OF eq, of mPosY] arg_cong [OF eq, of mLogon]
      arg_cong [OF eq, of mPlayerId] arg_cong [OF eq, of mPlayerName] arg_cong [OF eq, of mSocket]
      arg_cong [OF eq, of mRefCount] arg_cong [OF eq, of mRecvBuffer]
    by simp_all
qed

lemma sent_to_refl: "\<not> mConnected s \<or> room (mSendBuffer s) < packet_size pkt \<Longrightarrow> sent_to pkt s s"
  by (auto simp: sent_to_def)

text \<open>The loop of \<open>BroadcastPacket\<close>: every session of the list but the sender, once.\<close>

lemma BroadcastPacket_loop_spec:
  assumes "world_ok env w" and "\<forall>e \<in> set it. snd e \<in> dom (sessions w)" and "distinct (map snd it)"
    and pkt: "packet_fits pkt"
  shows "\<exists>w'. BroadcastPacket_loop env sender pkt it w = Inr w' \<and> fine env w w' \<and>
    (\<forall>b s. sessions w b = Some s \<longrightarrow> (\<exists>s'. sessions w' b = Some s' \<and>
       (if b \<in> snd ` set it \<and> b \<noteq> sender then sent_to pkt s s' else s' = s)))"
  using assms(1-3)
proof (induction it arbitrary: w)
  case Nil
  then show ?case by (simp add: fine_refl)
next
  case (Cons e it)
  obtain sock c where e: "e = (sock, c)" by (cases e)
  show ?case
  proof (cases "sender = c")
    case True
    from Cons.prems Cons.IH [of w] obtain w' where w': "BroadcastPacket_loop env sender pkt it w = Inr w'" "fine env w w'"
      "\<forall>b s. sessions w b = Some s \<longrightarrow> (\<exists>s'. sessions w' b = Some s' \<and>
        (if b \<in> snd ` set it \<and> b \<noteq> sender then sent_to pkt s s' else s' = s))" by auto
    have same: "b \<in> snd ` set (e # it) \<and> b \<noteq> sender \<longleftrightarrow> b \<in> snd ` set it \<and> b \<noteq> sender" for b
      using e True by auto
    show ?thesis unfolding same using w' e True by (intro exI [of _ w']) simp
  next
    case False
    from Cons.prems(2) e obtain sc where sc: "sessions w c = Some sc" by auto
    from SendRequest_spec [OF Cons.prems(1) sc pkt] obtain r w1 sc' where
      w1: "SendRequest env c pkt w = Inr (r, w1)" "fine env w w1" "sessions w1 = (sessions w)(c \<mapsto> sc')"
        "sent_to pkt sc sc'" by blast
    have "\<forall>e \<in> set it. snd e \<in> dom (sessions w1)" using Cons.prems(2) w1(3) by auto
    with Cons.IH [OF fine_ok [OF w1(2)]] Cons.prems(3) obtain w' where
      w': "BroadcastPacket_loop env sender pkt it w1 = Inr w'" "fine env w1 w'"
      "\<forall>b s. sessions w1 b = Some s \<longrightarrow> (\<exists>s'. sessions w' b = Some s' \<and>
        (if b \<in> snd ` set it \<and> b \<noteq> sender then sent_to pkt s s' else s' = s))" by auto
    have c: "c \<notin> snd ` set it" using Cons.prems(3) e by auto
    have "\<forall>b s. sessions w b = Some s \<longrightarrow> (\<exists>s'. sessions w' b = Some s' \<and>
        (if b \<in> snd ` set (e # it) \<and> b \<noteq> sender then sent_to pkt s s' else s' = s))"
    proof (intro allI impI)
      fix b s assume s: "sessions w b = Some s"
      show "\<exists>s'. sessions w' b = Some s' \<and>
        (if b \<in> snd ` set (e # it) \<and> b \<noteq> sender then sent_to pkt s s' else s' = s)"
      proof (cases "b = c")
        case True
        with w'(3) [rule_format, of c sc'] w1(3,4) c s sc False e \<open>sender \<noteq> c\<close> show ?thesis by auto
      next
        case False
        with w'(3) w1(3) s e show ?thesis by auto
      qed
    qed
    with w1(1,2) w'(1,2) e False show ?thesis
      by (intro exI [of _ w']) (auto intro: fine_trans)
  qed
qed

text \<open>
  C15: a broadcast reaches everybody: when the sender is connected and has room, the packet is
  appended exactly once to the send buffer of every connected session of the client list that has
  room for it, the sender included; sessions that have no room or are disconnected get nothing, and
  nobody is disconnected for any other reason.
\<close>

theorem Broadcast_delivers:
  assumes "world_ok env w" and "packet_fits pkt" and "sessions w a = Some s" and "mConnected s"
    and "packet_size pkt \<le> room (mSendBuffer s)"
  shows "\<exists>w'. Broadcast env a pkt w = Inr (True, w') \<and>
    (\<forall>(sock, b) \<in> insert (mSocket s, a) (set (mClientList w)). \<forall>t. sessions w b = Some t \<longrightarrow>
      (\<exists>t'. sessions w' b = Some t' \<and>
        contents (mSendBuffer t') = contents (mSendBuffer t) @
          (if mConnected t \<and> packet_size pkt \<le> room (mSendBuffer t) then take (packet_size pkt) pkt else []) \<and>
        (packet_size pkt \<le> room (mSendBuffer t) \<longrightarrow> mConnected t' = mConnected t)))"
proof -
  from SendRequest_spec [OF assms(1,3,2)] assms(4,5) obtain w1 s1 where
    w1: "SendRequest env a pkt w = Inr (True, w1)" "fine env w w1" "sessions w1 = (sessions w)(a \<mapsto> s1)"
      "sent_to pkt s s1" by auto
  then have list: "mClientList w1 = mClientList w" and con: "mConnected s1"
    using assms(4,5) by (simp_all add: fine_def keeps_def sent_to_def)
  from BroadcastPacket_loop_spec [OF fine_ok [OF w1(2)] _ distinct_clients [OF fine_ok [OF w1(2)]] assms(2), of a]
    world_ok_clients [OF fine_ok [OF w1(2)]] obtain w2 where
    w2: "BroadcastPacket env a pkt w1 = Inr w2"
      "\<forall>b t. sessions w1 b = Some t \<longrightarrow> (\<exists>t'. sessions w2 b = Some t' \<and>
        (if b \<in> snd ` set (mClientList w) \<and> b \<noteq> a then sent_to pkt t t' else t' = t))"
    using list by (auto simp: BroadcastPacket_def)
  have "Broadcast env a pkt w = Inr (True, w2)"
    using w1 w2(1) con by (simp add: Broadcast_def IsConnected_def get_session_def)
  moreover have "\<exists>t'. sessions w2 b = Some t' \<and>
      contents (mSendBuffer t') = contents (mSendBuffer t) @
        (if mConnected t \<and> packet_size pkt \<le> room (mSendBuffer t) then take (packet_size pkt) pkt else []) \<and>
      (packet_size pkt \<le> room (mSendBuffer t) \<longrightarrow> mConnected t' = mConnected t)"
    if b: "(sock, b) \<in> insert (mSocket s, a) (set (mClientList w))" and t: "sessions w b = Some t" for sock b t
  proof (cases "b = a")
    case True
    from w2(2) [rule_format, of a s1] w1(3) have "sessions w2 a = Some s1" by auto
    moreover from True t assms(3) have "t = s" by simp
    ultimately show ?thesis using True w1(4) assms(4,5) by (auto simp: sent_to_def)
  next
    case False
    with b have "b \<in> snd ` set (mClientList w)" by force
    moreover from False w1(3) t have "sessions w1 b = Some t" by simp
    ultimately obtain t' where "sessions w2 b = Some t'" "sent_to pkt t t'"
      using False w2(2) [rule_format, of b t] by auto
    then show ?thesis by (auto simp: sent_to_def)
  qed
  ultimately show ?thesis by blast
qed

lemma demo_send_buffer:
  "contents (mSendBuffer demo_session) = []" "room (mSendBuffer demo_session) = BUFSIZE"
  "mConnected demo_session" "mSocket demo_session = 7"
proof -
  have "cb_ok (mSendBuffer demo_session)"
    using world_ok_session [OF demo_world_ok demo_world_session] by (simp add: session_ok_def)
  moreover show "contents (mSendBuffer demo_session) = []"
    by (simp add: demo_session_def ClientSession_new_def CircularBuffer_def contents_def)
  moreover have "length (mBuffer (mSendBuffer demo_session)) = BUFSIZE"
    by (simp add: demo_session_def ClientSession_new_def CircularBuffer_def)
  ultimately show "room (mSendBuffer demo_session) = BUFSIZE" using room_empty by metis
qed (simp_all add: demo_session_def ClientSession_new_def)

lemma move_result_size: "packet_size (MoveBroadcastResult_bytes MoveBroadcastResult_init) = 16"
  by (simp add: packet_size_def MoveBroadcastResult_bytes_def header_of_packet MoveBroadcastResult_init_def
      sizeof_MoveBroadcastResult_def)

theorem Broadcast_delivers_witness:
  "\<exists>w' s'. Broadcast (demo_env 0) 64 (MoveBroadcastResult_bytes MoveBroadcastResult_init) (demo_world 0) = Inr (True, w') \<and>
    sessions w' 64 = Some s' \<and> contents (mSendBuffer s') = MoveBroadcastResult_bytes MoveBroadcastResult_init"
proof -
  have "packet_fits (MoveBroadcastResult_bytes MoveBroadcastResult_init)"
    by (rule packet_fits_MoveBroadcastResult) (simp add: MoveBroadcastResult_init_def)
  from Broadcast_delivers [OF demo_world_ok this demo_world_session demo_send_buffer(3)] move_result_size
  show ?thesis
    using demo_world_session demo_send_buffer by (fastforce simp: BUFSIZE_def sizeof_MoveBroadcastResult_def)
qed

section \<open>Who may speak\<close>

text \<open>
  A chat or move request that names another player than the session's is ignored: nothing is
  sent, no position changes, nobody is disconnected.
\<close>

theorem wrong_player_ignored:
  assumes "sessions w a = Some s"
  shows "(cr_mPlayerId c \<noteq> mPlayerId s \<longrightarrow> packet_effect env a (ChatPacket c) w = Inr w) \<and>
    (mr_mPlayerId m \<noteq> mPlayerId s \<longrightarrow> packet_effect env a (MovePacket m) w = Inr w)"
  using assms by (auto simp: GetPlayerId_def get_session_def)

theorem wrong_player_ignored_witness:
  "packet_effect (demo_env 0) 64 (MovePacket (MoveRequest_init\<lparr>mr_mPlayerId := 5\<rparr>)) (demo_world 0) = Inr (demo_world 0)"
  using wrong_player_ignored [OF demo_world_session, where m = "MoveRequest_init\<lparr>mr_mPlayerId := 5\<rparr>"]
  by (simp add: demo_session_def ClientSession_new_def)



lemma Broadcast_spec:
  assumes ok: "world_ok env w" and pkt: "packet_fits pkt" and s: "sessions w a = Some s"
    and con: "mConnected s" and room: "packet_size pkt \<le> room (mSendBuffer s)"
  shows "\<exists>w' s'. Broadcast env a pkt w = Inr (True, w') \<and> sessions w' a = Some s' \<and> sent_to pkt s s'"
proof -
  from SendRequest_spec [OF ok s pkt] con room obtain w1 s1 where
    w1: "SendRequest env a pkt w = Inr (True, w1)" "fine env w w1" "sessions w1 = (sessions w)(a \<mapsto> s1)"
      "sent_to pkt s s1" by auto
  from w1(4) con room have con1: "mConnected s1" by (simp add: sent_to_def)
  from BroadcastPacket_loop_spec [OF fine_ok [OF w1(2)] _ distinct_clients [OF fine_ok [OF w1(2)]] pkt, of a]
    world_ok_clients [OF fine_ok [OF w1(2)]] obtain w2 where
    w2: "BroadcastPacket env a pkt w1 = Inr w2" "\<forall>b t. sessions w1 b = Some t \<longrightarrow> (\<exists>t'. sessions w2 b = Some t' \<and>
        (if b \<in> snd ` set (mClientList w1) \<and> b \<noteq> a then sent_to pkt t t' else t' = t))"
    by (auto simp: BroadcastPacket_def)
  from w2(2) [rule_format, of a s1] w1(3) have "sessions w2 a = Some s1" by auto
  with w1 w2(1) con1 show ?thesis by (auto simp: Broadcast_def IsConnected_def get_session_def)
qed

lemma packet_size_move:
  "mSize p = of_nat sizeof_MoveBroadcastResult \<Longrightarrow> packet_size (MoveBroadcastResult_bytes p) = 16"
  by (simp add: packet_size_def MoveBroadcastResult_bytes_def header_of_packet sizeof_MoveBroadcastResult_def)

lemma packet_effect_move:
  assumes "world_ok env w" and "sessions w a = Some s" and "mConnected s"
    and "mr_mPlayerId m = mPlayerId s" and "16 \<le> room (mSendBuffer s)"
  shows "\<exists>w' s'. packet_effect env a (MovePacket m) w = Inr w' \<and> sessions w' a = Some s' \<and>
    mPosX s' = mr_mPosX m \<and> mPosY s' = mr_mPosY m \<and> mLogon s' = mLogon s \<and>
    contents (mSendBuffer s') = contents (mSendBuffer s) @ MoveBroadcastResult_bytes
      (MoveBroadcastResult_init\<lparr>ms_mPlayerId := mPlayerId s, ms_mPosX := mr_mPosX m, ms_mPosY := mr_mPosY m\<rparr>)"
proof -
  let ?s = "s\<lparr>mPosX := mr_mPosX m, mPosY := mr_mPosY m\<rparr>" and ?w = "set_session a (s\<lparr>mPosX := mr_mPosX m, mPosY := mr_mPosY m\<rparr>) w"
  let ?p = "MoveBroadcastResult_init\<lparr>ms_mPlayerId := mPlayerId s, ms_mPosX := mr_mPosX m, ms_mPosY := mr_mPosY m\<rparr>"
  have "fine env w ?w"
    using world_ok_session [OF assms(1,2)] by (intro fine_set_session [OF assms(1,2)]) (auto simp: session_ok_def)
  note ok = fine_ok [OF this]
  have fits: "packet_fits (MoveBroadcastResult_bytes ?p)"
    by (rule packet_fits_MoveBroadcastResult) (simp add: MoveBroadcastResult_init_def)
  have size: "packet_size (MoveBroadcastResult_bytes ?p) = 16"
    by (rule packet_size_move) (simp add: MoveBroadcastResult_init_def)
  from Broadcast_spec [OF ok fits, of a ?s] assms size obtain w' s' where
    w': "Broadcast env a (MoveBroadcastResult_bytes ?p) ?w = Inr (True, w')" "sessions w' a = Some s'"
      "sent_to (MoveBroadcastResult_bytes ?p) ?s s'" by auto
  have "packet_effect env a (MovePacket m) w = Inr w'"
    using assms w'(1) by (simp add: GetPlayerId_def get_session_def SetPosition_def modify_session_def)
  moreover have "mPosX s' = mr_mPosX m \<and> mPosY s' = mr_mPosY m \<and> mLogon s' = mLogon s"
    using sent_to_fields [OF w'(3)] by simp
  moreover have "contents (mSendBuffer s') = contents (mSendBuffer s) @ MoveBroadcastResult_bytes ?p"
    using w'(3) assms(3,5) size by (simp add: sent_to_def sizeof_MoveBroadcastResult_def)
  ultimately show ?thesis using w'(2) by blast
qed

text \<open>
  A request is checked against the player id of the session only, which is \<open>-1\<close> before the
  login: a connected client that has not logged in and sends a move for player \<open>-1\<close> has its
  position set and the move put into its send buffer, as for a player who is logged in.
\<close>

theorem move_without_login:
  assumes "world_ok env w" and "sessions w a = Some s" and "mConnected s" and "\<not> mLogon s"
    and "mPlayerId s = -1" and "mr_mPlayerId m = -1" and "16 \<le> room (mSendBuffer s)"
  shows "\<exists>w' s'. packet_effect env a (MovePacket m) w = Inr w' \<and> sessions w' a = Some s' \<and>
    mPosX s' = mr_mPosX m \<and> mPosY s' = mr_mPosY m \<and> \<not> mLogon s' \<and>
    contents (mSendBuffer s') = contents (mSendBuffer s) @ MoveBroadcastResult_bytes
      (MoveBroadcastResult_init\<lparr>ms_mPlayerId := -1, ms_mPosX := mr_mPosX m, ms_mPosY := mr_mPosY m\<rparr>)"
  using packet_effect_move [OF assms(1-3) _ assms(7), of m] assms(4-6) by simp

theorem move_without_login_witness:
  "\<exists>w' s'. packet_effect (demo_env 0) 64 (MovePacket (MoveRequest_init\<lparr>mr_mPlayerId := -1, mr_mPosX := 3\<rparr>)) (demo_world 0) = Inr w' \<and>
    sessions w' 64 = Some s' \<and> mPosX s' = 3 \<and> \<not> mLogon s'"
proof -
  have "\<not> mLogon demo_session" "mPlayerId demo_session = -1" "16 \<le> room (mSendBuffer demo_session)"
    using demo_send_buffer(2) by (simp_all add: demo_session_def ClientSession_new_def BUFSIZE_def)
  from move_without_login [OF demo_world_ok demo_world_session demo_send_buffer(3) this(1,2), of "MoveRequest_init\<lparr>mr_mPlayerId := -1, mr_mPosX := 3\<rparr>"]
    this(3) show ?thesis by fastforce
qed

section \<open>Login\<close>

lemma CallFuncAfter_spec:
  "sessions w a = Some s \<Longrightarrow> CallFuncAfter d a t w =
     Inr ((set_session a (s\<lparr>mRefCount := mRefCount s + 1\<rparr>) w)\<lparr>mTaskQueue :=
       pq_push \<lparr>mOwner = a, mTask = t, mExecutionTick = uint (d + mCurrentTick w)\<rparr> (mTaskQueue w)\<rparr>)"
  by (simp add: CallFuncAfter_def PushTask_def IncRefCount_def modify_session_def get_session_def Let_def)

lemma PushJob_stored:
  assumes ok: "world_ok env w"
    and room: "length (items MAX_DB_JOB (mDbJobRequestQueue (GDatabaseJobManager w))) < MAX_DB_JOB"
  shows "\<exists>m. PushJob j w = Inr (w\<lparr>GDatabaseJobManager := m\<rparr>) \<and>
    items MAX_DB_JOB (mDbJobRequestQueue m) = items MAX_DB_JOB (mDbJobRequestQueue (GDatabaseJobManager w)) @ [j]"
proof -
  let ?m = "GDatabaseJobManager w"
  from world_ok_pending(7,8) [OF ok] have m: "pcq_ok MAX_DB_JOB (mDbJobRequestQueue ?m)" "LThreadType w = THREAD_CLIENT"
    by (simp_all add: manager_ok_def)
  from pcq.put_law [OF m(1) room, of j True] m(2) show ?thesis
    by (auto simp: PushJob_def PushDatabaseJobRequest_def)
qed

text \<open>The job \<open>OnDbUpdate\<close> pushes for a session.\<close>

definition update_job :: "environment \<Rightarrow> session \<Rightarrow> job" where
  "update_job env s = UpdatePlayer
     ((UpdatePlayerDataContext_new (mSocket s) (mPlayerId s))
       \<lparr>update_mPosX := double_of_float env (mPosX s), update_mPosY := double_of_float env (mPosY s),
        update_mComment := c_literal ''updated_test'' @ replicate 27 0\<rparr>)"

lemma OnDbUpdate_spec:
  assumes ok: "world_ok env w" and s: "sessions w a = Some s" and con: "mConnected s"
    and room: "length (items MAX_DB_JOB (mDbJobRequestQueue (GDatabaseJobManager w))) < MAX_DB_JOB"
  shows "\<exists>w' j. OnDbUpdate env a w = Inr w' \<and> sessions w' = (sessions w)(a \<mapsto> s\<lparr>mRefCount := mRefCount s + 1\<rparr>) \<and>
    mTaskQueue w' = pq_push j (mTaskQueue w) \<and> mOwner j = a \<and> mTask j = OnDbUpdate_task a \<and>
    items MAX_DB_JOB (mDbJobRequestQueue (GDatabaseJobManager w'))
      = items MAX_DB_JOB (mDbJobRequestQueue (GDatabaseJobManager w)) @ [update_job env s]"
proof -
  from PushJob_stored [OF ok room, of "update_job env s"] obtain m where
    m: "PushJob (update_job env s) w = Inr (w\<lparr>GDatabaseJobManager := m\<rparr>)"
      "items MAX_DB_JOB (mDbJobRequestQueue m) = items MAX_DB_JOB (mDbJobRequestQueue (GDatabaseJobManager w)) @ [update_job env s]"
    by blast
  let ?j = "\<lparr>mOwner = a, mTask = OnDbUpdate_task a, mExecutionTick = uint (PLAYER_DB_UPDATE_INTERVAL + mCurrentTick w)\<rparr>"
  let ?w = "(set_session a (s\<lparr>mRefCount := mRefCount s + 1\<rparr>) (w\<lparr>GDatabaseJobManager := m\<rparr>))\<lparr>mTaskQueue := pq_push ?j (mTaskQueue w)\<rparr>"
  have "OnDbUpdate env a w = Inr ?w"
    using s con m(1) CallFuncAfter_spec [of "w\<lparr>GDatabaseJobManager := m\<rparr>" a s PLAYER_DB_UPDATE_INTERVAL "OnDbUpdate_task a"]
    by (simp add: OnDbUpdate_def get_session_def Let_def update_job_def UpdatePlayerDataContext_new_def updated_test)
  with m(2) show ?thesis by (intro exI [of _ ?w] exI [of _ ?j]) simp
qed

lemma strcpy_s_c_string: "strcpy_s dst src = Inr r \<Longrightarrow> c_string r = c_string src"
  using strcpy_s_terminated [of dst src r] strnlen_c_string [of r] strnlen_c_string [of src] by auto

text \<open>A session that is logged on starts its heartbeat and its database updates.\<close>

lemma login_timers:
  assumes ok: "world_ok env w" and s: "sessions w a = Some s" and con: "mConnected s"
    and room: "length (items MAX_DB_JOB (mDbJobRequestQueue (GDatabaseJobManager w))) < MAX_DB_JOB"
  shows "\<exists>w' job1 job2. rbind (OnTick a w) (OnDbUpdate env a) = Inr w' \<and>
    sessions w' a = Some (s\<lparr>mRefCount := mRefCount s + 2\<rparr>) \<and>
    items MAX_DB_JOB (mDbJobRequestQueue (GDatabaseJobManager w'))
      = items MAX_DB_JOB (mDbJobRequestQueue (GDatabaseJobManager w)) @ [update_job env s] \<and>
    mTaskQueue w' = pq_push job2 (pq_push job1 (mTaskQueue w)) \<and>
    mTask job1 = OnTick_task a \<and> mTask job2 = OnDbUpdate_task a"
proof -
  let ?j1 = "\<lparr>mOwner = a, mTask = OnTick_task a, mExecutionTick = uint (PLAYER_HEART_BEAT + mCurrentTick w)\<rparr>"
  let ?s1 = "s\<lparr>mRefCount := mRefCount s + 1\<rparr>"
  let ?w1 = "(set_session a ?s1 w)\<lparr>mTaskQueue := pq_push ?j1 (mTaskQueue w)\<rparr>"
  have tick: "OnTick a w = Inr ?w1"
    using s con CallFuncAfter_spec [of w a s] by (simp add: OnTick_def IsConnected_def get_session_def)
  from OnTick_safe [OF ok, of a] s tick have ok1: "world_ok env ?w1" by (auto simp: fine_def)
  have s1: "sessions ?w1 a = Some ?s1" "mConnected ?s1" using con by simp_all
  from OnDbUpdate_spec [OF ok1 s1] room obtain w2 j2 where
    w2: "OnDbUpdate env a ?w1 = Inr w2" "sessions w2 = (sessions ?w1)(a \<mapsto> ?s1\<lparr>mRefCount := mRefCount ?s1 + 1\<rparr>)"
      "mTaskQueue w2 = pq_push j2 (mTaskQueue ?w1)" "mTask j2 = OnDbUpdate_task a"
      "items MAX_DB_JOB (mDbJobRequestQueue (GDatabaseJobManager w2))
        = items MAX_DB_JOB (mDbJobRequestQueue (GDatabaseJobManager w)) @ [update_job env ?s1]"
    by auto
  have "update_job env ?s1 = update_job env s" by (simp add: update_job_def)
  with tick w2 show ?thesis by (intro exI [of _ w2] exI [of _ ?j1] exI [of _ j2]) simp
qed

text \<open>The packet that \<open>LoginDone\<close> sends.\<close>

lemma login_result_packet:
  fixes junk1 junk2 :: "32 word" and pid :: int32 and x y :: float32 and n :: "byte list"
  assumes "terminated MAX_NAME_LEN n"
  defines "p \<equiv> (LoginResult_init junk1 junk2)\<lparr>ls_mPlayerId := pid, ls_mPosX := x, ls_mPosY := y, ls_mName := n\<rparr>"
  shows "packet_fits (LoginResult_bytes p)" and "packet_size (LoginResult_bytes p) = sizeof_LoginResult"
    and "length (LoginResult_bytes p) = sizeof_LoginResult" and "mSize p = 46" and "mType p = pkt_short PKT_SC_LOGIN"
proof -
  show "packet_fits (LoginResult_bytes p)"
    by (rule packet_fits_LoginResult) (use assms in \<open>simp_all add: p_def LoginResult_init_def terminated_def\<close>)
  show "packet_size (LoginResult_bytes p) = sizeof_LoginResult"
    by (simp add: p_def packet_size_def LoginResult_bytes_def header_of_packet LoginResult_init_def sizeof_defs sz_of_short_nonneg)
qed (use assms in \<open>simp_all add: p_def terminated_def LoginResult_init_def sizeof_defs\<close>)

lemma LoginDone_spec:
  assumes "world_ok env w" and "sessions w a = Some s" and "mConnected s" and "terminated MAX_NAME_LEN name"
    and "sizeof_LoginResult \<le> room (mSendBuffer s)"
    and "length (items MAX_DB_JOB (mDbJobRequestQueue (GDatabaseJobManager w))) < MAX_DB_JOB"
  shows "\<exists>w' s' p job1 job2. LoginDone env a pid x y name w = Inr w' \<and> sessions w' a = Some s' \<and>
    mLogon s' \<and> mPlayerId s' = pid \<and> mPosX s' = x \<and> mPosY s' = y \<and> c_string (mPlayerName s') = c_string name \<and>
    contents (mSendBuffer s') = contents (mSendBuffer s) @ LoginResult_bytes p \<and>
    ls_mPlayerId p = pid \<and> ls_mPosX p = x \<and> ls_mPosY p = y \<and> c_string (ls_mName p) = c_string name \<and>
    mSize p = 46 \<and> mType p = pkt_short PKT_SC_LOGIN \<and>
    items MAX_DB_JOB (mDbJobRequestQueue (GDatabaseJobManager w'))
      = items MAX_DB_JOB (mDbJobRequestQueue (GDatabaseJobManager w)) @ [update_job env s'] \<and>
    mTaskQueue w' = pq_push job2 (pq_push job1 (mTaskQueue w)) \<and>
    mTask job1 = OnTick_task a \<and> mTask job2 = OnDbUpdate_task a \<and> terminated MAX_NAME_LEN (ls_mName p)"
proof -
  note s = assms(2) and name = assms(4)
  let ?s1 = "s\<lparr>mPlayerId := pid, mPosX := x, mPosY := y\<rparr>"
  from world_ok_session [OF assms(1) s] have sok: "session_ok s" by simp
  from strcpy_s_name [OF name, of "mPlayerName s"] sok obtain n where
    n: "strcpy_s (mPlayerName s) name = Inr n" "terminated MAX_NAME_LEN n"
    by (auto simp: session_ok_def terminated_def)
  from strcpy_s_name [OF name, of "replicate MAX_NAME_LEN 0"] obtain n' where
    n': "strcpy_s (replicate MAX_NAME_LEN 0) name = Inr n'" "terminated MAX_NAME_LEN n'" by auto
  let ?s2 = "?s1\<lparr>mPlayerName := n\<rparr>" and ?w2 = "set_session a (s\<lparr>mPlayerId := pid, mPosX := x, mPosY := y, mPlayerName := n\<rparr>) w"
  let ?junk = "map (fresh_memory env) [0..<8]"
  let ?p = "LoginResult_init (word32_at ?junk 0) (word32_at ?junk 4)\<lparr>ls_mPlayerId := pid, ls_mPosX := x, ls_mPosY := y, ls_mName := n'\<rparr>"
  have 2: "fine env w ?w2"
    using sok n(2) by (intro fine_set_session [OF assms(1) s]) (auto simp: session_ok_def)
  note packet = login_result_packet [OF n'(2), where pid = pid and x = x and y = y
      and ?junk1.0 = "word32_at ?junk 0" and ?junk2.0 = "word32_at ?junk 4"]
  have s2: "sessions ?w2 a = Some ?s2" by simp
  from SendRequest_spec [OF fine_ok [OF 2] s2 packet(1)] assms(3,5) packet(2) obtain b w3 s3 where
    w3: "SendRequest env a (LoginResult_bytes ?p) ?w2 = Inr (b, w3)" "fine env ?w2 w3"
      "sessions w3 = (sessions ?w2)(a \<mapsto> s3)" "sent_to (LoginResult_bytes ?p) ?s2 s3"
      "mTaskQueue w3 = mTaskQueue w" "GDatabaseJobManager w3 = GDatabaseJobManager w" by auto
  from w3(4) assms(3,5) packet(2,3) have s3: "mConnected s3"
    "contents (mSendBuffer s3) = contents (mSendBuffer s) @ LoginResult_bytes ?p" by (simp_all add: sent_to_def)
  let ?s4 = "s3\<lparr>mLogon := True\<rparr>" and ?w4 = "set_session a (s3\<lparr>mLogon := True\<rparr>) w3"
  have s3live: "sessions w3 a = Some s3" using w3(3) by simp
  have "fine env w3 ?w4"
    using world_ok_session [OF fine_ok [OF w3(2)] s3live]
    by (intro fine_set_session [OF fine_ok [OF w3(2)] s3live]) (auto simp: session_ok_def)
  note ok4 = fine_ok [OF this]
  have "sessions ?w4 a = Some ?s4" "mConnected ?s4" using s3(1) by simp_all
  from login_timers [OF ok4 this] assms(6) w3(6) obtain w6 j1 j2 where
    w6: "rbind (OnTick a ?w4) (OnDbUpdate env a) = Inr w6" "sessions w6 a = Some (?s4\<lparr>mRefCount := mRefCount ?s4 + 2\<rparr>)"
      "mTaskQueue w6 = pq_push j2 (pq_push j1 (mTaskQueue w3))" "mTask j1 = OnTick_task a" "mTask j2 = OnDbUpdate_task a"
      "items MAX_DB_JOB (mDbJobRequestQueue (GDatabaseJobManager w6))
        = items MAX_DB_JOB (mDbJobRequestQueue (GDatabaseJobManager w)) @ [update_job env ?s4]" by auto
  let ?s6 = "?s4\<lparr>mRefCount := mRefCount ?s4 + 2\<rparr>"
  have "LoginDone env a pid x y name w = Inr w6"
    using s n(1) n'(1) w3(1) s3live w6(1)
    by (simp add: LoginDone_def modify_session_def get_session_def LoginResult_init_def Let_def)
  moreover have "mLogon ?s6 \<and> mPlayerId ?s6 = pid \<and> mPosX ?s6 = x \<and> mPosY ?s6 = y \<and> mPlayerName ?s6 = n"
    using sent_to_fields [OF w3(4)] by simp
  moreover have "update_job env ?s6 = update_job env ?s4" by (simp add: update_job_def)
  moreover have "contents (mSendBuffer ?s6) = contents (mSendBuffer s) @ LoginResult_bytes ?p" using s3(2) by simp
  moreover have "mTaskQueue w6 = pq_push j2 (pq_push j1 (mTaskQueue w))" using w6(3) w3(5) by simp
  moreover note packet(4,5)
  ultimately show ?thesis
    using strcpy_s_c_string [OF n(1)] strcpy_s_c_string [OF n'(1)] w6(2,4-6) n'(2)
    by (intro exI [of _ w6] exI [of _ ?s6] exI [of _ ?p] exI [of _ j1] exI [of _ j2]) simp
qed

text \<open>
  C17: a login that the database has answered takes effect: the session gets the player id,
  position and name of the record and is marked as logged on; the client is sent one \<open>LoginResult\<close>
  with these values; the first database update is requested for this session and player; and the
  heartbeat and the next update are scheduled.
\<close>

theorem LoginDone_effect:
  assumes "world_ok env w" and "sessions w a = Some s" and "mConnected s" and "terminated MAX_NAME_LEN name"
    and "sizeof_LoginResult \<le> room (mSendBuffer s)"
    and "length (items MAX_DB_JOB (mDbJobRequestQueue (GDatabaseJobManager w))) < MAX_DB_JOB"
  shows "\<exists>w' s' p job1 job2. LoginDone env a pid x y name w = Inr w' \<and> sessions w' a = Some s' \<and>
    mLogon s' \<and> mPlayerId s' = pid \<and> mPosX s' = x \<and> mPosY s' = y \<and> c_string (mPlayerName s') = c_string name \<and>
    contents (mSendBuffer s') = contents (mSendBuffer s) @ LoginResult_bytes p \<and>
    ls_mPlayerId p = pid \<and> ls_mPosX p = x \<and> ls_mPosY p = y \<and> c_string (ls_mName p) = c_string name \<and>
    mSize p = 46 \<and> mType p = pkt_short PKT_SC_LOGIN \<and>
    items MAX_DB_JOB (mDbJobRequestQueue (GDatabaseJobManager w'))
      = items MAX_DB_JOB (mDbJobRequestQueue (GDatabaseJobManager w)) @ [update_job env s'] \<and>
    mTaskQueue w' = pq_push job2 (pq_push job1 (mTaskQueue w)) \<and>
    mTask job1 = OnTick_task a \<and> mTask job2 = OnDbUpdate_task a"
  using LoginDone_spec [OF assms] by blast

lemma demo_manager: "GDatabaseJobManager (demo_world t) = DatabaseJobManager_new demo_job"
  by (simp add: demo_world_def world_init_def)

theorem LoginDone_effect_witness:
  "\<exists>w' s'. LoginDone (demo_env 0) 64 9 1 2 (replicate MAX_NAME_LEN 0) (demo_world 0) = Inr w' \<and>
    sessions w' 64 = Some s' \<and> mLogon s' \<and> mPlayerId s' = 9 \<and> length (mTaskQueue w') = 2"
proof -
  have "terminated MAX_NAME_LEN (replicate MAX_NAME_LEN 0)" by (simp add: terminated_def MAX_NAME_LEN_def)
  moreover have "sizeof_LoginResult \<le> room (mSendBuffer demo_session)"
    using demo_send_buffer(2) by (simp add: sizeof_defs BUFSIZE_def)
  moreover have "length (items MAX_DB_JOB (mDbJobRequestQueue (GDatabaseJobManager (demo_world 0)))) < MAX_DB_JOB"
    by (simp add: demo_manager DatabaseJobManager_new_def MAX_DB_JOB_def)
  ultimately obtain w' s' j1 j2 where
    "LoginDone (demo_env 0) 64 9 1 2 (replicate MAX_NAME_LEN 0) (demo_world 0) = Inr w'" "sessions w' 64 = Some s'"
    "mLogon s'" "mPlayerId s' = 9" "mTaskQueue w' = pq_push j2 (pq_push j1 (mTaskQueue (demo_world 0)))"
    using LoginDone_effect [OF demo_world_ok [of 0] demo_world_session demo_send_buffer(3),
        where name = "replicate MAX_NAME_LEN 0" and pid = 9 and x = 1 and y = 2] by blast
  moreover from this(5) have "length (mTaskQueue w') = 2"
    by (simp add: demo_world_def world_init_def flip: size_mset)
  ultimately show ?thesis by blast
qed

section \<open>Connections\<close>

text \<open>
  C18: \<open>CollectGarbageSessions\<close> deletes exactly the sessions of the client list that are disconnected
  and that nothing refers to any more, frees their memory, and takes exactly these out of the list.
\<close>

theorem garbage_collected:
  assumes "world_ok env w"
  shows "\<exists>w'. CollectGarbageSessions w = Inr w' \<and>
    (\<forall>a. sessions w' a = (if a \<in> snd ` set (mClientList w) \<and>
        (\<exists>s. sessions w a = Some s \<and> \<not> mConnected s \<and> refs w a = 0) then None else sessions w a)) \<and>
    (\<forall>sock a. (sock, a) \<in> set (mClientList w') \<longleftrightarrow> (sock, a) \<in> set (mClientList w) \<and> a \<in> dom (sessions w')) \<and>
    mCurrentUseCount (mPool w') = int (card (dom (sessions w')))"
proof -
  from CollectGarbageSessions_spec [OF assms] obtain w' where
    w': "CollectGarbageSessions w = Inr w'" "world_ok env w'"
      "sessions w' = (\<lambda>a. if a \<in> snd ` set (mClientList w) \<and> collectable w a then None else sessions w a)"
      "set (mClientList w') = {e \<in> set (mClientList w). \<not> collectable w (snd e)}" by blast
  have coll: "collectable w a \<longleftrightarrow> (\<exists>s. sessions w a = Some s \<and> \<not> mConnected s \<and> refs w a = 0)" for a
    using world_ok_session [OF assms, of a] by (auto simp: collectable_def)
  have "(sock, a) \<in> set (mClientList w') \<longleftrightarrow> (sock, a) \<in> set (mClientList w) \<and> a \<in> dom (sessions w')" for sock a
  proof (cases "(sock, a) \<in> set (mClientList w)")
    case True
    then obtain s where s: "sessions w a = Some s" using client_entry [OF assms] by blast
    have "a \<in> snd ` set (mClientList w)" using True by force
    with True w'(3,4) s show ?thesis by (auto simp: domIff)
  qed (use w'(4) in simp)
  moreover have "mCurrentUseCount (mPool w') = int (card (dom (sessions w')))"
    using w'(2) pool_ok_counts(1) by (auto simp: world_ok_def)
  ultimately show ?thesis using w'(1,3) coll by auto
qed

text \<open>
  C30: \<open>CreateClient\<close> does not replace an entry of the client list. When the number of a socket is
  used again while the closed session that had it has not been collected, the new session is made
  but it is not in the list: it gets no broadcast and no flush, its database results go to the old
  session, and it is never collected.
\<close>

theorem reused_socket_not_listed:
  assumes "world_ok env w" and "env_ok env" and "(sock, old) \<in> set (mClientList w)"
  shows "\<exists>a w'. CreateClient env sock w = Inr (a, w') \<and> a \<in> dom (sessions w') - dom (sessions w) \<and>
    mClientList w' = mClientList w \<and> map_of (mClientList w') sock = Some old \<and> a \<notin> snd ` set (mClientList w')"
proof -
  from CreateClient_ok [OF assms(1,2), of sock] obtain a w' where
    w': "CreateClient env sock w = Inr (a, w')" "a \<notin> dom (sessions w)" "a \<in> dom (sessions w')"
      "mClientList w' = map_insert sock a (mClientList w)" by (metis domI fun_upd_same)
  from map_insert_present [OF world_ok_pending(6) [OF assms(1)], of sock a] assms(3) w'(4)
  have list: "mClientList w' = mClientList w" by force
  moreover have "a \<notin> snd ` set (mClientList w)" using world_ok_clients [OF assms(1)] w'(2) by blast
  moreover have "map_of (mClientList w) sock = Some old"
    using map_ok_map_of [OF world_ok_pending(6) [OF assms(1)]] assms(3) by blast
  ultimately show ?thesis using w' by auto
qed

theorem reused_socket_not_listed_witness:
  "\<exists>a w'. CreateClient (demo_env 0) 7 (demo_world 0) = Inr (a, w') \<and> a \<noteq> 64 \<and> mClientList w' = [(7, 64)]"
proof -
  have list: "mClientList (demo_world 0) = [(7, 64)]" by (simp add: demo_world_def)
  from reused_socket_not_listed [OF demo_world_ok [of 0] demo_env_ok, of 7 64] list demo_world_session [of 0]
  show ?thesis by auto
qed

theorem garbage_collected_witness:
  "\<exists>w'. CollectGarbageSessions (demo_world 0) = Inr w' \<and> sessions w' 64 = Some demo_session"
  using garbage_collected [OF demo_world_ok [of 0]] demo_world_session [of 0] demo_send_buffer(3) by auto

section \<open>Flushing\<close>

lemma SendFlush_spec:
  assumes ok: "world_ok env w" and s: "sessions w a = Some s" and con: "mConnected s"
    and ne: "contents (mSendBuffer s) \<noteq> []" and os: "os_WSASend env (calls w) \<noteq> WsaError"
  shows "\<exists>w' s' d op. SendFlush env a w = Inr (True, w') \<and> world_ok env w' \<and> sessions w' a = Some s' \<and>
    mConnected s' \<and> mSocket s' = mSocket s \<and> mSendBuffer s' = mSendBuffer s \<and> calls w' = calls w + 1 \<and>
    transmitted w' = transmitted w @ [(mSocket s, d)] \<and> pending_send w' = pending_send w @ [op] \<and>
    io_session op = a \<and> io_length op = length d \<and> d \<noteq> [] \<and>
    d = take (GetContiguiousBytes (mSendBuffer s)) (contents (mSendBuffer s)) \<and> mOverlappedSend s' = Some a"
proof -
  from world_ok_session [OF ok s] have cb: "cb_ok (mSendBuffer s)" by (simp add: session_ok_def)
  let ?len = "GetContiguiousBytes (mSendBuffer s)" and ?d = "take (GetContiguiousBytes (mSendBuffer s)) (contents (mSendBuffer s))"
  from GetContiguiousBytes_read [OF cb ne] obtain buf where buf: "GetBufferStart (mSendBuffer s) = Some buf"
    "mem_read (mBuffer (mSendBuffer s)) buf ?len = Inr ?d" by auto
  from GetContiguiousBytes_zero [OF cb] ne have len: "?len \<noteq> 0" by simp
  from GetContiguiousBytes_le [OF cb] have d: "length ?d = ?len" by simp
  let ?op = "\<lparr>io_session = a, io_offset = buf, io_length = ?len\<rparr>"
  let ?s = "s\<lparr>mOverlappedSend := Some a, mRefCount := mRefCount s + 1\<rparr>"
  let ?w = "set_session a ?s ((sys_call w)\<lparr>pending_send := pending_send w @ [?op],
    transmitted := transmitted w @ [(mSocket s, ?d)]\<rparr>)"
  have eq: "SendFlush env a w = Inr (True, ?w)"
    using s con len buf os
    by (simp add: SendFlush_def get_session_def WSASend_def IncRefCount_def modify_session_def set_session_def
        sys_call_def Let_def)
  moreover from SendFlush_safe [OF ok, of a] s eq have "world_ok env ?w" by auto
  moreover have "?d \<noteq> []" using len d by (metis length_0_conv)
  ultimately show ?thesis
    using con d by (intro exI [of _ ?w] exI [of _ ?s] exI [of _ ?d] exI [of _ ?op]) (simp add: sys_call_def)
qed

text \<open>
  A flush whose send completes in full before the next flush transmits each byte once: the bytes
  handed to the network, followed by what is left in the send buffer, are the bytes that were in it.
\<close>

theorem flush_then_complete:
  assumes "world_ok env w" and "sessions w a = Some s" and "mConnected s"
    and "contents (mSendBuffer s) \<noteq> []" and "os_WSASend env (calls w) \<noteq> WsaError"
  shows "\<exists>w1 op d w2 s2. SendFlush env a w = Inr (True, w1) \<and> pending_send w1 = pending_send w @ [op] \<and>
    transmitted w1 = transmitted w @ [(mSocket s, d)] \<and> io_length op = length d \<and> d \<noteq> [] \<and>
    complete_send env op 0 (length d) w1 = Inr w2 \<and> sessions w2 a = Some s2 \<and>
    transmitted w2 = transmitted w1 \<and> d @ contents (mSendBuffer s2) = contents (mSendBuffer s)"
proof -
  from SendFlush_spec [OF assms] obtain w1 s1 d op where
    w1: "SendFlush env a w = Inr (True, w1)" "world_ok env w1" "sessions w1 a = Some s1" "mConnected s1"
      "mSendBuffer s1 = mSendBuffer s" "transmitted w1 = transmitted w @ [(mSocket s, d)]"
      "pending_send w1 = pending_send w @ [op]" "io_session op = a" "io_length op = length d" "d \<noteq> []"
      "d = take (GetContiguiousBytes (mSendBuffer s)) (contents (mSendBuffer s))" "mOverlappedSend s1 = Some a"
    by blast
  from world_ok_session [OF w1(2,3)] w1(5) have cb: "cb_ok (mSendBuffer s)" by (simp add: session_ok_def)
  from Remove_contents [OF cb, of "length d"] obtain sb where
    sb: "Remove (mSendBuffer s) (length d) = Inr sb" "contents sb = drop (length d) (contents (mSendBuffer s))" by auto
  let ?s2 = "s1\<lparr>mRefCount := mRefCount s1 - 1, mSendBuffer := sb\<rparr>"
  let ?w2 = "set_session a ?s2 (w1\<lparr>pending_send := remove1 op (pending_send w1)\<rparr>)"
  have "complete_send env op 0 (length d) w1 = Inr ?w2"
    using w1(1-10,12) sb(1)
    by (simp add: complete_send_def SendCompletion_def get_session_def DecRefCount_def modify_session_def
        IsConnected_def OnWriteComplete_def)
  moreover have "d @ contents sb = contents (mSendBuffer s)"
    using sb(2) w1(11) by (metis append_take_drop_id length_take min.absorb2 GetContiguiousBytes_le [OF cb])
  ultimately show ?thesis using w1
    by (intro exI [of _ w1] exI [of _ op] exI [of _ d] exI [of _ ?w2] exI [of _ ?s2]) simp
qed

text \<open>
  C29: nothing keeps two sends of one session apart. A flush that comes before the completion of
  the last one hands the same bytes to the network again.
\<close>

theorem double_flush_duplicates:
  assumes "world_ok env w" and "sessions w a = Some s" and "mConnected s"
    and "contents (mSendBuffer s) \<noteq> []"
    and "os_WSASend env (calls w) \<noteq> WsaError" and "os_WSASend env (calls w + 1) \<noteq> WsaError"
  shows "\<exists>w1 w2 d. SendFlush env a w = Inr (True, w1) \<and> SendFlush env a w1 = Inr (True, w2) \<and> d \<noteq> [] \<and>
    transmitted w2 = transmitted w @ [(mSocket s, d), (mSocket s, d)]"
proof -
  from SendFlush_spec [OF assms(1-5)] obtain w1 s1 d op where
    w1: "SendFlush env a w = Inr (True, w1)" "world_ok env w1" "sessions w1 a = Some s1" "mConnected s1"
      "mSocket s1 = mSocket s" "mSendBuffer s1 = mSendBuffer s" "calls w1 = calls w + 1"
      "transmitted w1 = transmitted w @ [(mSocket s, d)]" "d \<noteq> []"
      "d = take (GetContiguiousBytes (mSendBuffer s)) (contents (mSendBuffer s))" by blast
  from SendFlush_spec [OF w1(2-4)] assms(4,6) w1(5-7) obtain w2 where
    w2: "SendFlush env a w1 = Inr (True, w2)"
      "transmitted w2 = transmitted w1 @ [(mSocket s, take (GetContiguiousBytes (mSendBuffer s)) (contents (mSendBuffer s)))]"
    by auto
  with w1 show ?thesis by auto
qed

text \<open>The session of \<open>demo_world\<close> with bytes to send.\<close>

definition sending :: "byte list \<Rightarrow> world" where
  "sending bs = set_session 64 (demo_session\<lparr>mSendBuffer := received bs\<rparr>) (demo_world 0)"

lemma sending_ok:
  assumes "length bs < 1000"
  shows "world_ok (demo_env 0) (sending bs)" and "sessions (sending bs) 64 = Some (demo_session\<lparr>mSendBuffer := received bs\<rparr>)"
proof -
  have "session_ok (demo_session\<lparr>mSendBuffer := received bs\<rparr>)"
    using world_ok_session [OF demo_world_ok demo_world_session] received_ok [OF assms] by (simp add: session_ok_def)
  then have "fine (demo_env 0) (demo_world 0) (sending bs)"
    unfolding sending_def by (intro fine_set_session [OF demo_world_ok demo_world_session]) simp_all
  then show "world_ok (demo_env 0) (sending bs)" by (rule fine_ok)
qed (simp add: sending_def)

theorem flush_then_complete_witness:
  "\<exists>w1 op d w2 s2. SendFlush (demo_env 0) 64 (sending [1, 2, 3]) = Inr (True, w1) \<and> d \<noteq> [] \<and>
    complete_send (demo_env 0) op 0 (length d) w1 = Inr w2 \<and> sessions w2 64 = Some s2 \<and>
    d @ contents (mSendBuffer s2) = [1, 2, 3]"
proof -
  have "contents (mSendBuffer (demo_session\<lparr>mSendBuffer := received [1, 2, 3]\<rparr>)) = [1, 2, 3]"
    using received_ok(2) [of "[1, 2, 3]"] by simp
  with flush_then_complete [OF sending_ok [of "[1, 2, 3]"]] demo_send_buffer(3) show ?thesis
    by (fastforce simp: demo_env_def)
qed

theorem double_flush_duplicates_witness:
  "\<exists>w1 w2 d. SendFlush (demo_env 0) 64 (sending [1, 2, 3]) = Inr (True, w1) \<and>
    SendFlush (demo_env 0) 64 w1 = Inr (True, w2) \<and> d \<noteq> [] \<and> transmitted w2 = [(7, d), (7, d)]"
proof -
  have "contents (mSendBuffer (demo_session\<lparr>mSendBuffer := received [1, 2, 3]\<rparr>)) = [1, 2, 3]"
    using received_ok(2) [of "[1, 2, 3]"] by simp
  moreover have "transmitted (sending [1, 2, 3]) = []" by (simp add: sending_def demo_world_def world_init_def)
  ultimately show ?thesis
    using double_flush_duplicates [OF sending_ok [of "[1, 2, 3]"]] demo_send_buffer(3,4)
    by (simp add: demo_env_def)
qed

section \<open>The timer\<close>



lemma wrap_heartbeat:
  assumes "4294966296 \<le> uint (tick :: dword)"
  shows "uint (PLAYER_HEART_BEAT + tick) = uint tick - 4294966296"
proof -
  have "uint (1000 + tick) = (uint (1000 :: dword) + uint tick) mod 2 ^ LENGTH(32)"
    by (rule uint_word_ariths(1))
  also have "\<dots> = (uint tick - 4294966296 + 4294967296) mod 4294967296" by simp
  also have "\<dots> = (uint tick - 4294966296) mod 4294967296" by (rule mod_add_self2)
  also have "\<dots> = uint tick - 4294966296"
    using assms unsigned_less [of tick, where ?'a = int] by (intro mod_pos_pos_trivial) simp_all
  finally show ?thesis by (simp add: PLAYER_HEART_BEAT_def)
qed
text \<open>A heartbeat that is due, as the only task.\<close>

definition beating :: "nat \<Rightarrow> dword \<Rightarrow> world \<Rightarrow> bool" where
  "beating a tick w \<longleftrightarrow> (\<exists>s due. sessions w a = Some s \<and> mConnected s \<and> mCurrentTick w = tick \<and>
     mTaskQueue w = [\<lparr>mOwner = a, mTask = OnTick_task a, mExecutionTick = due\<rparr>] \<and> due \<le> uint tick)"

lemma beating_turn:
  assumes "beating a tick w" and tick: "4294966296 \<le> uint tick"
  shows "\<exists>job q w' t q'. mTaskQueue w = job # q \<and> mExecutionTick job \<le> uint (mCurrentTick w) \<and>
    rbind (run_task env (mTask job) w) (DecRefCount (mOwner job)) = Inr w' \<and> mTaskQueue w' = t # q' \<and>
    beating a tick (w'\<lparr>mTaskQueue := q'\<rparr>)"
proof -
  from assms(1) obtain s due where w: "sessions w a = Some s" "mConnected s" "mCurrentTick w = tick"
    "mTaskQueue w = [\<lparr>mOwner = a, mTask = OnTick_task a, mExecutionTick = due\<rparr>]" "due \<le> uint tick"
    by (auto simp: beating_def)
  let ?job = "\<lparr>mOwner = a, mTask = OnTick_task a, mExecutionTick = due\<rparr>"
  let ?new = "\<lparr>mOwner = a, mTask = OnTick_task a, mExecutionTick = uint tick - 4294966296\<rparr>"
  define w1 where "w1 = (set_session a (s\<lparr>mRefCount := mRefCount s + 1\<rparr>) w)\<lparr>mTaskQueue := pq_push ?new [?job]\<rparr>"
  define w2 where "w2 = set_session a s w1"
  have "OnTick a w = Inr w1"
    using w CallFuncAfter_spec [OF w(1), of PLAYER_HEART_BEAT "OnTick_task a"] wrap_heartbeat [OF tick]
    by (simp add: OnTick_def IsConnected_def get_session_def w1_def)
  moreover have "DecRefCount a w1 = Inr w2"
    by (simp add: DecRefCount_def modify_session_def get_session_def w1_def w2_def)
  ultimately have run: "rbind (run_task env (mTask ?job) w) (DecRefCount (mOwner ?job)) = Inr w2" by simp
  obtain t q' where q: "mTaskQueue w2 = t # q'" "q' = [?job] \<or> q' = [?new]"
    by (cases "due > uint tick - 4294966296") (auto simp: w1_def w2_def JobComparator_def)
  have "beating a tick (w2\<lparr>mTaskQueue := q'\<rparr>)"
    using w q(2) unfolding beating_def by (intro exI [of _ s]) (auto simp: w1_def w2_def)
  with run q(1) w show ?thesis by (intro exI [of _ ?job] exI [of _ "[]"] exI [of _ w2] exI [of _ t] exI [of _ q']) simp
qed



text \<open>
  The loop of \<open>DispatchDatabaseJobResults\<close> comes to an end: it takes every result that is
  waiting, and its work on one result never adds another. It ends with no result left, unless the
  work on a result ends in a fault.
\<close>

theorem dispatch_returns:
  assumes "world_ok env w"
  shows "\<exists>r. DispatchDatabaseJobResults env w = Some r \<and>
    (\<forall>w'. r = Inr w' \<longrightarrow> items MAX_DB_JOB (mDbJobResultQueue (GDatabaseJobManager w')) = [])"
  using assms
proof (induction "length (items MAX_DB_JOB (mDbJobResultQueue (GDatabaseJobManager w)))" arbitrary: w
    rule: less_induct)
  case less
  let ?pop = "PopDatabaseJobResult (LThreadType w) (GDatabaseJobManager w)"
  show ?case
  proof (cases "items MAX_DB_JOB (mDbJobResultQueue (GDatabaseJobManager w))")
    case Nil
    with Dispatch_turn [OF less.prems] have "?pop = Inr (None, GDatabaseJobManager w)" by auto
    with Nil show ?thesis by (subst DispatchDatabaseJobResults.simps) simp
  next
    case (Cons j js)
    from world_ok_pending(7,8) [OF less.prems] have "pcq_ok MAX_DB_JOB (mDbJobResultQueue (GDatabaseJobManager w))"
      "LThreadType w = THREAD_CLIENT" by (simp_all add: manager_ok_def)
    with Cons have "?pop \<noteq> Inr (None, GDatabaseJobManager w)"
      using pcq.get_law [of MAX_DB_JOB _ j js False] by (fastforce simp: PopDatabaseJobResult_def)
    with Dispatch_turn [OF less.prems] obtain j' m where m: "?pop = Inr (Some j', m)" "job_ok j'"
      "world_ok env (w\<lparr>GDatabaseJobManager := m\<rparr>)"
      "items MAX_DB_JOB (mDbJobResultQueue (GDatabaseJobManager w)) = j' # items MAX_DB_JOB (mDbJobResultQueue m)"
      by blast
    show ?thesis
    proof (cases "dispatch_result env j' (w\<lparr>GDatabaseJobManager := m\<rparr>)")
      case (Inl e)
      with m(1) show ?thesis by (subst DispatchDatabaseJobResults.simps) simp
    next
      case (Inr w')
      with dispatch_result_safe [OF m(3,2)] have 1: "fine env (w\<lparr>GDatabaseJobManager := m\<rparr>) w'" by simp
      then have "mDbJobResultQueue (GDatabaseJobManager w') = mDbJobResultQueue m" by (simp add: fine_def keeps_def)
      with m(4) less.hyps [OF _ fine_ok [OF 1]] m(1) Inr show ?thesis
        by (subst DispatchDatabaseJobResults.simps) simp
    qed
  qed
qed

theorem dispatch_returns_witness:
  "\<exists>r. DispatchDatabaseJobResults (demo_env 0) (demo_world 0) = Some r"
  using dispatch_returns [OF demo_world_ok [of 0]] by blast

section \<open>Receiving\<close>



end
