(* ===== verification/Client_Server.thy ===== *)
theory Client_Server
  imports Client_Properties Server_Properties
begin

text \<open>
  The game client and the server together: what one side puts on the wire is what the other side takes
  from it.
\<close>

section \<open>A move\<close>

lemma OnRead_one_move:
  assumes "world_ok env w" and "sessions w a = Some s" and "mConnected s" and "16 \<le> room (mSendBuffer s)"
    and "contents (mRecvBuffer s) = MoveRequest_bytes m" and "packet_ok (MovePacket m)" and "mr_mPlayerId m = mPlayerId s"
    and "no_recv w a"
  shows "\<exists>w' s'. OnRead_loop env a w = Some (Inr w') \<and> sessions w' a = Some s' \<and>
    mPosX s' = mr_mPosX m \<and> mPosY s' = mr_mPosY m \<and>
    contents (mSendBuffer s') = contents (mSendBuffer s) @ MoveBroadcastResult_bytes
      (MoveBroadcastResult_init\<lparr>ms_mPlayerId := mPlayerId s, ms_mPosX := mr_mPosX m, ms_mPosY := mr_mPosY m\<rparr>)"
proof -
  have ok: "session_ok s" using world_ok_session [OF assms(1,2)] by simp
  then have cb: "cb_ok (mRecvBuffer s)" by (simp add: session_ok_def)
  from Read_contents [OF cb, of "length (MoveRequest_bytes m)"] OnRead_turn_packet [OF assms(2) cb _ assms(6), of "[]" env] assms(5)
  obtain rb where rb: "cb_ok rb" "contents rb = []" "length (mBuffer rb) = length (mBuffer (mRecvBuffer s))"
    and turn: "OnRead_turn env a w = rbind (packet_effect env a (MovePacket m) (set_session a (s\<lparr>mRecvBuffer := rb\<rparr>) w))
      (\<lambda>w. Inr (True, w))" by auto
  let ?s = "s\<lparr>mRecvBuffer := rb\<rparr>" and ?w = "set_session a (s\<lparr>mRecvBuffer := rb\<rparr>) w"
  from ok rb have "session_ok ?s" by (simp add: session_ok_def)
  with fine_set_session [OF assms(1,2), of ?s] assms(8) have "world_ok env ?w" by (auto dest: fine_ok)
  from packet_effect_move [OF this, of a ?s m] assms obtain w1 s1 where
    w1: "packet_effect env a (MovePacket m) ?w = Inr w1" "sessions w1 a = Some s1" "mPosX s1 = mr_mPosX m"
      "mPosY s1 = mr_mPosY m" "contents (mSendBuffer s1) = contents (mSendBuffer s) @ MoveBroadcastResult_bytes
      (MoveBroadcastResult_init\<lparr>ms_mPlayerId := mPlayerId s, ms_mPosX := mr_mPosX m, ms_mPosY := mr_mPosY m\<rparr>)" by auto
  from recv_same_Some [OF packet_effect_recv [OF w1(1)], of a ?s] w1(2) have "mRecvBuffer s1 = rb" by auto
  with rb have "incomplete (contents (mRecvBuffer s1))" "cb_ok (mRecvBuffer s1)"
    by (simp_all add: incomplete_def sizeof_PacketHeader_def)
  from OnRead_loop_stop [OF OnRead_turn_incomplete [OF w1(2) this(2,1)]] OnRead_loop_goes_on [of env a w w1] turn w1(1)
  have "OnRead_loop env a w = Some (Inr w1)" by simp
  with w1 show ?thesis by blast
qed


text \<open>A session of player 1001 whose receive has completed, with the given bytes in its buffer.\<close>

definition playing_session :: "byte list \<Rightarrow> session" where
  "playing_session bs = demo_session\<lparr>mRecvBuffer := received bs, mPlayerId := 1001, mRefCount := 0\<rparr>"

definition playing :: "byte list \<Rightarrow> world" where
  "playing bs = (demo_world 0)\<lparr>sessions := [64 \<mapsto> playing_session bs], pending_recv := []\<rparr>"

lemma playing_ok:
  assumes "length bs < 1000"
  shows "world_ok (demo_env 0) (playing bs)" and "sessions (playing bs) 64 = Some (playing_session bs)"
    and "no_recv (playing bs) 64"
proof -
  have "session_ok (playing_session bs)"
    using world_ok_session [OF demo_world_ok demo_world_session] received_ok [OF assms]
    by (simp add: session_ok_def playing_session_def)
  moreover have "refs (playing bs) 64 = 0" by (simp add: refs_def playing_def demo_world_def world_init_def)
  moreover have "dom (sessions (playing bs)) = dom (sessions (demo_world 0))" by (simp add: playing_def demo_world_def)
  ultimately show "world_ok (demo_env 0) (playing bs)"
    using demo_world_ok [of 0]
    by (auto simp: world_ok_def playing_def playing_session_def demo_world_def demo_session_def client_ok_def world_init_def
        split: if_splits)
qed (simp_all add: playing_def no_recv_def)


end
