(* ===== verification/Simulations.thy ===== *)
theory Simulations
  imports EGS_Prelude
begin

text \<open>
  Runs of an abstract machine with labelled steps, and forward simulation: what it takes for the steps
  of a program to be played by such a machine. The relation is assumed to hold together with an
  invariant of the abstract machine, which its own steps keep.
\<close>

section \<open>Runs\<close>

inductive event_run :: "('r \<Rightarrow> 'e \<Rightarrow> 'r \<Rightarrow> bool) \<Rightarrow> 'r \<Rightarrow> 'e list \<Rightarrow> 'r \<Rightarrow> bool" for step where
  halt: "event_run step r [] r"
| play: "step r e r1 \<Longrightarrow> event_run step r1 es r2 \<Longrightarrow> event_run step r (e # es) r2"

inductive_simps event_run_simps [simp]: "event_run step r [] r'" "event_run step r (e # es) r'"

lemma event_run_append:
  "event_run step r (es @ fs) r' \<longleftrightarrow> (\<exists>r1. event_run step r es r1 \<and> event_run step r1 fs r')"
  by (induction es arbitrary: r) auto

lemma event_run_keeps:
  assumes "event_run step r es r'" and "\<And>r e r'. good r \<Longrightarrow> step r e r' \<Longrightarrow> good r'" and "good r"
  shows "good r'"
  using assms by induction auto

section \<open>Forward simulation\<close>

text \<open>
  From \<open>w\<close> to \<open>w'\<close> the program plays the events \<open>es\<close>: every good abstract state that shows \<open>w\<close> has a
  run with these events to one that shows \<open>w'\<close>.
\<close>

definition plays ::
    "('r \<Rightarrow> 'e \<Rightarrow> 'r \<Rightarrow> bool) \<Rightarrow> ('r \<Rightarrow> bool) \<Rightarrow> ('s \<Rightarrow> 'r \<Rightarrow> bool) \<Rightarrow> 's \<Rightarrow> 'e list \<Rightarrow> 's \<Rightarrow> bool" where
  "plays step good shows_as w es w' \<longleftrightarrow>
     (\<forall>r. good r \<and> shows_as w r \<longrightarrow> (\<exists>r'. event_run step r es r' \<and> shows_as w' r'))"

definition plays_some ::
    "('r \<Rightarrow> 'e \<Rightarrow> 'r \<Rightarrow> bool) \<Rightarrow> ('r \<Rightarrow> bool) \<Rightarrow> ('s \<Rightarrow> 'r \<Rightarrow> bool) \<Rightarrow> 's \<Rightarrow> 's \<Rightarrow> bool" where
  "plays_some step good shows_as w w' \<longleftrightarrow>
     (\<forall>r. good r \<and> shows_as w r \<longrightarrow> (\<exists>es r'. event_run step r es r' \<and> shows_as w' r'))"

locale simulation =
  fixes step :: "'r \<Rightarrow> 'e \<Rightarrow> 'r \<Rightarrow> bool"
    and good :: "'r \<Rightarrow> bool"
    and shows_as :: "'s \<Rightarrow> 'r \<Rightarrow> bool"
  assumes step_good: "good r \<Longrightarrow> step r e r' \<Longrightarrow> good r'"
begin

lemma run_good: "event_run step r es r' \<Longrightarrow> good r \<Longrightarrow> good r'"
  by (erule event_run_keeps) (rule step_good)

lemma plays_refl: "plays step good shows_as w [] w"
  by (simp add: plays_def)

lemma plays_trans:
  "plays step good shows_as w es w1 \<Longrightarrow> plays step good shows_as w1 fs w2 \<Longrightarrow>
     plays step good shows_as w (es @ fs) w2"
  unfolding plays_def event_run_append by (meson run_good)

lemma plays_quiet:
  "(\<And>r. shows_as w r \<Longrightarrow> shows_as w' r) \<Longrightarrow> plays step good shows_as w [] w'"
  by (auto simp: plays_def)

lemma plays_step:
  "(\<And>r. good r \<Longrightarrow> shows_as w r \<Longrightarrow> \<exists>r'. step r e r' \<and> shows_as w' r') \<Longrightarrow>
     plays step good shows_as w [e] w'"
  by (fastforce simp: plays_def)

lemma plays_some_refl: "plays_some step good shows_as w w"
  unfolding plays_some_def by (auto intro: event_run.halt)

lemma plays_some_trans:
  "plays_some step good shows_as w w1 \<Longrightarrow> plays_some step good shows_as w1 w2 \<Longrightarrow>
     plays_some step good shows_as w w2"
  unfolding plays_some_def using event_run_append by (meson run_good)

lemma plays_someI: "plays step good shows_as w es w' \<Longrightarrow> plays_some step good shows_as w w'"
  unfolding plays_def plays_some_def by blast

lemma plays_some_quiet:
  "(\<And>r. shows_as w r \<Longrightarrow> shows_as w' r) \<Longrightarrow> plays_some step good shows_as w w'"
  by (rule plays_someI [OF plays_quiet])

lemma plays_some_run:
  assumes "plays_some step good shows_as w w'" and "event_run step r0 es r" and "good r0" and "shows_as w r"
  shows "\<exists>es' r'. event_run step r0 (es @ es') r' \<and> shows_as w' r'"
  using assms run_good [OF assms(2,3)] unfolding plays_some_def event_run_append by blast

end

end
