(* ===== verification/Game_Room.thy ===== *)
theory Game_Room
  imports Packet_Streams Simulations "HOL-Library.Sublist"
begin

text \<open>
  What the server promises to its players, without buffers, sockets calls, timers and threads: a room
  of members. A member joins, may be given a player by a login, sets its position, speaks to the
  room, may lose its connection and departs. Each member has the list of all packets that were ever
  queued for it and the number of bytes of them that have left, and the room has the log of all
  broadcasts.
\<close>

section \<open>Packets\<close>

text \<open>As the server makes them: size and type of the constructor, terminated strings.\<close>

fun room_packet :: "server_packet \<Rightarrow> bool" where
  "room_packet (LoginPacketResult p) =
     (mSize p = mSize (LoginResult_init 0 0) \<and> mType p = mType (LoginResult_init 0 0) \<and>
      terminated MAX_NAME_LEN (ls_mName p))"
| "room_packet (ChatPacketResult p) =
     (mSize p = mSize ChatBroadcastResult_init \<and> mType p = mType ChatBroadcastResult_init \<and>
      terminated MAX_NAME_LEN (cs_mName p) \<and> terminated MAX_CHAT_LEN (cs_mChat p))"
| "room_packet (MovePacketResult p) =
     (mSize p = mSize MoveBroadcastResult_init \<and> mType p = mType MoveBroadcastResult_init)"

fun packet_player :: "server_packet \<Rightarrow> int32" where
  "packet_player (LoginPacketResult p) = ls_mPlayerId p"
| "packet_player (ChatPacketResult p) = cs_mPlayerId p"
| "packet_player (MovePacketResult p) = ms_mPlayerId p"

fun broadcast_packet :: "server_packet \<Rightarrow> bool" where
  "broadcast_packet (LoginPacketResult p) = False"
| "broadcast_packet _ = True"

lemma server_packet_ok_alt: "server_packet_ok p \<longleftrightarrow> room_packet p \<and> packet_player p \<noteq> -1"
  by (cases p) auto

section \<open>Members\<close>

record member =
  member_socket :: SOCKET
  member_id :: int32
  member_name :: "byte list"
  member_x :: float32
  member_y :: float32
  online :: bool
  logged_on :: bool
  joined_at :: nat
  queued :: "server_packet list"
  taken :: nat

definition newcomer :: "SOCKET \<Rightarrow> nat \<Rightarrow> member" where
  "newcomer sock n =
     \<lparr>member_socket = sock, member_id = -1, member_name = [], member_x = 0, member_y = 0, online = True,
      logged_on = False, joined_at = n, queued = [], taken = 0\<rparr>"

definition stream :: "server_packet list \<Rightarrow> byte list" where
  "stream ps = concat (map server_bytes ps)"

definition outbox :: "member \<Rightarrow> byte list" where
  "outbox m = drop (taken m) (stream (queued m))"

definition queue_packet :: "server_packet \<Rightarrow> member \<Rightarrow> member" where
  "queue_packet p m = m\<lparr>queued := queued m @ [p]\<rparr>"

text \<open>Up to half of the send buffer is always usable.\<close>

definition HALF_BUFSIZE :: nat where "HALF_BUFSIZE = 5120"

definition crowded :: "server_packet \<Rightarrow> member \<Rightarrow> bool" where
  "crowded p m \<longleftrightarrow> HALF_BUFSIZE < length (outbox m) + length (server_bytes p)"

text \<open>
  A packet for a member: a member that is online gets it, unless it is crowded; then it may be
  disconnected instead, or, in a flaky system, miss the packet and stay.
\<close>

definition offer :: "bool \<Rightarrow> server_packet \<Rightarrow> member \<Rightarrow> member \<Rightarrow> bool" where
  "offer flaky p m m' \<longleftrightarrow>
     (if online m
      then m' = queue_packet p m \<or> crowded p m \<and> (m' = m\<lparr>online := False\<rparr> \<or> flaky \<and> m' = m)
      else m' = m)"

text \<open>What a member may say to the room: a chat under its name, or where it is.\<close>

fun speaks :: "member \<Rightarrow> server_packet \<Rightarrow> bool" where
  "speaks m (LoginPacketResult p) = False"
| "speaks m (ChatPacketResult p) =
     (room_packet (ChatPacketResult p) \<and> cs_mPlayerId p = member_id m \<and> c_string (cs_mName p) = member_name m)"
| "speaks m (MovePacketResult p) =
     (room_packet (MovePacketResult p) \<and> ms_mPlayerId p = member_id m \<and>
      ms_mPosX p = member_x m \<and> ms_mPosY p = member_y m)"

section \<open>The room\<close>

text \<open>The roll lists the members that broadcasts are for, by socket.\<close>

record game_room =
  members :: "nat \<rightharpoonup> member"
  roll :: "SOCKET \<rightharpoonup> nat"
  broadcasts :: "server_packet list"

definition empty_room :: game_room where
  "empty_room = \<lparr>members = Map.empty, roll = Map.empty, broadcasts = []\<rparr>"

datatype room_event =
    Joined nat SOCKET
  | Dropped nat
  | Departed nat
  | LoggedOn nat LoginResult
  | Placed nat float32 float32
  | Spoke nat server_packet
  | Sent nat nat

definition put_member :: "nat \<Rightarrow> member \<Rightarrow> game_room \<Rightarrow> game_room" where
  "put_member a m r = r\<lparr>members := (members r)(a \<mapsto> m)\<rparr>"

text \<open>What a broadcast by \<open>a\<close> does to the member \<open>b\<close>.\<close>

definition hears :: "bool \<Rightarrow> game_room \<Rightarrow> nat \<Rightarrow> server_packet \<Rightarrow> nat \<Rightarrow> member \<Rightarrow> member \<Rightarrow> bool" where
  "hears flaky r a p b m m' \<longleftrightarrow>
     (if b = a then m' = queue_packet p m
      else if b \<in> ran (roll r) then offer flaky p m m'
      else m' = m)"

inductive room_step :: "bool \<Rightarrow> game_room \<Rightarrow> room_event \<Rightarrow> game_room \<Rightarrow> bool" for flaky where
  joined: "members r a = None \<Longrightarrow>
    room_step flaky r (Joined a sock)
      (r\<lparr>members := (members r)(a \<mapsto> newcomer sock (length (broadcasts r))),
         roll := (if sock \<in> dom (roll r) then roll r else (roll r)(sock \<mapsto> a))\<rparr>)"
| dropped: "members r a = Some m \<Longrightarrow> room_step flaky r (Dropped a) (put_member a (m\<lparr>online := False\<rparr>) r)"
| departed: "members r a = Some m \<Longrightarrow> \<not> online m \<Longrightarrow> roll r (member_socket m) = Some a \<Longrightarrow>
    room_step flaky r (Departed a)
      (r\<lparr>members := (members r)(a := None), roll := (roll r)(member_socket m := None)\<rparr>)"
| logged_on: "members r a = Some m \<Longrightarrow> online m \<Longrightarrow> room_packet (LoginPacketResult p) \<Longrightarrow>
    offer flaky (LoginPacketResult p) m m' \<Longrightarrow>
    room_step flaky r (LoggedOn a p)
      (put_member a (m'\<lparr>member_id := ls_mPlayerId p, member_name := c_string (ls_mName p),
         member_x := ls_mPosX p, member_y := ls_mPosY p, logged_on := True\<rparr>) r)"
| placed: "members r a = Some m \<Longrightarrow>
    room_step flaky r (Placed a x y) (put_member a (m\<lparr>member_x := x, member_y := y\<rparr>) r)"
| spoke: "members r a = Some m \<Longrightarrow> online m \<Longrightarrow> speaks m p \<Longrightarrow>
    (\<forall>b. rel_option (hears flaky r a p b) (members r b) (ms b)) \<Longrightarrow>
    room_step flaky r (Spoke a p) (r\<lparr>members := ms, broadcasts := broadcasts r @ [p]\<rparr>)"
| sent: "members r a = Some m \<Longrightarrow> online m \<Longrightarrow> n \<le> length (outbox m) \<Longrightarrow>
    room_step flaky r (Sent a n) (put_member a (m\<lparr>taken := taken m + n\<rparr>) r)"

section \<open>What every room satisfies\<close>

definition member_ok :: "server_packet list \<Rightarrow> member \<Rightarrow> bool" where
  "member_ok bcasts m \<longleftrightarrow>
     (\<forall>p \<in> set (queued m). room_packet p) \<and> taken m \<le> length (stream (queued m)) \<and>
     subseq (filter broadcast_packet (queued m)) bcasts \<and> joined_at m \<le> length bcasts \<and>
     (\<not> logged_on m \<longrightarrow> member_id m = -1 \<and> member_name m = [] \<and> (\<forall>p \<in> set (queued m). broadcast_packet p))"

text \<open>Nobody on the roll who is online has missed a broadcast since it joined.\<close>

definition member_up_to_date :: "server_packet list \<Rightarrow> member \<Rightarrow> bool" where
  "member_up_to_date bcasts m \<longleftrightarrow>
     (online m \<longrightarrow> filter broadcast_packet (queued m) = drop (joined_at m) bcasts)"

definition room_ok :: "bool \<Rightarrow> game_room \<Rightarrow> bool" where
  "room_ok flaky r \<longleftrightarrow>
     (\<forall>a m. members r a = Some m \<longrightarrow> member_ok (broadcasts r) m) \<and>
     (\<forall>sock a. roll r sock = Some a \<longrightarrow> (\<exists>m. members r a = Some m \<and> member_socket m = sock \<and>
        (\<not> flaky \<longrightarrow> member_up_to_date (broadcasts r) m))) \<and>
     (\<forall>p \<in> set (broadcasts r). room_packet p \<and> broadcast_packet p)"

lemma stream_simps [simp]: "stream [] = []" "stream (ps @ qs) = stream ps @ stream qs" "stream [p] = server_bytes p"
  by (simp_all add: stream_def)

lemma queue_packet_simps [simp]:
  "member_socket (queue_packet p m) = member_socket m" "member_id (queue_packet p m) = member_id m"
  "member_name (queue_packet p m) = member_name m" "member_x (queue_packet p m) = member_x m"
  "member_y (queue_packet p m) = member_y m" "online (queue_packet p m) = online m"
  "logged_on (queue_packet p m) = logged_on m" "joined_at (queue_packet p m) = joined_at m"
  "queued (queue_packet p m) = queued m @ [p]" "taken (queue_packet p m) = taken m"
  by (simp_all add: queue_packet_def)

lemma outbox_queue_packet [simp]:
  "taken m \<le> length (stream (queued m)) \<Longrightarrow> outbox (queue_packet p m) = outbox m @ server_bytes p"
  by (simp add: outbox_def)

lemma speaks_packet: "speaks m p \<Longrightarrow> room_packet p \<and> broadcast_packet p \<and> packet_player p = member_id m"
  by (cases p) auto

lemma member_ok_longer: "member_ok bcasts m \<Longrightarrow> member_ok (bcasts @ [p]) m"
  by (auto simp: member_ok_def intro: list_emb_append2)

lemma member_ok_broadcast:
  "member_ok bcasts m \<Longrightarrow> room_packet p \<Longrightarrow> broadcast_packet p \<Longrightarrow> member_ok (bcasts @ [p]) (queue_packet p m)"
  by (auto simp: member_ok_def)

lemma member_ok_fields:
  "member_ok bcasts m \<Longrightarrow> member_ok bcasts (m\<lparr>online := b\<rparr>)"
  "member_ok bcasts m \<Longrightarrow> member_ok bcasts (m\<lparr>member_x := x, member_y := y\<rparr>)"
  "member_ok bcasts m \<Longrightarrow> n \<le> length (outbox m) \<Longrightarrow> member_ok bcasts (m\<lparr>taken := taken m + n\<rparr>)"
  by (auto simp: member_ok_def outbox_def)

lemma room_ok_empty: "room_ok flaky empty_room"
  by (simp add: room_ok_def empty_room_def)

text \<open>Offers.\<close>

lemma offer_fields:
  assumes "offer flaky p m m'"
  shows "member_socket m' = member_socket m" "member_id m' = member_id m" "member_name m' = member_name m"
    "member_x m' = member_x m" "member_y m' = member_y m" "logged_on m' = logged_on m" "joined_at m' = joined_at m"
    "taken m' = taken m" "online m' \<Longrightarrow> online m"
  using assms by (auto simp: offer_def split: if_splits)

lemma offer_ok:
  assumes "offer flaky p m m'" and "member_ok bcasts m" and "room_packet p" and "broadcast_packet p"
  shows "member_ok (bcasts @ [p]) m'"
  using assms member_ok_longer [of bcasts m p] member_ok_broadcast [of bcasts m p]
  by (auto simp: offer_def intro: member_ok_fields split: if_splits)

lemma offer_up_to_date:
  assumes "offer False p m m'" and "member_ok bcasts m" and "member_up_to_date bcasts m" and "broadcast_packet p"
  shows "member_up_to_date (bcasts @ [p]) m'"
  using assms by (auto simp: offer_def member_up_to_date_def member_ok_def split: if_splits)

lemma hears_ok:
  assumes "hears flaky r a p b m m'" and "member_ok bcasts m" and "room_packet p" and "broadcast_packet p"
  shows "member_ok (bcasts @ [p]) m' \<and> member_socket m' = member_socket m \<and>
    (\<not> flaky \<and> b \<in> ran (roll r) \<and> member_up_to_date bcasts m \<longrightarrow> member_up_to_date (bcasts @ [p]) m')"
proof -
  have "member_up_to_date (bcasts @ [p]) (queue_packet p m)" if "member_up_to_date bcasts m"
    using that assms(2,4) by (auto simp: member_up_to_date_def member_ok_def)
  with assms offer_ok [of flaky p m m' bcasts] offer_up_to_date [of p m m' bcasts] offer_fields(1) [of flaky p m m']
    member_ok_longer [of bcasts m p] member_ok_broadcast [of bcasts m p]
  show ?thesis by (cases flaky) (auto simp: hears_def split: if_splits)
qed

text \<open>Steps that change one member and no broadcasts.\<close>

lemma room_ok_roll:
  assumes "room_ok flaky r" and "roll r sock = Some a"
  obtains m where "members r a = Some m" "member_socket m = sock" "flaky \<or> member_up_to_date (broadcasts r) m"
  using assms unfolding room_ok_def by blast

lemma room_ok_put_member:
  assumes "room_ok flaky r" and "members r a = Some m" and "member_ok (broadcasts r) m'"
    and "member_socket m' = member_socket m"
    and "member_up_to_date (broadcasts r) m \<Longrightarrow> \<not> flaky \<Longrightarrow> member_up_to_date (broadcasts r) m'"
  shows "room_ok flaky (put_member a m' r)"
proof -
  have "\<exists>n. members (put_member a m' r) b = Some n \<and> member_socket n = sock \<and>
      (\<not> flaky \<longrightarrow> member_up_to_date (broadcasts r) n)" if b: "roll (put_member a m' r) sock = Some b" for sock b
  proof -
    from b have "roll r sock = Some b" by (simp add: put_member_def)
    from room_ok_roll [OF assms(1) this] obtain n where "members r b = Some n" "member_socket n = sock"
      "flaky \<or> member_up_to_date (broadcasts r) n" .
    with assms(2,4,5) show ?thesis by (cases "b = a") (auto simp: put_member_def)
  qed
  with assms(1,3) show ?thesis by (simp add: room_ok_def put_member_def)
qed

lemma room_ok_member: "room_ok flaky r \<Longrightarrow> members r a = Some m \<Longrightarrow> member_ok (broadcasts r) m"
  by (simp add: room_ok_def)

lemma room_ok_login:
  assumes "room_ok flaky r" and "members r a = Some m" and "online m" and "room_packet (LoginPacketResult p)"
    and "offer flaky (LoginPacketResult p) m m'"
  shows "room_ok flaky (put_member a (m'\<lparr>member_id := ls_mPlayerId p, member_name := c_string (ls_mName p),
         member_x := ls_mPosX p, member_y := ls_mPosY p, logged_on := True\<rparr>) r)"
proof (rule room_ok_put_member [OF assms(1,2)])
  from room_ok_member [OF assms(1,2)] assms(3-5)
  show "member_ok (broadcasts r) (m'\<lparr>member_id := ls_mPlayerId p, member_name := c_string (ls_mName p),
         member_x := ls_mPosX p, member_y := ls_mPosY p, logged_on := True\<rparr>)"
    by (auto simp: offer_def member_ok_def)
  show "member_up_to_date (broadcasts r) (m'\<lparr>member_id := ls_mPlayerId p, member_name := c_string (ls_mName p),
         member_x := ls_mPosX p, member_y := ls_mPosY p, logged_on := True\<rparr>)"
    if "member_up_to_date (broadcasts r) m"
    using that assms(3,5) by (auto simp: offer_def member_up_to_date_def)
qed (use offer_fields(1) [OF assms(5)] in simp)

lemma room_ok_speech:
  assumes "room_ok flaky r" and "members r a = Some m" and "speaks m p"
    and heard: "\<forall>b. rel_option (hears flaky r a p b) (members r b) (ms b)"
  shows "room_ok flaky (r\<lparr>members := ms, broadcasts := broadcasts r @ [p]\<rparr>)"
proof -
  note p = speaks_packet [OF assms(3)]
  have one: "\<exists>m. members r b = Some m \<and> hears flaky r a p b m m'" if "ms b = Some m'" for b m'
    using heard [rule_format, of b] that by (cases "members r b") auto
  have other: "\<exists>m'. ms b = Some m' \<and> hears flaky r a p b m m'" if "members r b = Some m" for b m
    using heard [rule_format, of b] that by (cases "ms b") auto
  have "member_ok (broadcasts r @ [p]) m'" if m': "ms b = Some m'" for b m'
  proof -
    from one [OF m'] obtain m where m: "members r b = Some m" "hears flaky r a p b m m'" by blast
    with hears_ok [OF m(2) room_ok_member [OF assms(1) m(1)]] p show ?thesis by blast
  qed
  moreover have "\<exists>m'. ms b = Some m' \<and> member_socket m' = sock \<and>
      (\<not> flaky \<longrightarrow> member_up_to_date (broadcasts r @ [p]) m')" if b: "roll r sock = Some b" for sock b
  proof -
    from room_ok_roll [OF assms(1) b] obtain m where m: "members r b = Some m" "member_socket m = sock"
      "\<not> flaky \<longrightarrow> member_up_to_date (broadcasts r) m" by blast
    from other [OF m(1)] obtain m' where m': "ms b = Some m'" "hears flaky r a p b m m'" by blast
    from b have "b \<in> ran (roll r)" by (auto simp: ran_def)
    with hears_ok [OF m'(2) room_ok_member [OF assms(1) m(1)]] p m m'(1) show ?thesis by auto
  qed
  ultimately show ?thesis using assms(1) p by (auto simp: room_ok_def)
qed

lemma newcomer_ok: "member_ok bcasts (newcomer sock (length bcasts)) \<and> member_up_to_date bcasts (newcomer sock (length bcasts)) \<and>
    member_socket (newcomer sock n) = sock"
  by (simp add: newcomer_def member_ok_def member_up_to_date_def)

lemma room_ok_joined:
  assumes "room_ok flaky r" and "members r a = None"
  shows "room_ok flaky (r\<lparr>members := (members r)(a \<mapsto> newcomer sock (length (broadcasts r))),
         roll := (if sock \<in> dom (roll r) then roll r else (roll r)(sock \<mapsto> a))\<rparr>)" (is "room_ok flaky ?r")
proof -
  have "\<exists>m. members ?r b = Some m \<and> member_socket m = s \<and> (\<not> flaky \<longrightarrow> member_up_to_date (broadcasts r) m)"
    if b: "roll ?r s = Some b" for s b
  proof (cases "roll r s = Some b")
    case True
    from room_ok_roll [OF assms(1) this] obtain n where "members r b = Some n" "member_socket n = s"
      "flaky \<or> member_up_to_date (broadcasts r) n" .
    with assms(2) show ?thesis by (cases "b = a") auto
  next
    case False
    with b have "s = sock" "b = a" by (auto split: if_splits)
    with newcomer_ok show ?thesis by simp
  qed
  with assms(1) newcomer_ok show ?thesis by (simp add: room_ok_def)
qed

lemma room_ok_departed:
  assumes "room_ok flaky r" and "members r a = Some m" and "roll r (member_socket m) = Some a"
  shows "room_ok flaky (r\<lparr>members := (members r)(a := None), roll := (roll r)(member_socket m := None)\<rparr>)" (is "room_ok flaky ?r")
proof -
  have "\<exists>n. members ?r b = Some n \<and> member_socket n = s \<and> (\<not> flaky \<longrightarrow> member_up_to_date (broadcasts r) n)"
    if b: "roll ?r s = Some b" for s b
  proof -
    from b have old: "roll r s = Some b" "s \<noteq> member_socket m" by (auto split: if_splits)
    from room_ok_roll [OF assms(1) old(1)] obtain n where "members r b = Some n" "member_socket n = s"
      "flaky \<or> member_up_to_date (broadcasts r) n" .
    with old(2) assms(2) show ?thesis by (cases "b = a") auto
  qed
  with assms(1) show ?thesis by (simp add: room_ok_def)
qed

lemma room_ok_step:
  assumes "room_ok flaky r" and "room_step flaky r e r'"
  shows "room_ok flaky r'"
  using assms(2)
proof (cases rule: room_step.cases)
  case (joined a sock)
  with room_ok_joined [OF assms(1)] show ?thesis by blast
next
  case (departed a m)
  with room_ok_departed [OF assms(1)] show ?thesis by blast
next
  case (logged_on a m p m')
  with room_ok_login [OF assms(1)] show ?thesis by blast
next
  case (spoke a m p ms)
  with room_ok_speech [OF assms(1)] show ?thesis by blast
next
  case (dropped a m)
  with room_ok_put_member [OF assms(1), of a m] room_ok_member [OF assms(1), of a m] show ?thesis
    by (auto simp: member_ok_fields member_up_to_date_def)
next
  case (placed a m x y)
  with room_ok_put_member [OF assms(1), of a m] room_ok_member [OF assms(1), of a m] show ?thesis
    by (auto simp: member_ok_fields member_up_to_date_def)
next
  case (sent a m n)
  with room_ok_put_member [OF assms(1), of a m] room_ok_member [OF assms(1), of a m] show ?thesis
    by (auto simp: member_ok_fields member_up_to_date_def)
qed

interpretation room: simulation "room_step flaky" "room_ok flaky" shows_as for flaky shows_as
  by unfold_locales (rule room_ok_step)

end
