(* ===== verification/Room_Sessions.thy ===== *)
theory Room_Sessions
  imports Server_Properties Game_Room
begin

text \<open>
  The server plays the room of \<open>Game_Room\<close>: a session is shown as a member, the client list as the
  roll. This theory relates the two, lists the operations the room does not see, and shows that
  \<open>SendRequest\<close> is an offer and \<open>Broadcast\<close> a speech.
\<close>

section \<open>What a state of the server shows\<close>

definition shows_outbox :: "session \<Rightarrow> member \<Rightarrow> bool" where
  "shows_outbox s m \<longleftrightarrow>
     cb_ok (mSendBuffer s) \<and> balanced (mSendBuffer s) \<and> length (mBuffer (mSendBuffer s)) = BUFSIZE \<and>
     contents (mSendBuffer s) = outbox m \<and> mConnected s = online m"

definition shows_member :: "session \<Rightarrow> member \<Rightarrow> bool" where
  "shows_member s m \<longleftrightarrow> shows_outbox s m \<and> mSocket s = member_socket m \<and> mPlayerId s = member_id m \<and>
     terminated MAX_NAME_LEN (mPlayerName s) \<and> c_string (mPlayerName s) = member_name m \<and> mPosX s = member_x m \<and> mPosY s = member_y m \<and>
     mLogon s = logged_on m"

definition shows_members :: "(nat \<rightharpoonup> session) \<Rightarrow> (nat \<rightharpoonup> member) \<Rightarrow> bool" where
  "shows_members ss ms \<longleftrightarrow> (\<forall>a. rel_option shows_member (ss a) (ms a))"

definition shows_room :: "world \<Rightarrow> game_room \<Rightarrow> bool" where
  "shows_room w r \<longleftrightarrow>
     map_ok (mClientList w) \<and> map_of (mClientList w) = roll r \<and> shows_members (sessions w) (members r)"

text \<open>The system is flaky when the option that \<open>Disconnect\<close> sets may be refused.\<close>

definition flaky :: "environment \<Rightarrow> bool" where
  "flaky env \<longleftrightarrow> (\<exists>k. os_setsockopt_fails env k)"

abbreviation sim :: "environment \<Rightarrow> world \<Rightarrow> room_event list \<Rightarrow> world \<Rightarrow> bool" where
  "sim env \<equiv> plays (room_step (flaky env)) (room_ok (flaky env)) shows_room"

abbreviation sims :: "environment \<Rightarrow> world \<Rightarrow> world \<Rightarrow> bool" where
  "sims env \<equiv> plays_some (room_step (flaky env)) (room_ok (flaky env)) shows_room"

lemma shows_members_Some:
  assumes "shows_members ss ms"
  shows "ss a = Some s \<Longrightarrow> \<exists>m. ms a = Some m \<and> shows_member s m"
    and "ms a = Some m \<Longrightarrow> \<exists>s. ss a = Some s \<and> shows_member s m"
    and "ms a = None \<longleftrightarrow> ss a = None"
proof -
  from assms have a: "rel_option shows_member (ss a) (ms a)" by (simp add: shows_members_def)
  show "ss a = Some s \<Longrightarrow> \<exists>m. ms a = Some m \<and> shows_member s m" using a by (cases "ms a") auto
  show "ms a = Some m \<Longrightarrow> \<exists>s. ss a = Some s \<and> shows_member s m" using a by (cases "ss a") auto
  show "ms a = None \<longleftrightarrow> ss a = None" using a by (cases "ss a"; cases "ms a") auto
qed

lemma shows_members_upd:
  "shows_members ss ms \<Longrightarrow> shows_member s m \<Longrightarrow> shows_members (ss(a \<mapsto> s)) (ms(a \<mapsto> m))"
  by (simp add: shows_members_def)

lemma shows_room_Some:
  "shows_room w r \<Longrightarrow> sessions w a = Some s \<Longrightarrow> \<exists>m. members r a = Some m \<and> shows_member s m"
  unfolding shows_room_def using shows_members_Some(1) by blast

lemma shows_room_member:
  "shows_room w r \<Longrightarrow> members r a = Some m \<Longrightarrow> \<exists>s. sessions w a = Some s \<and> shows_member s m"
  unfolding shows_room_def using shows_members_Some(2) by blast

section \<open>Changes that the room does not see\<close>

definition view ::
    "session \<Rightarrow> float32 \<times> float32 \<times> byte list \<times> bool \<times> bool \<times> SOCKET \<times> int32 \<times> circular_buffer" where
  "view s = (mPosX s, mPosY s, mPlayerName s, mConnected s, mLogon s, mSocket s, mPlayerId s, mSendBuffer s)"

definition unseen :: "world \<Rightarrow> world \<Rightarrow> bool" where
  "unseen w w' \<longleftrightarrow> mClientList w' = mClientList w \<and>
     (\<forall>a. map_option view (sessions w' a) = map_option view (sessions w a))"

lemma unseen_refl [simp]: "unseen w w"
  by (simp add: unseen_def)

lemma unseen_trans: "unseen w w' \<Longrightarrow> unseen w' w'' \<Longrightarrow> unseen w w''"
  by (simp add: unseen_def)

lemma unseen_set:
  "sessions w a = Some s \<Longrightarrow> view s' = view s \<Longrightarrow> unseen w (set_session a s' w)"
  by (simp add: unseen_def)

lemma unseen_sessions: "sessions w' = sessions w \<Longrightarrow> mClientList w' = mClientList w \<Longrightarrow> unseen w w'"
  by (simp add: unseen_def)

lemma shows_member_view: "view s' = view s \<Longrightarrow> shows_member s' m = shows_member s m"
  by (simp add: view_def shows_member_def shows_outbox_def)

lemma unseen_shows:
  assumes "unseen w w'" and "shows_room w r"
  shows "shows_room w' r"
proof -
  have "rel_option shows_member (sessions w' a) (members r a)" for a
  proof -
    from assms(1) have v: "map_option view (sessions w' a) = map_option view (sessions w a)"
      unfolding unseen_def by blast
    from assms(2) have rel: "rel_option shows_member (sessions w a) (members r a)"
      unfolding shows_room_def shows_members_def by blast
    show ?thesis
    proof (cases "sessions w a")
      case None
      with v rel show ?thesis by simp
    next
      case (Some s)
      with v rel obtain s' m where "sessions w' a = Some s'" "view s' = view s" "members r a = Some m" "shows_member s m"
        by (auto simp: option_rel_Some1)
      with shows_member_view [of s' s m] show ?thesis by simp
    qed
  qed
  with assms show ?thesis by (simp add: shows_room_def shows_members_def unseen_def)
qed

lemma unseen_sim: "unseen w w' \<Longrightarrow> sim env w [] w'"
  by (rule room.plays_quiet) (rule unseen_shows)

lemma unseen_sims: "unseen w w' \<Longrightarrow> sims env w w'"
  by (rule room.plays_someI [OF unseen_sim])

lemma modify_session_unseen:
  "modify_session a f w = Inr w' \<Longrightarrow> (\<And>s. view (f s) = view s) \<Longrightarrow> unseen w w'"
  by (auto simp: modify_session_def rbind_eq_Inr intro: unseen_set)

lemma RefCount_unseen:
  "IncRefCount a w = Inr w' \<Longrightarrow> unseen w w'" "DecRefCount a w = Inr w' \<Longrightarrow> unseen w w'"
  by (auto simp: IncRefCount_def DecRefCount_def view_def elim!: modify_session_unseen)

lemma PushJob_unseen: "PushJob j w = Inr w' \<Longrightarrow> unseen w w'"
  by (auto simp: PushJob_def rbind_eq_Inr intro: unseen_sessions)

lemma CallFuncAfter_unseen: "CallFuncAfter d a t w = Inr w' \<Longrightarrow> unseen w w'"
  by (auto simp: CallFuncAfter_def PushTask_def Let_def rbind_eq_Inr dest!: RefCount_unseen
      intro: unseen_trans [OF _ unseen_sessions])

lemma OnTick_unseen: "OnTick a w = Inr w' \<Longrightarrow> unseen w w'"
  by (auto simp: OnTick_def rbind_eq_Inr split: if_splits dest: CallFuncAfter_unseen)

lemma OnDbUpdate_unseen: "OnDbUpdate env a w = Inr w' \<Longrightarrow> unseen w w'"
  by (auto simp: OnDbUpdate_def rbind_eq_Inr Let_def split: if_splits dest!: PushJob_unseen CallFuncAfter_unseen
      intro: unseen_trans)

lemma view_fields [simp]:
  "view (s\<lparr>mRefCount := i\<rparr>) = view s" "view (s\<lparr>mRecvBuffer := b\<rparr>) = view s" "view (s\<lparr>mClientAddr := d\<rparr>) = view s"
  "view (s\<lparr>mOverlappedRecv := x\<rparr>) = view s" "view (s\<lparr>mOverlappedSend := x\<rparr>) = view s"
  by (simp_all add: view_def)

lemma unseen_after_set:
  "unseen (set_session a s' w) w' \<Longrightarrow> sessions w a = Some s \<Longrightarrow> view s' = view s \<Longrightarrow> unseen w w'"
  by (rule unseen_trans [OF unseen_set])

lemma ParsePacket_unseen: "ParsePacket a n w = Inr (pkt, w') \<Longrightarrow> unseen w w'"
  by (auto simp: ParsePacket_def rbind_eq_Inr intro: unseen_set)

lemma KernelReceive_unseen: "KernelReceive op bs w = Inr w' \<Longrightarrow> unseen w w'"
  by (auto simp: KernelReceive_def rbind_eq_Inr intro: unseen_set)

lemma WSARecv_unseen: "WSARecv env op w = (rc, w') \<Longrightarrow> unseen w w'"
  by (auto simp: WSARecv_def Let_def intro: unseen_sessions)

lemma WSASend_unseen: "unseen w (snd (WSASend env sock op d w))"
  by (auto simp: WSASend_def Let_def intro: unseen_sessions)

lemma PostRecv_unseen:
  assumes "PostRecv env a w = Inr (b, w')"
  shows "unseen w w'"
proof -
  from assms obtain s where s: "sessions w a = Some s" by (auto simp: PostRecv_def rbind_eq_Inr)
  let ?w = "set_session a (s\<lparr>mRecvBuffer := snd (GetFreeSpaceSize (mRecvBuffer s)), mOverlappedRecv := Some a\<rparr>) w"
  have "unseen w ?w" using s by (rule unseen_set) simp
  note posted = unseen_trans [OF this WSARecv_unseen]
  have "unseen w w'" if "IncRefCount a (snd (WSARecv env op ?w)) = Inr w'" for op
    using unseen_trans [OF posted RefCount_unseen(1) [OF that]] by (cases "WSARecv env op ?w") simp
  moreover have "unseen w (snd (WSARecv env op ?w))" for op
    using posted by (cases "WSARecv env op ?w") simp
  ultimately show ?thesis
    using assms s by (auto simp: PostRecv_def rbind_eq_Inr Let_def case_prod_beta split: if_splits)
qed

lemma SendFlush_unseen:
  assumes "SendFlush env a w = Inr (b, w')"
  shows "unseen w w'"
proof -
  from assms obtain s where s: "sessions w a = Some s" by (auto simp: SendFlush_def rbind_eq_Inr)
  let ?w = "set_session a (s\<lparr>mOverlappedSend := Some a\<rparr>) w"
  have "unseen w ?w" using s by (rule unseen_set) simp
  note posted = unseen_trans [OF this WSASend_unseen]
  have "unseen w w'" if "IncRefCount a (snd (WSASend env sock op d ?w)) = Inr w'" for sock op d
    by (rule unseen_trans [OF posted RefCount_unseen(1) [OF that]])
  with posted show ?thesis
    using assms s by (auto simp: SendFlush_def rbind_eq_Inr Let_def case_prod_beta split: if_splits)
qed

section \<open>One member\<close>

text \<open>A change of one session that is one event of the room.\<close>

lemma shows_put_member:
  assumes "shows_room w r" and "shows_member s' m'"
    and "sessions w' = (sessions w)(a \<mapsto> s')" and "mClientList w' = mClientList w"
  shows "shows_room w' (put_member a m' r)"
  using assms shows_members_upd by (simp add: shows_room_def put_member_def)

lemma sim_member:
  assumes "sessions w a = Some s" and "sessions w' = (sessions w)(a \<mapsto> s')" and "mClientList w' = mClientList w"
    and "\<And>r m. members r a = Some m \<Longrightarrow> shows_member s m \<Longrightarrow>
      \<exists>m'. room_step (flaky env) r e (put_member a m' r) \<and> shows_member s' m'"
  shows "sim env w [e] w'"
proof (rule room.plays_step)
  fix r assume r: "shows_room w r"
  from shows_room_Some [OF this assms(1)] obtain m where "members r a = Some m" "shows_member s m" by blast
  from assms(4) [OF this] obtain m' where "room_step (flaky env) r e (put_member a m' r)" "shows_member s' m'" by blast
  with shows_put_member [OF r _ assms(2,3)] show "\<exists>r'. room_step (flaky env) r e r' \<and> shows_room w' r'" by blast
qed

lemma shows_offline: "shows_member s m \<Longrightarrow> shows_member (s\<lparr>mConnected := False\<rparr>) (m\<lparr>online := False\<rparr>)"
  by (simp add: shows_member_def shows_outbox_def outbox_def)

lemma Disconnect_cases:
  assumes "Disconnect env a w = Inr w'"
  obtains (same) s where "sessions w a = Some s" "sessions w' = sessions w" "mClientList w' = mClientList w"
      "mConnected s \<Longrightarrow> flaky env"
    | (closed) s where "sessions w a = Some s" "mConnected s" "sessions w' = (sessions w)(a \<mapsto> s\<lparr>mConnected := False\<rparr>)"
      "mClientList w' = mClientList w"
proof -
  from assms obtain s where s: "sessions w a = Some s" by (auto simp: Disconnect_def rbind_eq_Inr)
  consider "\<not> mConnected s" | "mConnected s" "os_setsockopt_fails env (calls w)"
    | "mConnected s" "\<not> os_setsockopt_fails env (calls w)" by blast
  then show thesis
  proof cases
    case 1
    then have "w' = w" using assms s by (simp add: Disconnect_def get_session_def)
    with 1 s show ?thesis by (intro same [of s]) simp_all
  next
    case 2
    then have "w' = sys_call w" using assms s by (simp add: Disconnect_def get_session_def setsockopt_def)
    with 2 s show ?thesis by (intro same [of s]) (auto simp: flaky_def)
  next
    case 3
    then have "w' = set_session a (s\<lparr>mConnected := False\<rparr>) (closesocket (mSocket s) (sys_call w))"
      using assms s by (simp add: Disconnect_def get_session_def setsockopt_def Let_def)
    with 3 s show ?thesis by (intro closed [of s]) (simp_all add: closesocket_def)
  qed
qed

lemma Disconnect_sims:
  assumes "Disconnect env a w = Inr w'"
  shows "sims env w w'"
  using assms
proof (cases rule: Disconnect_cases)
  case (same s)
  then show ?thesis by (intro unseen_sims unseen_sessions)
next
  case (closed s)
  have "sim env w [Dropped a] w'"
    by (rule sim_member [OF closed(1,3,4)]) (blast intro: room_step.dropped shows_offline)
  then show ?thesis by (rule room.plays_someI)
qed

section \<open>A packet for one session\<close>

lemma packet_size_room:
  assumes "room_packet p"
  shows "packet_size (server_bytes p) = length (server_bytes p)"
proof (cases p)
  case (LoginPacketResult q)
  with assms show ?thesis
    by (simp add: packet_size_def LoginResult_bytes_def header_of_packet LoginResult_init_def terminated_def sizeof_defs)
next
  case (ChatPacketResult q)
  with assms show ?thesis
    by (simp add: packet_size_def ChatBroadcastResult_bytes_def header_of_packet ChatBroadcastResult_init_def terminated_def
        sizeof_defs)
next
  case (MovePacketResult q)
  with assms show ?thesis
    by (simp add: packet_size_def MoveBroadcastResult_bytes_def header_of_packet MoveBroadcastResult_init_def sizeof_defs)
qed

text \<open>
  \<open>SendRequest\<close> with a packet of the room always returns, and is an offer; its result says whether the
  packet was queued.
\<close>

lemma crowded_full:
  assumes "shows_outbox s m" and "room (mSendBuffer s) < length (server_bytes p)"
  shows "crowded p m"
  using assms balanced_room [of "mSendBuffer s"]
  by (simp add: shows_outbox_def crowded_def HALF_BUFSIZE_def BUFSIZE_def)

lemma SendRequest_offer:
  assumes s: "sessions w a = Some s" and out: "shows_outbox s m" and taken: "taken m \<le> length (stream (queued m))"
    and p: "room_packet p"
  shows "\<exists>b w' s' m'. SendRequest env a (server_bytes p) w = Inr (b, w') \<and> sessions w' = (sessions w)(a \<mapsto> s') \<and>
    mClientList w' = mClientList w \<and> s' = s\<lparr>mSendBuffer := mSendBuffer s', mConnected := mConnected s'\<rparr> \<and>
    shows_outbox s' m' \<and> offer (flaky env) p m m' \<and>
    (if b then online m \<and> m' = queue_packet p m else m' = m \<or> m' = m\<lparr>online := False\<rparr>)"
proof -
  from out have cb: "cb_ok (mSendBuffer s)" "balanced (mSendBuffer s)" "mConnected s = online m"
    by (simp_all add: shows_outbox_def)
  let ?n = "length (server_bytes p)" and ?bs = "server_bytes p"
  from packet_size_room [OF p] have n: "sz_of_short (mSize (PacketHeader_at ?bs)) = ?n" by (simp add: packet_size_def)
  consider (off) "\<not> online m" | (fits) "online m" "?n \<le> room (mSendBuffer s)"
    | (full) "online m" "room (mSendBuffer s) < ?n" by fastforce
  then show ?thesis
  proof cases
    case off
    with s out cb(3) show ?thesis
      by (intro exI [of _ False] exI [of _ w] exI [of _ s] exI [of _ m])
        (auto simp: SendRequest_def get_session_def offer_def)
  next
    case fits
    from Write_contents [OF cb(1) fits(2), of ?bs] obtain sb where
      sb: "Write (mSendBuffer s) ?bs ?n = Inr (True, sb)" "cb_ok sb" "contents sb = contents (mSendBuffer s) @ ?bs"
        "length (mBuffer sb) = length (mBuffer (mSendBuffer s))" by auto
    note bal = balanced_Write [OF cb(1,2) sb(1)]
    let ?s = "s\<lparr>mSendBuffer := sb\<rparr>"
    have "SendRequest env a ?bs w = Inr (True, set_session a ?s w)"
      using s cb(3) fits(1) n sb(1) by (simp add: SendRequest_def get_session_def Let_def)
    moreover have "shows_outbox ?s (queue_packet p m)" using out sb bal taken by (simp add: shows_outbox_def)
    ultimately show ?thesis using fits(1)
      by (intro exI [of _ True] exI [of _ "set_session a ?s w"] exI [of _ ?s] exI [of _ "queue_packet p m"])
        (simp add: offer_def)
  next
    case full
    from Write_full [OF cb(1) full(2), of ?bs] obtain sb where
      sb: "Write (mSendBuffer s) ?bs ?n = Inr (False, sb)" "cb_ok sb" "contents sb = contents (mSendBuffer s)"
        "length (mBuffer sb) = length (mBuffer (mSendBuffer s))" by auto
    note bal = balanced_Write [OF cb(1,2) sb(1)]
    let ?s = "s\<lparr>mSendBuffer := sb\<rparr>" and ?b = "os_setsockopt_fails env (calls w)"
    let ?w = "sys_call (set_session a ?s w)"
    let ?w' = "if ?b then ?w else set_session a (?s\<lparr>mConnected := False\<rparr>) (closesocket (mSocket s) ?w)"
    let ?m = "if ?b then m else m\<lparr>online := False\<rparr>"
    have "SendRequest env a ?bs w = Inr (False, ?w')"
      using s cb(3) full(1) n sb(1)
      by (simp add: SendRequest_def get_session_def Disconnect_def setsockopt_def Let_def)
    moreover have "shows_outbox (?s\<lparr>mConnected := ?b\<rparr>) ?m"
      using out sb bal full(1) by (simp add: shows_outbox_def outbox_def)
    moreover have "offer (flaky env) p m ?m"
      using full(1) crowded_full [OF out full(2)] by (auto simp: offer_def flaky_def)
    ultimately show ?thesis using cb(3) full(1)
      by (intro exI [of _ False] exI [of _ ?w'] exI [of _ "?s\<lparr>mConnected := ?b\<rparr>"] exI [of _ ?m])
        (auto simp: closesocket_def)
  qed
qed

lemma shows_member_offered:
  assumes "shows_member s m" and "s' = s\<lparr>mSendBuffer := mSendBuffer s', mConnected := mConnected s'\<rparr>"
    and "shows_outbox s' m'" and "offer f p m m'"
  shows "shows_member s' m'"
proof -
  have "mSocket s' = mSocket s \<and> mPlayerId s' = mPlayerId s \<and> mPlayerName s' = mPlayerName s \<and> mPosX s' = mPosX s \<and>
      mPosY s' = mPosY s \<and> mLogon s' = mLogon s"
    by (subst assms(2), simp)+ 
  with assms(1,3) offer_fields [OF assms(4)] show ?thesis by (simp add: shows_member_def)
qed

section \<open>Broadcasts\<close>

text \<open>The loop of \<open>BroadcastPacket\<close> makes one offer to every session of the list but the sender.\<close>

definition offered :: "bool \<Rightarrow> server_packet \<Rightarrow> nat set \<Rightarrow> nat \<Rightarrow> member \<Rightarrow> member \<Rightarrow> bool" where
  "offered f p A b m m' \<longleftrightarrow> (if b \<in> A then offer f p m m' else m' = m)"

lemma rel_option_trans:
  "rel_option P x y \<Longrightarrow> rel_option Q y z \<Longrightarrow> (\<And>a b c. P a b \<Longrightarrow> Q b c \<Longrightarrow> R a c) \<Longrightarrow> rel_option R x z"
  by (cases x; cases y; cases z) auto

lemma BroadcastPacket_loop_offers:
  assumes "shows_members (sessions w) ms" and "\<forall>e \<in> set it. ms (snd e) \<noteq> None" and "distinct (map snd it)"
    and "\<forall>a m. ms a = Some m \<longrightarrow> taken m \<le> length (stream (queued m))" and p: "room_packet p"
  shows "\<exists>w' ms'. BroadcastPacket_loop env a (server_bytes p) it w = Inr w' \<and> shows_members (sessions w') ms' \<and>
    mClientList w' = mClientList w \<and>
    (\<forall>b. rel_option (offered (flaky env) p (snd ` set it - {a}) b) (ms b) (ms' b))"
  using assms(1-4)
proof (induction it arbitrary: w ms)
  case Nil
  then show ?case by (intro exI [of _ w] exI [of _ ms]) (simp add: offered_def rel_option_unfold option.rel_eq)
next
  case (Cons e it)
  obtain sock c where e: "e = (sock, c)" by (cases e)
  have A: "snd ` set (e # it) - {a} = (if c = a then {} else {c}) \<union> (snd ` set it - {a})" using e by auto
  show ?case
  proof (cases "c = a")
    case True
    with Cons.prems Cons.IH [of w ms] e A show ?thesis by simp
  next
    case False
    from Cons.prems(2) e obtain m where m: "ms c = Some m" by auto
    from shows_members_Some(2) [OF Cons.prems(1) m] obtain s where s: "sessions w c = Some s" "shows_member s m" by blast
    have out: "shows_outbox s m" "taken m \<le> length (stream (queued m))"
      using s(2) m Cons.prems(4) by (simp_all add: shows_member_def)
    from SendRequest_offer [OF s(1) out p, of env] obtain b w1 s' m' where
      w1: "SendRequest env c (server_bytes p) w = Inr (b, w1)" "sessions w1 = (sessions w)(c \<mapsto> s')"
        "mClientList w1 = mClientList w" "s' = s\<lparr>mSendBuffer := mSendBuffer s', mConnected := mConnected s'\<rparr>"
        "shows_outbox s' m'" "offer (flaky env) p m m'" by blast
    note sm = shows_member_offered [OF s(2) w1(4-6)]
    have ms1: "shows_members (sessions w1) (ms(c \<mapsto> m'))"
      using shows_members_upd [OF Cons.prems(1) sm] w1(2) by simp
    have taken: "\<forall>a n. (ms(c \<mapsto> m')) a = Some n \<longrightarrow> taken n \<le> length (stream (queued n))"
      using Cons.prems(4) w1(6) out(2) by (auto simp: offer_def split: if_splits)
    have live: "\<forall>e \<in> set it. (ms(c \<mapsto> m')) (snd e) \<noteq> None" and dist: "distinct (map snd it)"
      using Cons.prems(2,3) by simp_all
    from Cons.IH [OF ms1 live dist taken] obtain w' ms' where
      w': "BroadcastPacket_loop env a (server_bytes p) it w1 = Inr w'" "shows_members (sessions w') ms'"
        "mClientList w' = mClientList w1"
        "\<forall>b. rel_option (offered (flaky env) p (snd ` set it - {a}) b) ((ms(c \<mapsto> m')) b) (ms' b)" by blast
    have c: "c \<notin> snd ` set it" using Cons.prems(3) e by simp
    have "rel_option (offered (flaky env) p (snd ` set (e # it) - {a}) b) (ms b) (ms' b)" for b
    proof (cases "b = c")
      case True
      with w'(4) [rule_format, of c] c m w1(6) False show ?thesis unfolding A
        by (auto simp: offered_def option_rel_Some1)
    next
      case False
      then have "offered (flaky env) p (snd ` set (e # it) - {a}) b = offered (flaky env) p (snd ` set it - {a}) b"
        unfolding A by (auto simp: offered_def fun_eq_iff)
      with w'(4) [rule_format, of b] False show ?thesis by simp
    qed
    with w' w1(1,3) e False show ?thesis by auto
  qed
qed

lemma queue_packet_other: "queue_packet p m \<noteq> m" "queue_packet p m \<noteq> m\<lparr>online := b\<rparr>"
  by (auto dest: arg_cong [of _ _ queued])

lemma clients_of_room:
  assumes "shows_room w r" and "room_ok f r"
  shows "\<forall>e \<in> set (mClientList w). members r (snd e) \<noteq> None" and "distinct (map snd (mClientList w))"
    and "snd ` set (mClientList w) = ran (roll r)"
proof -
  from assms(1) have ok: "map_ok (mClientList w)" and roll: "map_of (mClientList w) = roll r"
    by (simp_all add: shows_room_def)
  have eq: "(k, v) \<in> set (mClientList w) \<longleftrightarrow> roll r k = Some v" for k v
    using map_ok_map_of [OF ok, of k v] roll by simp
  have live: "\<exists>m. members r (snd e) = Some m \<and> member_socket m = fst e" if "e \<in> set (mClientList w)" for e
  proof -
    from that eq [of "fst e" "snd e"] have "roll r (fst e) = Some (snd e)" by simp
    from room_ok_roll [OF assms(2) this] obtain m where "members r (snd e) = Some m" "member_socket m = fst e" .
    then show ?thesis by blast
  qed
  then show "\<forall>e \<in> set (mClientList w). members r (snd e) \<noteq> None" by fastforce
  have "inj_on snd (set (mClientList w))"
  proof (rule inj_onI)
    fix e e' assume "e \<in> set (mClientList w)" "e' \<in> set (mClientList w)" "snd e = snd e'"
    then show "e = e'" using live [of e] live [of e'] by (metis option.inject prod.collapse)
  qed
  moreover from ok have "distinct (mClientList w)" by (simp add: map_ok_def distinct_map)
  ultimately show "distinct (map snd (mClientList w))" by (simp add: distinct_map)
  show "snd ` set (mClientList w) = ran (roll r)" using eq by (force simp: ran_def image_iff)
qed

lemma room_ok_taken: "room_ok f r \<Longrightarrow> members r a = Some m \<Longrightarrow> taken m \<le> length (stream (queued m))"
  using room_ok_member [of f r a m] by (simp add: member_ok_def)

text \<open>When the speaker has queued its own packet, \<open>BroadcastPacket\<close> makes the others hear it.\<close>

lemma offered_hears:
  assumes "members r a = Some m" and "A = ran (roll r)"
    and "rel_option (offered f p (A - {a}) b) (((members r)(a \<mapsto> queue_packet p m)) b) x"
  shows "rel_option (hears f r a p b) (members r b) x"
proof (cases "b = a")
  case True
  with assms show ?thesis by (auto simp: offered_def hears_def option_rel_Some1)
next
  case False
  then have "offered f p (A - {a}) b = hears f r a p b" using assms(2) by (auto simp: offered_def hears_def fun_eq_iff)
  with assms(3) False show ?thesis by simp
qed

lemma BroadcastPacket_heard:
  assumes r: "shows_room w r" "room_ok (flaky env) r" and m: "members r a = Some m" "online m" and p: "speaks m p"
    and w1: "shows_room w1 (put_member a (queue_packet p m) r)" "mClientList w1 = mClientList w"
  shows "\<exists>w2 r'. BroadcastPacket env a (server_bytes p) w1 = Inr w2 \<and> room_step (flaky env) r (Spoke a p) r' \<and> shows_room w2 r'"
proof -
  let ?ms = "(members r)(a \<mapsto> queue_packet p m)"
  note clients = clients_of_room [OF r]
  have ms1: "shows_members (sessions w1) ?ms" using w1(1) by (simp add: shows_room_def put_member_def)
  have live: "\<forall>e \<in> set (mClientList w1). ?ms (snd e) \<noteq> None" and dist: "distinct (map snd (mClientList w1))"
    using clients(1,2) w1(2) by simp_all
  have tk: "\<forall>b n. ?ms b = Some n \<longrightarrow> taken n \<le> length (stream (queued n))"
    using room_ok_taken [OF r(2)] m(1) by (simp add: trans_le_add1)
  have pkt: "room_packet p" using speaks_packet [OF p] by simp
  from BroadcastPacket_loop_offers [OF ms1 live dist tk pkt, of env a] obtain w2 ms' where
    w2: "BroadcastPacket env a (server_bytes p) w1 = Inr w2" "shows_members (sessions w2) ms'" "mClientList w2 = mClientList w1"
      "\<forall>b. rel_option (offered (flaky env) p (snd ` set (mClientList w1) - {a}) b) (?ms b) (ms' b)"
    unfolding BroadcastPacket_def by blast
  have "snd ` set (mClientList w1) = ran (roll r)" using clients(3) w1(2) by simp
  from offered_hears [OF m(1) this] w2(4)
  have "room_step (flaky env) r (Spoke a p) (r\<lparr>members := ms', broadcasts := broadcasts r @ [p]\<rparr>)"
    using m p by (blast intro: room_step.spoke)
  moreover have "shows_room w2 (r\<lparr>members := ms', broadcasts := broadcasts r @ [p]\<rparr>)"
    using w2(2,3) w1(2) r(1) by (simp add: shows_room_def)
  ultimately show ?thesis using w2(1) by blast
qed

text \<open>\<open>Broadcast\<close> always returns; when it is true the member has spoken, and otherwise it is only offered its own packet.\<close>

lemma Broadcast_speaks:
  assumes r: "shows_room w r" "room_ok (flaky env) r" and m: "members r a = Some m" and p: "speaks m p"
  shows "\<exists>b w'. Broadcast env a (server_bytes p) w = Inr (b, w') \<and>
    (if b then online m \<and> (\<exists>r'. room_step (flaky env) r (Spoke a p) r' \<and> shows_room w' r')
     else (\<not> online m \<or> crowded p m) \<and> (shows_room w' r \<or> shows_room w' (put_member a (m\<lparr>online := False\<rparr>) r)))"
proof -
  note pkt = speaks_packet [OF p]
  from shows_room_member [OF r(1) m] obtain s where s: "sessions w a = Some s" "shows_member s m" by blast
  have taken: "taken n \<le> length (stream (queued n))" if "members r b = Some n" for b n
    using room_ok_taken [OF r(2) that] .
  from s(2) have "shows_outbox s m" by (simp add: shows_member_def)
  from SendRequest_offer [OF s(1) this taken [OF m], of p env] pkt obtain b w1 s' m' where
    w1: "SendRequest env a (server_bytes p) w = Inr (b, w1)" "sessions w1 = (sessions w)(a \<mapsto> s')"
      "mClientList w1 = mClientList w" "s' = s\<lparr>mSendBuffer := mSendBuffer s', mConnected := mConnected s'\<rparr>"
      "shows_outbox s' m'" "offer (flaky env) p m m'"
      "if b then online m \<and> m' = queue_packet p m else m' = m \<or> m' = m\<lparr>online := False\<rparr>" by blast
  note sm = shows_member_offered [OF s(2) w1(4-6)]
  note r1 = shows_put_member [OF r(1) sm w1(2,3)]
  have same: "put_member a m r = r" using m by (simp add: put_member_def fun_upd_idem)
  show ?thesis
  proof (cases b)
    case False
    then have "Broadcast env a (server_bytes p) w = Inr (False, w1)" using w1(1) by (simp add: Broadcast_def)
    moreover have "\<not> online m \<or> crowded p m"
      using w1(6,7) False queue_packet_other [of p m] queue_packet_other [of p m, THEN not_sym] by (auto simp: offer_def split: if_splits)
    moreover have "shows_room w1 r \<or> shows_room w1 (put_member a (m\<lparr>online := False\<rparr>) r)"
      using r1 w1(7) False same by auto
    ultimately show ?thesis by (intro exI [of _ False] exI [of _ w1]) simp
  next
    case True
    with w1(7) have on: "online m" "m' = queue_packet p m" by simp_all
    with w1(5) have con: "mConnected s'" by (simp add: shows_outbox_def)
    from BroadcastPacket_heard [OF r m on(1) p _ w1(3)] r1 on(2) obtain w2 r' where
      w2: "BroadcastPacket env a (server_bytes p) w1 = Inr w2" "room_step (flaky env) r (Spoke a p) r'" "shows_room w2 r'" by auto
    have "Broadcast env a (server_bytes p) w = Inr (True, w2)"
      using w1(1,2) w2(1) True con by (simp add: Broadcast_def IsConnected_def get_session_def)
    with w2(2,3) on(1) show ?thesis by (intro exI [of _ True] exI [of _ w2]) (simp, blast)
  qed
qed

end
