(* ===== verification/Room_Requests.thy ===== *)
theory Room_Requests
  imports Room_Sessions
begin

text \<open>
  Requests as events of the room: which events a request stands for, that its handler plays them
  exactly when the results find room, and that the receive and send completions play some events
  whatever the bytes are.
\<close>

section \<open>Requests\<close>

text \<open>A string in an array of zeroed bytes.\<close>

definition zero_padded :: "nat \<Rightarrow> byte list \<Rightarrow> byte list" where
  "zero_padded n s = c_string s @ replicate (n - length (c_string s)) 0"

definition chat_speech :: "member \<Rightarrow> byte list \<Rightarrow> server_packet" where
  "chat_speech m msg = ChatPacketResult (ChatBroadcastResult_init
     \<lparr>cs_mPlayerId := member_id m, cs_mName := zero_padded MAX_NAME_LEN (member_name m),
      cs_mChat := zero_padded MAX_CHAT_LEN msg\<rparr>)"

definition move_speech :: "member \<Rightarrow> float32 \<Rightarrow> float32 \<Rightarrow> server_packet" where
  "move_speech m x y = MovePacketResult (MoveBroadcastResult_init
     \<lparr>ms_mPlayerId := member_id m, ms_mPosX := x, ms_mPosY := y\<rparr>)"

text \<open>What a request of the member \<open>m\<close> makes happen in the room, when its speech finds room.\<close>

fun request_events :: "nat \<Rightarrow> member \<Rightarrow> client_packet \<Rightarrow> room_event list" where
  "request_events a m (LoginPacket p) = []"
| "request_events a m (ChatPacket p) =
     (if cr_mPlayerId p = member_id m then [Spoke a (chat_speech m (cr_mChat p))] else [])"
| "request_events a m (MovePacket p) =
     (if mr_mPlayerId p = member_id m
      then [Placed a (mr_mPosX p) (mr_mPosY p), Spoke a (move_speech m (mr_mPosX p) (mr_mPosY p))] else [])"

fun speeches :: "room_event list \<Rightarrow> server_packet list" where
  "speeches [] = []"
| "speeches (Spoke a p # es) = p # speeches es"
| "speeches (_ # es) = speeches es"

lemma speeches_append [simp]: "speeches (es @ fs) = speeches es @ speeches fs"
  by (induction es rule: speeches.induct) simp_all

lemma c_string_strnlen: "strnlen s = Some k \<Longrightarrow> take (Suc k) s = c_string s @ [0] \<and> length (c_string s) = k"
  unfolding c_string_def by (induction s arbitrary: k) (auto split: if_splits)

lemma c_string_zeros [simp]: "c_string (replicate n 0) = []"
  by (cases n) (simp_all add: c_string_def)

lemma c_string_idem [simp]: "c_string (c_string s) = c_string s"
  by (simp add: c_string_def takeWhile_idem)

lemma c_string_padded [simp]: "c_string (zero_padded n s) = c_string s"
proof -
  have "takeWhile (\<lambda>b. b \<noteq> 0) (xs @ replicate k 0) = xs" if "0 \<notin> set xs" for xs :: "byte list" and k
    using that by (subst takeWhile_append2) (auto intro: takeWhile_eq_Nil_iff [THEN iffD2] simp: hd_replicate split: nat.split)
  moreover have "0 \<notin> set (c_string s)" by (auto simp: c_string_def dest: set_takeWhileD)
  ultimately show ?thesis unfolding zero_padded_def by (simp add: c_string_def)
qed

lemma strcpy_s_zeros:
  assumes "strcpy_s (replicate n 0) src = Inr r"
  shows "r = zero_padded n src \<and> terminated n r"
proof -
  from assms obtain k where k: "strnlen (take n src) = Some k" and r: "r = take (Suc k) src @ drop (Suc k) (replicate n 0)"
    by (auto simp: strcpy_s_def split: option.splits if_splits)
  from strnlen_append [OF k, of "drop n src"] have "strnlen src = Some k" by simp
  from c_string_strnlen [OF this] r have "r = c_string src @ replicate (Suc (n - Suc k)) 0" "length (c_string src) = k"
    by simp_all
  moreover from strnlen_less [OF k] have "k < n" by simp
  ultimately have "r = zero_padded n src" by (simp add: zero_padded_def Suc_diff_Suc)
  with strcpy_s_terminated_array [OF assms] show ?thesis by simp
qed

lemma strcpy_s_zeros_ok:
  assumes "terminated n src"
  shows "strcpy_s (replicate n 0) src = Inr (zero_padded n src)"
proof -
  from assms obtain k where "strnlen src = Some k" "k < n" by (rule terminated_strnlen)
  from strcpy_s_ok [OF this(1), of "replicate n 0"] this(2) strcpy_s_zeros [of n src] show ?thesis by force
qed

lemma chat_speech_eq:
  "member_name m = c_string name \<Longrightarrow> chat_speech m msg = ChatPacketResult (ChatBroadcastResult_init
     \<lparr>cs_mPlayerId := member_id m, cs_mName := zero_padded MAX_NAME_LEN name, cs_mChat := zero_padded MAX_CHAT_LEN msg\<rparr>)"
  by (simp add: chat_speech_def zero_padded_def)

lemma speaks_chat:
  assumes "strcpy_s (replicate MAX_NAME_LEN 0) name = Inr n" and "strcpy_s (replicate MAX_CHAT_LEN 0) msg = Inr t"
    and "member_name m = c_string name"
  shows "speaks m (chat_speech m msg)" and "chat_speech m msg = ChatPacketResult
     (ChatBroadcastResult_init\<lparr>cs_mPlayerId := member_id m, cs_mName := n, cs_mChat := t\<rparr>)"
  using strcpy_s_zeros [OF assms(1)] strcpy_s_zeros [OF assms(2)] chat_speech_eq [OF assms(3), of msg] assms(3)
  by (auto simp: ChatBroadcastResult_init_def)

lemma speaks_move: "speaks (m\<lparr>member_x := x, member_y := y\<rparr>) (move_speech m x y)"
  by (simp add: move_speech_def MoveBroadcastResult_init_def)

section \<open>A broadcast and what follows\<close>

abbreviation broadcast_or_drop :: "environment \<Rightarrow> nat \<Rightarrow> byte list \<Rightarrow> world \<Rightarrow> world res" where
  "broadcast_or_drop env a pkt w \<equiv>
     rbind (Broadcast env a pkt w) (\<lambda>(ok, w). if \<not> ok then Disconnect env a w else Inr w)"

lemma broadcast_or_drop_exact:
  assumes "shows_room w r" and "room_ok (flaky env) r" and "members r a = Some m" and "speaks m p"
    and "online m" and "\<not> crowded p m"
  shows "\<exists>w' r'. broadcast_or_drop env a (server_bytes p) w = Inr w' \<and> room_step (flaky env) r (Spoke a p) r' \<and> shows_room w' r'"
proof -
  from Broadcast_speaks [OF assms(1-4)] obtain b w' where w': "Broadcast env a (server_bytes p) w = Inr (b, w')"
    "if b then online m \<and> (\<exists>r'. room_step (flaky env) r (Spoke a p) r' \<and> shows_room w' r')
     else (\<not> online m \<or> crowded p m) \<and> (shows_room w' r \<or> shows_room w' (put_member a (m\<lparr>online := False\<rparr>) r))" by blast
  with assms(5,6) have "b = True" by (cases b) simp_all
  with w' show ?thesis by auto
qed

lemma broadcast_or_drop_sims:
  assumes speak: "\<And>r m. shows_room w r \<Longrightarrow> members r a = Some m \<Longrightarrow> speaks m p"
    and w': "broadcast_or_drop env a (server_bytes p) w = Inr w'"
  shows "sims env w w'"
  unfolding plays_some_def
proof (intro allI impI, elim conjE)
  fix r assume good: "room_ok (flaky env) r" and r: "shows_room w r"
  from w' obtain s where s: "sessions w a = Some s" by (auto simp: Broadcast_def SendRequest_def rbind_eq_Inr)
  from shows_room_Some [OF r s] obtain m where m: "members r a = Some m" by blast
  from Broadcast_speaks [OF r good m speak [OF r m]] obtain b w1 where
    w1: "Broadcast env a (server_bytes p) w = Inr (b, w1)"
    and if_b: "if b then online m \<and> (\<exists>r'. room_step (flaky env) r (Spoke a p) r' \<and> shows_room w1 r')
     else (\<not> online m \<or> crowded p m) \<and> (shows_room w1 r \<or> shows_room w1 (put_member a (m\<lparr>online := False\<rparr>) r))" by blast
  show "\<exists>es r'. event_run (room_step (flaky env)) r es r' \<and> shows_room w' r'"
  proof (cases b)
    case True
    with if_b obtain r' where "room_step (flaky env) r (Spoke a p) r'" "shows_room w1 r'" by auto
    moreover from w' w1 True have "w' = w1" by simp
    ultimately show ?thesis by (intro exI [of _ "[Spoke a p]"] exI [of _ r']) simp
  next
    case False
    with if_b have "\<exists>es r1. event_run (room_step (flaky env)) r es r1 \<and> shows_room w1 r1"
      using event_run.halt [of "room_step (flaky env)" r] room_step.dropped [OF m, of "flaky env"]
      by (metis event_run_simps(1,2))
    then obtain es r1 where r1: "event_run (room_step (flaky env)) r es r1" "shows_room w1 r1" by blast
    from w' w1 False have "Disconnect env a w1 = Inr w'" by simp
    from room.plays_some_run [OF Disconnect_sims [OF this] r1(1) good r1(2)] show ?thesis by blast
  qed
qed

section \<open>The effect of a request\<close>

lemma SetPosition_placed:
  assumes "SetPosition a x y w = Inr w'"
  shows "sim env w [Placed a x y] w'"
proof -
  from assms obtain s where s: "sessions w a = Some s" "w' = set_session a (s\<lparr>mPosX := x, mPosY := y\<rparr>) w"
    by (auto simp: SetPosition_def modify_session_def rbind_eq_Inr)
  have shows_placed: "shows_member (s\<lparr>mPosX := x, mPosY := y\<rparr>) (m\<lparr>member_x := x, member_y := y\<rparr>)"
    if "shows_member s m" for m
    using that by (simp add: shows_member_def shows_outbox_def outbox_def)
  show ?thesis
    by (rule sim_member [OF s(1)]) (use s(2) shows_placed in \<open>auto intro: room_step.placed\<close>)
qed

lemma chat_effect_sims:
  assumes "packet_effect env a (ChatPacket p) w = Inr w'"
  shows "sims env w w'"
proof -
  from assms obtain s where s: "sessions w a = Some s" by (auto simp: rbind_eq_Inr GetPlayerId_def)
  show ?thesis
  proof (cases "cr_mPlayerId p = mPlayerId s")
    case False
    with assms s show ?thesis by (simp add: GetPlayerId_def get_session_def room.plays_some_refl)
  next
    case True
    with assms s obtain n t where
      n: "strcpy_s (replicate MAX_NAME_LEN 0) (mPlayerName s) = Inr n"
      and t: "strcpy_s (replicate MAX_CHAT_LEN 0) (cr_mChat p) = Inr t"
      and w': "broadcast_or_drop env a (ChatBroadcastResult_bytes
           (ChatBroadcastResult_init\<lparr>cs_mPlayerId := mPlayerId s, cs_mName := n, cs_mChat := t\<rparr>)) w = Inr w'"
      by (auto simp: rbind_eq_Inr GetPlayerId_def GetPlayerName_def)
    let ?p = "ChatPacketResult (ChatBroadcastResult_init\<lparr>cs_mPlayerId := mPlayerId s, cs_mName := n, cs_mChat := t\<rparr>)"
    have "speaks m ?p" if "shows_room w r" "members r a = Some m" for r m
    proof -
      from shows_room_member [OF that] s have m: "shows_member s m" by auto
      with speaks_chat [OF n t, of m] show ?thesis by (simp add: shows_member_def)
    qed
    from broadcast_or_drop_sims [OF this] w' show ?thesis by simp
  qed
qed

lemma move_effect_sims:
  assumes "packet_effect env a (MovePacket p) w = Inr w'"
  shows "sims env w w'"
proof -
  from assms obtain s where s: "sessions w a = Some s" by (auto simp: rbind_eq_Inr GetPlayerId_def)
  show ?thesis
  proof (cases "mr_mPlayerId p = mPlayerId s")
    case False
    with assms s show ?thesis by (simp add: GetPlayerId_def get_session_def room.plays_some_refl)
  next
    case True
    let ?x = "mr_mPosX p" and ?y = "mr_mPosY p"
    let ?s = "s\<lparr>mPosX := mr_mPosX p, mPosY := mr_mPosY p\<rparr>"
    from True assms s have w': "broadcast_or_drop env a (MoveBroadcastResult_bytes
           (MoveBroadcastResult_init\<lparr>ms_mPlayerId := mPlayerId s, ms_mPosX := ?x, ms_mPosY := ?y\<rparr>)) (set_session a ?s w) = Inr w'"
      and 1: "SetPosition a ?x ?y w = Inr (set_session a ?s w)"
      by (simp_all add: SetPosition_def modify_session_def GetPlayerId_def get_session_def)
    let ?p = "MovePacketResult (MoveBroadcastResult_init\<lparr>ms_mPlayerId := mPlayerId s, ms_mPosX := ?x, ms_mPosY := ?y\<rparr>)"
    have "speaks m ?p" if "shows_room (set_session a ?s w) r" "members r a = Some m" for r m
    proof -
      from shows_room_member [OF that] have "shows_member ?s m" by auto
      then show ?thesis by (simp add: shows_member_def MoveBroadcastResult_init_def)
    qed
    from broadcast_or_drop_sims [OF this] w' have "sims env (set_session a ?s w) w'" by simp
    with room.plays_someI [OF SetPosition_placed [OF 1]] show ?thesis by (rule room.plays_some_trans)
  qed
qed

lemma packet_effect_sims:
  assumes "packet_effect env a q w = Inr w'"
  shows "sims env w w'"
proof (cases q)
  case (LoginPacket p)
  with assms show ?thesis by (auto simp: rbind_eq_Inr intro: unseen_sims PushJob_unseen)
qed (use assms chat_effect_sims move_effect_sims in blast)+

section \<open>Reading\<close>

lemma case_packet: "(case pkt of None \<Rightarrow> Inr w | Some bs \<Rightarrow> f bs) = Inr w' \<longleftrightarrow>
    (pkt = None \<and> w' = w) \<or> (\<exists>bs. pkt = Some bs \<and> f bs = Inr w')"
  by (cases pkt) auto

text \<open>The three handlers are: take the packet out, and what it does.\<close>

lemma chat_effect:
  "rbind (GetPlayerId a w) (\<lambda>pid. if cr_mPlayerId q \<noteq> pid then Inr w
     else rbind (GetPlayerName a w) (\<lambda>name.
       rbind (strcpy_s (cs_mName (ChatBroadcastResult_init\<lparr>cs_mPlayerId := cr_mPlayerId q\<rparr>)) name) (\<lambda>outName.
       rbind (strcpy_s (cs_mChat (ChatBroadcastResult_init\<lparr>cs_mPlayerId := cr_mPlayerId q\<rparr>)) (cr_mChat q)) (\<lambda>outChat.
       broadcast_or_drop env a (ChatBroadcastResult_bytes
         (ChatBroadcastResult_init\<lparr>cs_mPlayerId := cr_mPlayerId q, cs_mName := outName, cs_mChat := outChat\<rparr>)) w))))
   = packet_effect env a (ChatPacket q) w"
proof (cases "GetPlayerId a w")
  case (Inr pid)
  then show ?thesis by (cases "cr_mPlayerId q = pid") (simp_all add: ChatBroadcastResult_init_def)
qed simp

lemma move_effect:
  "rbind (GetPlayerId a w) (\<lambda>pid. if mr_mPlayerId q \<noteq> pid then Inr w
     else rbind (SetPosition a (mr_mPosX q) (mr_mPosY q) w) (\<lambda>w.
       broadcast_or_drop env a (MoveBroadcastResult_bytes
         (MoveBroadcastResult_init\<lparr>ms_mPlayerId := mr_mPlayerId q, ms_mPosX := mr_mPosX q, ms_mPosY := mr_mPosY q\<rparr>)) w))
   = packet_effect env a (MovePacket q) w"
proof (cases "GetPlayerId a w")
  case (Inr pid)
  then show ?thesis by (cases "mr_mPlayerId q = pid") simp_all
qed simp

lemma Handler_effect:
  "Handler_PKT_CS_LOGIN env a w = rbind (ParsePacket a (mSize LoginRequest_init) w) (\<lambda>(pkt, w).
     case pkt of None \<Rightarrow> Inr w | Some bs \<Rightarrow> packet_effect env a (LoginPacket (LoginRequest_at bs)) w)"
  "Handler_PKT_CS_CHAT env a w = rbind (ParsePacket a (mSize ChatBroadcastRequest_init) w) (\<lambda>(pkt, w).
     case pkt of None \<Rightarrow> Inr w | Some bs \<Rightarrow> packet_effect env a (ChatPacket (ChatBroadcastRequest_at bs)) w)"
  "Handler_PKT_CS_MOVE env a w = rbind (ParsePacket a (mSize MoveRequest_init) w) (\<lambda>(pkt, w).
     case pkt of None \<Rightarrow> Inr w | Some bs \<Rightarrow> packet_effect env a (MovePacket (MoveRequest_at bs)) w)"
proof -
  show "Handler_PKT_CS_LOGIN env a w = rbind (ParsePacket a (mSize LoginRequest_init) w) (\<lambda>(pkt, w).
     case pkt of None \<Rightarrow> Inr w | Some bs \<Rightarrow> packet_effect env a (LoginPacket (LoginRequest_at bs)) w)"
    unfolding Handler_PKT_CS_LOGIN_def packet_effect.simps Let_def ..
  show "Handler_PKT_CS_CHAT env a w = rbind (ParsePacket a (mSize ChatBroadcastRequest_init) w) (\<lambda>(pkt, w).
     case pkt of None \<Rightarrow> Inr w | Some bs \<Rightarrow> packet_effect env a (ChatPacket (ChatBroadcastRequest_at bs)) w)"
    unfolding Handler_PKT_CS_CHAT_def Let_def chat_effect ..
  show "Handler_PKT_CS_MOVE env a w = rbind (ParsePacket a (mSize MoveRequest_init) w) (\<lambda>(pkt, w).
     case pkt of None \<Rightarrow> Inr w | Some bs \<Rightarrow> packet_effect env a (MovePacket (MoveRequest_at bs)) w)"
    unfolding Handler_PKT_CS_MOVE_def Let_def move_effect ..
qed

lemma call_handler_sims:
  assumes "call_handler env h a w = Inr w'"
  shows "sims env w w'"
proof -
  have parsed: "sims env w w'" if "rbind (ParsePacket a n w) (\<lambda>(pkt, w).
      case pkt of None \<Rightarrow> Inr w | Some bs \<Rightarrow> packet_effect env a (f bs) w) = Inr w'" for n f
  proof -
    from that obtain pkt w1 where p: "ParsePacket a n w = Inr (pkt, w1)"
      "(case pkt of None \<Rightarrow> Inr w1 | Some bs \<Rightarrow> packet_effect env a (f bs) w1) = Inr w'" by (auto simp: rbind_eq_Inr)
    note 1 = unseen_sims [OF ParsePacket_unseen [OF p(1)]]
    from p(2) packet_effect_sims have "sims env w1 w'"
      by (cases pkt) (auto intro: room.plays_some_refl)
    with 1 show ?thesis by (rule room.plays_some_trans)
  qed
  from assms show ?thesis
    by (cases h) (auto simp: Handler_effect DefaultHandler_def intro: parsed Disconnect_sims)
qed

lemma OnRead_turn_sims:
  assumes "OnRead_turn env a w = Inr (b, w')"
  shows "sims env w w'"
  using assms
  by (auto simp: OnRead_turn_def rbind_eq_Inr Let_def split: option.splits if_splits
      intro: room.plays_some_refl Disconnect_sims call_handler_sims)

lemma OnRead_loop_sims:
  assumes "OnRead_loop env a w = Some (Inr w')"
  shows "sims env w w'"
proof -
  have "\<forall>w'. r = Inr w' \<longrightarrow> sims env w w'" if "OnRead_loop env a w = Some r" for r
    using that
  proof (rule OnRead_loop.raw_induct [where P = "\<lambda>env a w r. \<forall>w'. r = Inr w' \<longrightarrow> sims env w w'", rotated])
    fix loop env a w r
    assume IH: "\<And>env a w r. loop env a w = Some r \<Longrightarrow> \<forall>w'. r = Inr w' \<longrightarrow> sims env w w'"
      and r: "(case OnRead_turn env a w of Inl e \<Rightarrow> Some (Inl e)
        | Inr (goes_on, w') \<Rightarrow> if goes_on then loop env a w' else Some (Inr w')) = Some r"
    show "\<forall>w'. r = Inr w' \<longrightarrow> sims env w w'"
    proof (cases "OnRead_turn env a w")
      case (Inl e)
      with r show ?thesis by auto
    next
      case (Inr x)
      obtain b w1 where x: "x = (b, w1)" by (cases x)
      with Inr have 1: "sims env w w1" by (simp add: OnRead_turn_sims)
      with r Inr x IH [of env a w1 r] show ?thesis by (cases b) (auto intro: room.plays_some_trans)
    qed
  qed
  with assms show ?thesis by simp
qed

lemma disconnect_unless_sims:
  assumes "rbind (op w) (\<lambda>(ok, w). if \<not> ok then Disconnect env a w else Inr w) = Inr w'"
    and "\<And>b w'. op w = Inr (b, w') \<Longrightarrow> unseen w w'"
  shows "sims env w w'"
proof -
  from assms(1) obtain b w1 where w1: "op w = Inr (b, w1)" "(if \<not> b then Disconnect env a w1 else Inr w1) = Inr w'"
    by (auto simp: rbind_eq_Inr)
  note 1 = unseen_sims [OF assms(2) [OF w1(1)]]
  from w1(2) have "sims env w1 w'"
    by (cases b) (auto intro: Disconnect_sims room.plays_some_refl)
  with 1 show ?thesis by (rule room.plays_some_trans)
qed

lemma complete_recv_sims:
  assumes "complete_recv env op err bs w = Some (Inr w')"
  shows "sims env w w'"
proof -
  from assms obtain w1 c w2 where
    w1: "KernelReceive op bs (w\<lparr>pending_recv := remove1 op (pending_recv w)\<rparr>) = Inr w1"
    and w2: "DecRefCount c w1 = Inr w2"
    and w': "w' = w2 \<or> Disconnect env c w2 = Inr w' \<or> (\<exists>w3. OnRead env c (length bs) w2 = Some (Inr w3) \<and>
      rbind (PostRecv env c w3) (\<lambda>(ok, w). if \<not> ok then Disconnect env c w else Inr w) = Inr w')"
    unfolding complete_recv_def RecvCompletion_def then_do_eq_Inr
    by (auto simp: then_do_eq_Inr split: if_splits)
  have "unseen w (w\<lparr>pending_recv := remove1 op (pending_recv w)\<rparr>)" by (rule unseen_sessions) simp_all
  from unseen_trans [OF unseen_trans [OF this KernelReceive_unseen [OF w1]] RefCount_unseen(2) [OF w2]]
  have 2: "sims env w w2" by (rule unseen_sims)
  have read: "sims env w2 w3" if "OnRead env c (length bs) w2 = Some (Inr w3)" for w3
  proof -
    from that obtain w0 where "modify_session c (\<lambda>s. s\<lparr>mRecvBuffer := Commit (mRecvBuffer s) (length bs)\<rparr>) w2 = Inr w0"
      "OnRead_loop env c w0 = Some (Inr w3)" by (auto simp: OnRead_def then_do_eq_Inr)
    from unseen_sims [OF modify_session_unseen [OF this(1) view_fields(2)]] OnRead_loop_sims [OF this(2)]
    show ?thesis by (rule room.plays_some_trans)
  qed
  have "sims env w2 w'" using w'
  proof (elim disjE exE conjE)
    fix w3 assume w3: "OnRead env c (length bs) w2 = Some (Inr w3)"
      "rbind (PostRecv env c w3) (\<lambda>(ok, w). if \<not> ok then Disconnect env c w else Inr w) = Inr w'"
    from disconnect_unless_sims [where op = "PostRecv env c", OF w3(2) PostRecv_unseen] read [OF w3(1)] show ?thesis by (rule room.plays_some_trans [rotated])
  qed (simp_all add: room.plays_some_refl Disconnect_sims)
  with 2 show ?thesis by (rule room.plays_some_trans)
qed

lemma OnWriteComplete_sims:
  assumes "OnWriteComplete a n w = Inr w'" and "sessions w a = Some s" and "mConnected s"
  shows "sims env w w'"
proof -
  from assms(1,2) obtain sb where sb: "Remove (mSendBuffer s) n = Inr sb" "w' = set_session a (s\<lparr>mSendBuffer := sb\<rparr>) w"
    by (auto simp: OnWriteComplete_def get_session_def rbind_eq_Inr)
  let ?n = "min n (length (contents (mSendBuffer s)))"
  have "sim env w [Sent a ?n] w'"
  proof (rule sim_member [OF assms(2)])
    fix r :: game_room and m assume m: "members r a = Some m" "shows_member s m"
    then have out: "cb_ok (mSendBuffer s)" "balanced (mSendBuffer s)" "contents (mSendBuffer s) = outbox m" "online m"
      using assms(3) by (simp_all add: shows_member_def shows_outbox_def)
    from Remove_contents [OF out(1), of n] sb(1) have "cb_ok sb" "contents sb = drop n (outbox m)"
      "length (mBuffer sb) = length (mBuffer (mSendBuffer s))" using out(3) by auto
    with balanced_Remove [OF out(1,2) sb(1)] m(2) have "shows_member (s\<lparr>mSendBuffer := sb\<rparr>) (m\<lparr>taken := taken m + ?n\<rparr>)"
      using out(3) by (auto simp: shows_member_def shows_outbox_def outbox_def min_def add.commute)
    moreover have "room_step (flaky env) r (Sent a ?n) (put_member a (m\<lparr>taken := taken m + ?n\<rparr>) r)"
      using m(1) out(3,4) by (intro room_step.sent) simp_all
    ultimately show "\<exists>m'. room_step (flaky env) r (Sent a ?n) (put_member a m' r) \<and> shows_member (s\<lparr>mSendBuffer := sb\<rparr>) m'"
      by blast
  qed (use sb(2) in simp_all)
  then show ?thesis by (rule room.plays_someI)
qed

lemma complete_send_sims:
  assumes "complete_send env op err n w = Inr w'"
  shows "sims env w w'"
proof -
  let ?w = "w\<lparr>pending_send := remove1 op (pending_send w)\<rparr>"
  from assms obtain c w1 s where w1: "DecRefCount c ?w = Inr w1" and s: "sessions w1 c = Some s"
    and w': "w' = w1 \<or> Disconnect env c w1 = Inr w' \<or> (mConnected s \<and> OnWriteComplete c n w1 = Inr w')"
    by (auto simp: complete_send_def SendCompletion_def rbind_eq_Inr IsConnected_def split: if_splits)
  have "unseen w ?w" by (rule unseen_sessions) simp_all
  from unseen_sims [OF unseen_trans [OF this RefCount_unseen(2) [OF w1]]] have 1: "sims env w w1" .
  have "sims env w1 w'"
    using w' Disconnect_sims OnWriteComplete_sims [OF _ s] room.plays_some_refl by metis
  with 1 show ?thesis by (rule room.plays_some_trans)
qed

end
