(* ===== verification/Room_Server.thy ===== *)
theory Room_Server
  imports Room_Requests
begin

text \<open>
  The rest of the server as events of the room: logins from database results, garbage collection,
  new connections, the timer; and every action of the process.
\<close>

section \<open>Logins\<close>

lemma LoginDone_sims:
  assumes "LoginDone env a pid x y name w = Inr w'" and s: "sessions w a = Some s" and con: "mConnected s"
  shows "sims env w w'"
proof -
  let ?junk = "map (fresh_memory env) [0..<8]"
  let ?out = "LoginResult_init (word32_at ?junk 0) (word32_at ?junk 4)\<lparr>ls_mPlayerId := pid, ls_mPosX := x, ls_mPosY := y\<rparr>"
  let ?s1 = "s\<lparr>mPlayerId := pid, mPosX := x, mPosY := y\<rparr>"
  from assms(1) s obtain n t b w2 w3 w4 where
    n: "strcpy_s (mPlayerName s) name = Inr n" and t: "strcpy_s (ls_mName ?out) name = Inr t"
    and w2: "SendRequest env a (LoginResult_bytes (?out\<lparr>ls_mName := t\<rparr>)) (set_session a (?s1\<lparr>mPlayerName := n\<rparr>) w) = Inr (b, w2)"
    and w3: "modify_session a (\<lambda>s. s\<lparr>mLogon := True\<rparr>) w2 = Inr w3"
    and w4: "OnTick a w3 = Inr w4" and w': "OnDbUpdate env a w4 = Inr w'"
    by (auto simp: LoginDone_def rbind_eq_Inr Let_def modify_session_def get_session_def)
  let ?p = "?out\<lparr>ls_mName := t\<rparr>" and ?s2 = "?s1\<lparr>mPlayerName := n\<rparr>"
  let ?w1 = "set_session a ?s2 w"
  have t': "strcpy_s (replicate MAX_NAME_LEN 0) name = Inr t" using t by (simp add: LoginResult_init_def)
  have p: "room_packet (LoginPacketResult ?p)" using strcpy_s_zeros [OF t'] by (auto simp: LoginResult_init_def)
  have name: "c_string n = c_string t" using strcpy_s_c_string [OF n] strcpy_s_c_string [OF t'] by simp
  have "sims env w w3" unfolding plays_some_def
  proof (intro allI impI, elim conjE)
    fix r assume good: "room_ok (flaky env) r" and r: "shows_room w r"
    from shows_room_Some [OF r s] obtain m where m: "members r a = Some m" "shows_member s m" by blast
    then have out: "shows_outbox ?s2 m" "online m" using con by (auto simp: shows_member_def shows_outbox_def)
    from SendRequest_offer [OF _ out(1) room_ok_taken [OF good m(1)] p, of ?w1 a env] obtain b' w2' s3 m' where
      w2': "SendRequest env a (server_bytes (LoginPacketResult ?p)) ?w1 = Inr (b', w2')" "sessions w2' = (sessions ?w1)(a \<mapsto> s3)"
        "mClientList w2' = mClientList ?w1" "s3 = ?s2\<lparr>mSendBuffer := mSendBuffer s3, mConnected := mConnected s3\<rparr>"
        "shows_outbox s3 m'" "offer (flaky env) (LoginPacketResult ?p) m m'" by auto
    have eq: "w2' = w2" using w2 w2'(1) by simp
    let ?m = "m'\<lparr>member_id := ls_mPlayerId ?p, member_name := c_string (ls_mName ?p),
         member_x := ls_mPosX ?p, member_y := ls_mPosY ?p, logged_on := True\<rparr>"
    have w3': "w3 = set_session a (s3\<lparr>mLogon := True\<rparr>) w2"
      using w3 w2'(2) eq by (simp add: modify_session_def get_session_def)
    have "mSocket s3 = mSocket s \<and> mPlayerId s3 = pid \<and> mPlayerName s3 = n \<and> mPosX s3 = x \<and> mPosY s3 = y"
      by (subst w2'(4), simp)+
    then have "shows_member (s3\<lparr>mLogon := True\<rparr>) ?m"
      using w2'(5) m(2) offer_fields(1) [OF w2'(6)] name strcpy_s_terminated_array [OF n]
      by (auto simp: shows_member_def shows_outbox_def outbox_def terminated_def)
    from shows_put_member [OF r this, of w3 a] have "shows_room w3 (put_member a ?m r)"
      using w3' w2'(2,3) eq by simp
    moreover from room_step.logged_on [OF m(1) out(2) p w2'(6)]
    have "event_run (room_step (flaky env)) r [LoggedOn a ?p] (put_member a ?m r)" by simp
    ultimately show "\<exists>es r'. event_run (room_step (flaky env)) r es r' \<and> shows_room w3 r'" by blast
  qed
  with unseen_sims [OF unseen_trans [OF OnTick_unseen [OF w4] OnDbUpdate_unseen [OF w']]]
  show ?thesis by (rule room.plays_some_trans [rotated])
qed

lemma DatabaseJobDone_sims:
  assumes "DatabaseJobDone env a j w = Inr w'" and "sessions w a = Some s" and "mConnected s"
  shows "sims env w w'"
  using assms LoginDone_sims [OF _ assms(2,3)]
  by (auto simp: DatabaseJobDone_def rbind_eq_Inr UpdateDone_def room.plays_some_refl split: job.splits)

lemma dispatch_result_sims:
  assumes "dispatch_result env j w = Inr w'"
  shows "sims env w w'"
proof -
  have "sims env w w'" if "rbind (IsConnected c w) (\<lambda>connected.
      if connected then DatabaseJobDone env c j w else Inr w) = Inr w'" for c
  proof -
    from that obtain s where "sessions w c = Some s"
      "(if mConnected s then DatabaseJobDone env c j w else Inr w) = Inr w'" by (auto simp: IsConnected_def rbind_eq_Inr)
    with DatabaseJobDone_sims show ?thesis by (auto simp: room.plays_some_refl split: if_splits)
  qed
  with assms show ?thesis
    by (auto simp: dispatch_result_def CreatePlayerDone_def DeletePlayerDone_def rbind_eq_Inr room.plays_some_refl
        split: if_splits job.splits option.splits)
qed

lemma manager_unseen: "unseen w (w\<lparr>GDatabaseJobManager := m\<rparr>)"
  by (rule unseen_sessions) simp_all

lemma Dispatch_sims:
  assumes "DispatchDatabaseJobResults env w = Some (Inr w')"
  shows "sims env w w'"
proof -
  have "\<forall>w'. r = Inr w' \<longrightarrow> sims env w w'" if "DispatchDatabaseJobResults env w = Some r" for r
    using that
  proof (rule DispatchDatabaseJobResults.raw_induct [where P = "\<lambda>env w r. \<forall>w'. r = Inr w' \<longrightarrow> sims env w w'", rotated])
    fix loop env w r
    assume IH: "\<And>env w r. loop env w = Some r \<Longrightarrow> \<forall>w'. r = Inr w' \<longrightarrow> sims env w w'"
      and r: "(case PopDatabaseJobResult (LThreadType w) (GDatabaseJobManager w) of
        Inl e \<Rightarrow> Some (Inl e)
      | Inr (dbResult, m) \<Rightarrow>
          (case dbResult of
             None \<Rightarrow> Some (Inr (w\<lparr>GDatabaseJobManager := m\<rparr>))
           | Some dbResult \<Rightarrow>
               (case dispatch_result env dbResult (w\<lparr>GDatabaseJobManager := m\<rparr>) of
                  Inl e \<Rightarrow> Some (Inl e)
                | Inr w \<Rightarrow> loop env w))) = Some r"
    show "\<forall>w'. r = Inr w' \<longrightarrow> sims env w w'"
    proof (cases "PopDatabaseJobResult (LThreadType w) (GDatabaseJobManager w)")
      case (Inl e)
      with r show ?thesis by auto
    next
      case (Inr jm)
      obtain j m where jm: "jm = (j, m)" by (cases jm)
      note 1 = unseen_sims [OF manager_unseen, of env w m]
      show ?thesis
      proof (cases j)
        case None
        with r Inr jm 1 show ?thesis by auto
      next
        case (Some k)
        with r Inr jm have r': "(case dispatch_result env k (w\<lparr>GDatabaseJobManager := m\<rparr>) of
            Inl e \<Rightarrow> Some (Inl e) | Inr w \<Rightarrow> loop env w) = Some r" by simp
        show ?thesis
        proof (cases "dispatch_result env k (w\<lparr>GDatabaseJobManager := m\<rparr>)")
          case (Inl e)
          with r' show ?thesis by auto
        next
          case (Inr w1)
          with r' IH [of env w1 r] room.plays_some_trans [OF 1 dispatch_result_sims [OF Inr]]
          show ?thesis by (auto intro: room.plays_some_trans)
        qed
      qed
    qed
  qed
  with assms show ?thesis by simp
qed

section \<open>Garbage collection\<close>

lemma delete_session_departs:
  assumes "delete_session a w = Inr w'" and s: "sessions w a = Some s" and "\<not> mConnected s"
    and listed: "map_of (mClientList w) (mSocket s) = Some a"
  shows "sim env w [Departed a] w' \<and> sessions w' = (sessions w)(a := None) \<and>
    mClientList w' = map_erase (mSocket s) (mClientList w)"
proof -
  from assms(1) s obtain p where w': "w' = w\<lparr>mClientList := map_erase (mSocket s) (mClientList w), mPool := p,
      sessions := (sessions w)(a := None)\<rparr>"
    by (auto simp: delete_session_def GetSocketKey_def rbind_eq_Inr Let_def)
  have "sim env w [Departed a] w'"
  proof (rule room.plays_step)
    fix r :: game_room assume r: "shows_room w r"
    from shows_room_Some [OF r s] obtain m where m: "members r a = Some m" "shows_member s m" by blast
    then have off: "\<not> online m" "member_socket m = mSocket s" using assms(3) by (simp_all add: shows_member_def shows_outbox_def)
    have "roll r (member_socket m) = Some a" using r listed off(2) by (simp add: shows_room_def)
    note step = room_step.departed [OF m(1) off(1) this, of "flaky env"]
    have "shows_room w' (r\<lparr>members := (members r)(a := None), roll := (roll r)(member_socket m := None)\<rparr>)"
      using r w' off(2) by (auto simp: shows_room_def shows_members_def map_of_erase map_ok_erase)
    with step show "\<exists>r'. room_step (flaky env) r (Departed a) r' \<and> shows_room w' r'" by blast
  qed
  with w' show ?thesis by simp
qed

lemma delete_sessions_sims:
  assumes "delete_sessions cs w = Inr w'" and "distinct cs" and "map_ok (mClientList w)"
    and "\<forall>a \<in> set cs. \<exists>s. sessions w a = Some s \<and> \<not> mConnected s \<and> map_of (mClientList w) (mSocket s) = Some a"
  shows "sims env w w'"
  using assms
proof (induction cs arbitrary: w)
  case Nil
  then show ?case by (simp add: room.plays_some_refl)
next
  case (Cons a cs)
  from Cons.prems(1) obtain w1 where w1: "delete_session a w = Inr w1" "delete_sessions cs w1 = Inr w'"
    by (auto simp: rbind_eq_Inr)
  from Cons.prems(4) obtain s where s: "sessions w a = Some s" "\<not> mConnected s" "map_of (mClientList w) (mSocket s) = Some a"
    by auto
  from delete_session_departs [OF w1(1) s, of env] have 1: "sim env w [Departed a] w1"
    and same: "sessions w1 = (sessions w)(a := None)" "mClientList w1 = map_erase (mSocket s) (mClientList w)" by simp_all
  have "\<exists>t. sessions w1 b = Some t \<and> \<not> mConnected t \<and> map_of (mClientList w1) (mSocket t) = Some b" if b: "b \<in> set cs" for b
  proof -
    from b Cons.prems(2) have "b \<noteq> a" by auto
    from b Cons.prems(4) obtain t where t: "sessions w b = Some t" "\<not> mConnected t" "map_of (mClientList w) (mSocket t) = Some b"
      by auto
    with \<open>b \<noteq> a\<close> s(3) have "mSocket t \<noteq> mSocket s" by auto
    with t \<open>b \<noteq> a\<close> same show ?thesis by (simp add: map_of_erase)
  qed
  with Cons.IH [OF w1(2)] Cons.prems(2,3) same have "sims env w1 w'" by (simp add: map_ok_erase)
  with room.plays_someI [OF 1] show ?case by (rule room.plays_some_trans)
qed

lemma disconnectedSessions_sub:
  assumes "disconnectedSessions it w = Inr cs"
  shows "set cs \<subseteq> snd ` set it \<and> (distinct (map snd it) \<longrightarrow> distinct cs) \<and> (\<forall>a \<in> set cs. \<exists>s. sessions w a = Some s \<and> \<not> mConnected s)"
  using assms
proof (induction it arbitrary: cs)
  case (Cons e it)
  obtain sock c where e: "e = (sock, c)" by (cases e)
  with Cons.prems obtain s rest where s: "sessions w c = Some s" "disconnectedSessions it w = Inr rest"
    "cs = (if \<not> mConnected s \<and> mRefCount s = 0 then c # rest else rest)"
    by (auto simp: rbind_eq_Inr IsConnected_def GetRefCount_def)
  with Cons.IH [of rest] e show ?case by auto
qed simp

lemma CollectGarbage_sims:
  assumes "CollectGarbageSessions w = Inr w'"
  shows "sims env w w'"
  unfolding plays_some_def
proof (intro allI impI, elim conjE)
  fix r assume good: "room_ok (flaky env) r" and r: "shows_room w r"
  from assms obtain cs where cs: "disconnectedSessions (mClientList w) w = Inr cs" "delete_sessions cs w = Inr w'"
    by (auto simp: CollectGarbageSessions_def rbind_eq_Inr)
  note sub = disconnectedSessions_sub [OF cs(1)]
  from r have ok: "map_ok (mClientList w)" "map_of (mClientList w) = roll r" by (simp_all add: shows_room_def)
  have "distinct cs" using sub clients_of_room(2) [OF r good] by blast
  moreover have "\<exists>s. sessions w a = Some s \<and> \<not> mConnected s \<and> map_of (mClientList w) (mSocket s) = Some a" if a: "a \<in> set cs" for a
  proof -
    from sub a obtain s where s: "sessions w a = Some s" "\<not> mConnected s" by blast
    from sub a have "a \<in> ran (roll r)" using clients_of_room(3) [OF r good] by blast
    then obtain sock where sock: "roll r sock = Some a" by (auto simp: ran_def)
    from room_ok_roll [OF good this] obtain m where "members r a = Some m" "member_socket m = sock" .
    with shows_room_Some [OF r s(1)] have "mSocket s = sock" by (auto simp: shows_member_def)
    with s ok(2) sock show ?thesis by simp
  qed
  ultimately have "sims env w w'" using delete_sessions_sims [OF cs(2) _ ok(1)] by blast
  with good r show "\<exists>es r'. event_run (room_step (flaky env)) r es r' \<and> shows_room w' r'"
    unfolding plays_some_def by blast
qed

section \<open>Flushing\<close>

lemma FlushClientSend_loop_sims: "FlushClientSend_loop env it w = Inr w' \<Longrightarrow> sims env w w'"
proof (induction it arbitrary: w)
  case Nil
  then show ?case by (simp add: room.plays_some_refl)
next
  case (Cons e it)
  obtain sock c where e: "e = (sock, c)" by (cases e)
  with Cons.prems obtain b w1 w2 where w1: "SendFlush env c w = Inr (b, w1)"
    and w2: "(if \<not> b then Disconnect env c w1 else Inr w1) = Inr w2" and w': "FlushClientSend_loop env it w2 = Inr w'"
    by (auto simp: rbind_eq_Inr)
  from w2 have "sims env w1 w2" by (cases b) (auto intro: Disconnect_sims room.plays_some_refl)
  from room.plays_some_trans [OF unseen_sims [OF SendFlush_unseen [OF w1]] this] Cons.IH [OF w']
  show ?case by (rule room.plays_some_trans)
qed

section \<open>Connections\<close>

text \<open>A new session, when \<open>OnConnect\<close> has marked it as connected.\<close>

lemma joined_sim:
  assumes fresh: "a \<notin> dom (sessions w)"
    and s: "sessions w' = (sessions w)(a \<mapsto> (ClientSession_new junk sock)\<lparr>mClientAddr := addr, mConnected := True\<rparr>)"
    and l: "mClientList w' = map_insert sock a (mClientList w)"
  shows "sim env w [Joined a sock] w'"
proof (rule room.plays_step)
  fix r :: game_room assume r: "shows_room w r"
  let ?s = "(ClientSession_new junk sock)\<lparr>mClientAddr := addr, mConnected := True\<rparr>"
  let ?r = "r\<lparr>members := (members r)(a \<mapsto> newcomer sock (length (broadcasts r))),
         roll := (if sock \<in> dom (roll r) then roll r else (roll r)(sock \<mapsto> a))\<rparr>"
  have "cb_ok (CircularBuffer junk BUFSIZE)" by (rule CircularBuffer_ok(1)) (simp add: BUFSIZE_def)
  then have "shows_member ?s (newcomer sock (length (broadcasts r)))"
    using balanced_CircularBuffer [of junk BUFSIZE] CircularBuffer_ok(2,3) [of junk BUFSIZE]
    by (simp add: shows_member_def shows_outbox_def ClientSession_new_def newcomer_def outbox_def terminated_def MAX_NAME_LEN_def)
  then have "shows_room w' ?r"
    using r s l shows_members_upd map_of_insert [of "mClientList w" sock a] by (auto simp: shows_room_def)
  moreover have "members r a = None"
    using fresh shows_members_Some(3) [of "sessions w" "members r" a] r by (auto simp: shows_room_def)
  then have "room_step (flaky env) r (Joined a sock) ?r" by (rule room_step.joined)
  ultimately show "\<exists>r'. room_step (flaky env) r (Joined a sock) r' \<and> shows_room w' r'" by blast
qed

lemma HandleAccept_sims:
  assumes "HandleAccept env sock w = Inr w'" and ok: "world_ok env w" and env: "env_ok env"
  shows "sims env w w'"
proof -
  from CreateClient_ok [OF ok env, of sock] obtain a w1 where
    w1: "CreateClient env sock w = Inr (a, w1)" "a \<notin> dom (sessions w)"
      "sessions w1 = (sessions w)(a \<mapsto> ClientSession_new (fresh_memory env) sock)"
      "mClientList w1 = map_insert sock a (mClientList w)" by blast
  let ?addr = "os_getpeername env (calls w1)"
  let ?s = "(ClientSession_new (fresh_memory env) sock)\<lparr>mClientAddr := ?addr, mConnected := True\<rparr>"
  let ?w2 = "set_session a ?s (sys_call w1)"
  have 2: "sim env w [Joined a sock] ?w2"
    by (rule joined_sim [OF w1(2)]) (use w1(3,4) in simp_all)
  have "OnConnect env a ?addr (sys_call w1) = PostRecv env a ?w2"
    using w1(3) by (simp add: OnConnect_def modify_session_def get_session_def)
  with assms(1) w1(1) have "rbind (PostRecv env a ?w2) (\<lambda>(ok, w). if \<not> ok then Disconnect env a w else Inr w) = Inr w'"
    by (simp add: HandleAccept_def Let_def)
  from disconnect_unless_sims [where op = "PostRecv env a", OF this PostRecv_unseen]
  show ?thesis by (rule room.plays_some_trans [OF room.plays_someI [OF 2]])
qed

lemma ClientHandlingThread_turn_sims:
  assumes "ClientHandlingThread_turn env q w = Inr (b, q', w')" and "world_ok env w" and "env_ok env"
  shows "sims env w w'"
  using assms(1) HandleAccept_sims [OF _ assms(2,3)] FlushClientSend_loop_sims
  by (auto simp: ClientHandlingThread_turn_def FlushClientSend_def rbind_eq_Inr split: option.splits)

section \<open>The timer\<close>

lemma run_task_sims: "run_task env t w = Inr w' \<Longrightarrow> sims env w w'"
  by (cases t) (auto intro: unseen_sims OnTick_unseen OnDbUpdate_unseen)

lemma queue_unseen: "unseen w (w\<lparr>mTaskQueue := q\<rparr>)" "unseen w (w\<lparr>mCurrentTick := t\<rparr>)" "unseen w (w\<lparr>mLastGCTick := t\<rparr>)"
  "unseen w (sys_call w)"
  by (rule unseen_sessions; simp)+

lemma DoTasks_loop_sims:
  assumes "DoTasks_loop (run_task env) DecRefCount w = Some (Inr w')"
  shows "sims env w w'"
proof -
  have "run_task env = run_task env \<and> DecRefCount = DecRefCount \<longrightarrow> (\<forall>w'. r = Inr w' \<longrightarrow> sims env w w')"
    if "DoTasks_loop (run_task env) DecRefCount w = Some r" for r
    using that
  proof (rule DoTasks_loop.raw_induct [where P = "\<lambda>run dec w r. run = run_task env \<and> dec = DecRefCount \<longrightarrow>
      (\<forall>w'. r = Inr w' \<longrightarrow> sims env w w')", rotated], intro impI allI, elim conjE)
    fix loop run dec and w w' :: world and r
    assume IH: "\<And>run dec w r. loop run dec w = Some r \<Longrightarrow>
        run = run_task env \<and> dec = DecRefCount \<longrightarrow> (\<forall>w'. r = Inr w' \<longrightarrow> sims env w w')"
      and r: "(if mTaskQueue w = [] then Some (Inr w)
        else let timerJobElem = hd (mTaskQueue w)
          in if uint (mCurrentTick w) < mExecutionTick timerJobElem then Some (Inr w)
             else case rbind (run (mTask timerJobElem) w) (dec (mOwner timerJobElem)) of
                 Inl e \<Rightarrow> Some (Inl e)
               | Inr s' \<Rightarrow> if mTaskQueue s' = [] then Some (Inl OutOfBounds)
                   else loop run dec (s'\<lparr>mTaskQueue := tl (mTaskQueue s')\<rparr>)) = Some r"
      and w: "run = run_task env" "dec = DecRefCount" and w': "r = Inr w'"
    show "sims env w w'"
    proof (cases "mTaskQueue w = [] \<or> uint (mCurrentTick w) < mExecutionTick (hd (mTaskQueue w))")
      case True
      with r w' have "w' = w" by (auto simp: Let_def split: if_splits)
      then show ?thesis by (simp add: room.plays_some_refl)
    next
      case False
      let ?j = "hd (mTaskQueue w)"
      from False r w w' obtain w1 where w1: "rbind (run_task env (mTask ?j) w) (DecRefCount (mOwner ?j)) = Inr w1"
        "loop run dec (w1\<lparr>mTaskQueue := tl (mTaskQueue w1)\<rparr>) = Some (Inr w')"
        by (auto simp: Let_def split: sum.splits if_splits)
      from w1(1) obtain w0 where w0: "run_task env (mTask ?j) w = Inr w0" "DecRefCount (mOwner ?j) w0 = Inr w1"
        by (auto simp: rbind_eq_Inr)
      from unseen_trans [OF RefCount_unseen(2) [OF w0(2)] queue_unseen(1)]
      have "sims env w0 (w1\<lparr>mTaskQueue := tl (mTaskQueue w1)\<rparr>)" by (rule unseen_sims)
      moreover from IH [OF w1(2)] w have "sims env (w1\<lparr>mTaskQueue := tl (mTaskQueue w1)\<rparr>) w'" by simp
      ultimately show ?thesis
        using run_task_sims [OF w0(1)] by (blast intro: room.plays_some_trans)
    qed
  qed
  with assms show ?thesis by simp
qed

lemma OnPeriodWork_sims:
  assumes "OnPeriodWork env w = Some (Inr w')"
  shows "sims env w w'"
proof -
  let ?t = "os_GetTickCount env (calls w)"
  from assms obtain w1 where w1: "(if ?t - mLastGCTick (sys_call w) \<ge> 1000
      then rbind (CollectGarbageSessions (sys_call w)) (\<lambda>w. Inr (w\<lparr>mLastGCTick := ?t\<rparr>))
      else Inr (sys_call w)) = Inr w1" and w': "DispatchDatabaseJobResults env w1 = Some (Inr w')"
    by (auto simp: OnPeriodWork_def Let_def then_do_eq_Inr)
  have "sims env (sys_call w) w1"
    using w1 CollectGarbage_sims [of "sys_call w" _ env] unseen_sims [OF queue_unseen(3)]
    by (auto simp: rbind_eq_Inr intro: room.plays_some_trans room.plays_some_refl split: if_splits)
  with unseen_sims [OF queue_unseen(4)] Dispatch_sims [OF w'] show ?thesis
    by (blast intro: room.plays_some_trans)
qed

lemma TimerProc_sims:
  assumes "TimerProc env w = Some (Inr w')"
  shows "sims env w w'"
proof -
  let ?w = "(sys_call w)\<lparr>mCurrentTick := os_GetTickCount env (calls w)\<rparr>"
  from assms obtain w1 where w1: "DoTasks_loop (run_task env) DecRefCount ?w = Some (Inr w1)"
    "OnPeriodWork env w1 = Some (Inr w')"
    by (auto simp: TimerProc_def DoTasks_def then_do_eq_Inr)
  have "sims env w ?w" by (rule unseen_sims [OF unseen_trans [OF queue_unseen(4,2)]])
  with DoTasks_loop_sims [OF w1(1)] OnPeriodWork_sims [OF w1(2)] show ?thesis
    by (blast intro: room.plays_some_trans)
qed

section \<open>The server\<close>

lemma server_act_sims:
  assumes "server_act env api act s = Some (Inr s')" and ok: "server_ok env s" and env: "env_ok env"
  shows "sims env (client s) (client s')"
proof (cases act)
  case (Accepted sock)
  with assms(1) show ?thesis by (auto simp: rbind_eq_Inr room.plays_some_refl)
next
  case ClientTurn
  with assms(1) ok ClientHandlingThread_turn_sims [OF _ _ env] show ?thesis
    by (auto simp: rbind_eq_Inr server_ok_def)
next
  case TimerApc
  with assms(1) TimerProc_sims show ?thesis by (auto simp: after_apc_def then_do_eq_Inr)
next
  case (RecvApc op err bs)
  with assms(1) complete_recv_sims show ?thesis by (auto simp: after_apc_def then_do_eq_Inr)
next
  case (SendApc op err n)
  with assms(1) complete_send_sims show ?thesis by (auto simp: after_apc_def then_do_eq_Inr)
next
  case DatabaseTurn
  with assms(1) manager_unseen show ?thesis by (auto simp: rbind_eq_Inr intro: unseen_sims)
qed

lemma shows_empty_room: "shows_room (world_init env zero) empty_room"
  by (simp add: shows_room_def shows_members_def world_init_def empty_room_def map_ok_def)

lemma server_run:
  assumes "server_reachable env api zero db s" and "env_ok env" and "sqlite_ok api"
  shows "\<exists>es r. event_run (room_step (flaky env)) empty_room es r \<and> room_ok (flaky env) r \<and> shows_room (client s) r"
  using assms(1)
proof induction
  case start
  have "event_run (room_step (flaky env)) empty_room [] empty_room" by simp
  with shows_empty_room [of env zero] room_ok_empty [of "flaky env"] show ?case
    by (fastforce simp: server_init_def)
next
  case (step s s')
  from step.IH obtain es r where r: "event_run (room_step (flaky env)) empty_room es r" "shows_room (client s) r" by blast
  from step.hyps(2) obtain act where "server_act env api act s = Some (Inr s')" by (rule server_stepE)
  from server_act_sims [OF this server_reachable_ok [OF step.hyps(1) assms(2,3)] assms(2)]
  have "sims env (client s) (client s')" .
  from room.plays_some_run [OF this r(1) room_ok_empty r(2)] obtain fs r' where
    "event_run (room_step (flaky env)) empty_room (es @ fs) r'" "shows_room (client s') r'" by blast
  with room.run_good room_ok_empty show ?case by blast
qed

end
