(* ===== verification/Room_Properties.thy ===== *)
theory Room_Properties
  imports Room_Server
begin

text \<open>
  The refinement of the room by the server, and what it gives the players: requests do exactly what
  they ask for, there is one order of broadcasts, nobody speaks under a player id that a login has not
  given to it.
\<close>

section \<open>Requests, exactly\<close>

text \<open>The requests that are a speech: a move, or a chat whose text ends.\<close>

fun speech_request :: "client_packet \<Rightarrow> bool" where
  "speech_request (LoginPacket p) = False"
| "speech_request (ChatPacket p) = (packet_ok (ChatPacket p) \<and> 0 \<in> set (cr_mChat p))"
| "speech_request (MovePacket p) = packet_ok (MovePacket p)"

lemma hears_self:
  assumes "room_step f r (Spoke a p) r'" and "members r a = Some m"
  shows "members r' a = Some (queue_packet p m)"
  using assms(1)
proof (cases rule: room_step.cases)
  case (spoke n ms)
  then have "rel_option (hears f r a p a) (members r a) (ms a)" by blast
  with assms(2) have "ms a = Some (queue_packet p m)" by (cases "ms a") (auto simp: hears_def)
  with spoke show ?thesis by simp
qed

lemma speech_exact:
  assumes r: "shows_room w r" "room_ok (flaky env) r" and m: "members r a = Some m" "online m" and p: "speaks m p"
    and fits: "length (outbox m) + length (server_bytes p) \<le> HALF_BUFSIZE"
  shows "\<exists>w' r'. broadcast_or_drop env a (server_bytes p) w = Inr w' \<and> room_step (flaky env) r (Spoke a p) r' \<and>
    shows_room w' r' \<and> members r' a = Some (queue_packet p m) \<and> outbox (queue_packet p m) = outbox m @ server_bytes p"
proof -
  from fits have "\<not> crowded p m" by (simp add: crowded_def)
  from broadcast_or_drop_exact [OF r m(1) p m(2) this] obtain w' r' where
    "broadcast_or_drop env a (server_bytes p) w = Inr w'" "room_step (flaky env) r (Spoke a p) r'" "shows_room w' r'" by blast
  with hears_self [OF this(2) m(1)] room_ok_taken [OF r(2) m(1)] show ?thesis by auto
qed

text \<open>A request that is played with these events, exactly.\<close>

definition plays_exactly :: "environment \<Rightarrow> nat \<Rightarrow> client_packet \<Rightarrow> room_event list \<Rightarrow> world \<Rightarrow> game_room \<Rightarrow> member \<Rightarrow> bool" where
  "plays_exactly env a q es w r m \<longleftrightarrow>
     (\<exists>w' r' m'. packet_effect env a q w = Inr w' \<and> event_run (room_step (flaky env)) r es r' \<and> shows_room w' r' \<and>
        members r' a = Some m' \<and> member_id m' = member_id m \<and> member_name m' = member_name m \<and> online m' \<and>
        outbox m' = outbox m @ stream (speeches es))"

lemma plays_nothing:
  assumes "packet_effect env a q w = Inr w" and "shows_room w r" and "members r a = Some m" and "online m"
  shows "plays_exactly env a q [] w r m"
  unfolding plays_exactly_def by (rule exI [of _ w], rule exI [of _ r], rule exI [of _ m]) (simp add: assms)

lemma chat_effect_exact:
  assumes r: "shows_room w r" "room_ok (flaky env) r" and m: "members r a = Some m" "online m"
    and q: "speech_request (ChatPacket p)" "cr_mPlayerId p = member_id m"
    and fits: "length (outbox m) + length (server_bytes (chat_speech m (cr_mChat p))) \<le> HALF_BUFSIZE"
  shows "plays_exactly env a (ChatPacket p) [Spoke a (chat_speech m (cr_mChat p))] w r m"
proof -
  from shows_room_member [OF r(1) m(1)] obtain s where s: "sessions w a = Some s" "mPlayerId s = member_id m"
    "terminated MAX_NAME_LEN (mPlayerName s)" "member_name m = c_string (mPlayerName s)" by (auto simp: shows_member_def)
  from q(1) have "terminated MAX_CHAT_LEN (cr_mChat p)" by (simp add: terminated_def)
  note copies = strcpy_s_zeros_ok [OF s(3)] strcpy_s_zeros_ok [OF this]
  note speech = speaks_chat [OF copies s(4)]
  from speech_exact [OF r m speech(1) fits] obtain w' r' where
    w': "broadcast_or_drop env a (server_bytes (chat_speech m (cr_mChat p))) w = Inr w'"
      "room_step (flaky env) r (Spoke a (chat_speech m (cr_mChat p))) r'" "shows_room w' r'"
      "members r' a = Some (queue_packet (chat_speech m (cr_mChat p)) m)"
      "outbox (queue_packet (chat_speech m (cr_mChat p)) m) = outbox m @ server_bytes (chat_speech m (cr_mChat p))" by auto
  have "packet_effect env a (ChatPacket p) w = Inr w'"
    using q(2) s(1,2) copies w'(1) speech(2) by (simp add: GetPlayerId_def GetPlayerName_def get_session_def)
  with w' m(2) show ?thesis unfolding plays_exactly_def by auto
qed

lemma move_effect_exact:
  assumes r: "shows_room w r" "room_ok (flaky env) r" and m: "members r a = Some m" "online m" and q: "mr_mPlayerId p = member_id m"
    and fits: "length (outbox m) + length (server_bytes (move_speech m (mr_mPosX p) (mr_mPosY p))) \<le> HALF_BUFSIZE"
  shows "plays_exactly env a (MovePacket p) [Placed a (mr_mPosX p) (mr_mPosY p), Spoke a (move_speech m (mr_mPosX p) (mr_mPosY p))] w r m"
proof -
  let ?x = "mr_mPosX p" and ?y = "mr_mPosY p"
  from shows_room_member [OF r(1) m(1)] obtain s where s: "sessions w a = Some s" "shows_member s m" by blast
  let ?s = "s\<lparr>mPosX := mr_mPosX p, mPosY := mr_mPosY p\<rparr>" and ?m = "m\<lparr>member_x := mr_mPosX p, member_y := mr_mPosY p\<rparr>"
  let ?w = "set_session a ?s w" and ?r = "put_member a ?m r" and ?p = "move_speech m ?x ?y"
  have "shows_member ?s ?m" using s(2) by (simp add: shows_member_def shows_outbox_def outbox_def)
  from shows_put_member [OF r(1) this, of ?w a] have r1: "shows_room ?w ?r" by simp
  have step: "room_step (flaky env) r (Placed a ?x ?y) ?r" by (rule room_step.placed [OF m(1)])
  have m1: "members ?r a = Some ?m" "online ?m" "outbox ?m = outbox m"
    using m(2) by (simp_all add: put_member_def outbox_def)
  have "length (outbox ?m) + length (server_bytes ?p) \<le> HALF_BUFSIZE" using fits m1(3) by simp
  from speech_exact [OF r1 room_ok_step [OF r(2) step] m1(1,2) speaks_move this] obtain w' r' where
    w': "broadcast_or_drop env a (server_bytes ?p) ?w = Inr w'" "room_step (flaky env) ?r (Spoke a ?p) r'" "shows_room w' r'"
      "members r' a = Some (queue_packet ?p ?m)" "outbox (queue_packet ?p ?m) = outbox m @ server_bytes ?p"
    using m1(3) by auto
  have "packet_effect env a (MovePacket p) w = Inr w'"
    using q s w'(1)
    by (simp add: shows_member_def GetPlayerId_def SetPosition_def modify_session_def get_session_def move_speech_def)
  with w' step m(2) show ?thesis unfolding plays_exactly_def by auto
qed

lemma packet_effect_exact:
  assumes r: "shows_room w r" "room_ok (flaky env) r" and m: "members r a = Some m" "online m" and q: "speech_request q"
    and fits: "length (outbox m) + length (stream (speeches (request_events a m q))) \<le> HALF_BUFSIZE"
  shows "plays_exactly env a q (request_events a m q) w r m"
proof -
  from shows_room_member [OF r(1) m(1)] obtain s where s: "sessions w a = Some s" "mPlayerId s = member_id m"
    by (auto simp: shows_member_def)
  show ?thesis
  proof (cases q)
    case (LoginPacket p)
    with q show ?thesis by simp
  next
    case (ChatPacket p)
    with r m s q fits chat_effect_exact [OF r m, of p] plays_nothing [OF _ r(1) m, of env q] show ?thesis
      by (cases "cr_mPlayerId p = member_id m") (simp_all add: GetPlayerId_def get_session_def)
  next
    case (MovePacket p)
    with r m s q fits move_effect_exact [OF r m, of p] plays_nothing [OF _ r(1) m, of env q] show ?thesis
      by (cases "mr_mPlayerId p = member_id m") (simp_all add: GetPlayerId_def get_session_def)
  qed
qed

lemma request_events_same:
  "member_id m' = member_id m \<Longrightarrow> member_name m' = member_name m \<Longrightarrow> request_events a m' q = request_events a m q"
  by (cases q) (simp_all add: chat_speech_def move_speech_def)

lemma speech_request_ok: "speech_request q \<Longrightarrow> packet_ok q"
  by (cases q) simp_all

lemma requests_exact:
  assumes "shows_room w r" and "room_ok (flaky env) r" and "members r a = Some m" and "online m"
    and "sessions w a = Some s" and "cb_ok (mRecvBuffer s)"
    and "contents (mRecvBuffer s) = concat (map packet_bytes ps) @ rest" and "incomplete rest"
    and "\<forall>q \<in> set ps. speech_request q"
    and "length (outbox m) + length (stream (speeches (concat (map (request_events a m) ps)))) \<le> HALF_BUFSIZE"
  shows "\<exists>w' r'. OnRead_loop env a w = Some (Inr w') \<and>
    event_run (room_step (flaky env)) r (concat (map (request_events a m) ps)) r' \<and> shows_room w' r'"
  using assms(1-7,9,10)
proof (induction ps arbitrary: w r m s)
  case Nil
  with assms(8) OnRead_loop_stop [OF OnRead_turn_incomplete [OF Nil.prems(5,6)]] show ?case by auto
next
  case (Cons q ps)
  have q: "speech_request q" and ps: "\<forall>q \<in> set ps. speech_request q" using Cons.prems(8) by simp_all
  have c: "contents (mRecvBuffer s) = packet_bytes q @ (concat (map packet_bytes ps) @ rest)"
    using Cons.prems(7) by simp
  from OnRead_turn_packet [OF Cons.prems(5,6) c speech_request_ok [OF q], of env] obtain rb where
    rb: "cb_ok rb" "contents rb = concat (map packet_bytes ps) @ rest"
    and turn: "OnRead_turn env a w = rbind (packet_effect env a q (set_session a (s\<lparr>mRecvBuffer := rb\<rparr>) w))
      (\<lambda>w. Inr (True, w))" by blast
  let ?w = "set_session a (s\<lparr>mRecvBuffer := rb\<rparr>) w"
  have r1: "shows_room ?w r"
    by (rule unseen_shows [OF unseen_set [OF Cons.prems(5)] Cons.prems(1)]) simp
  have fits: "length (outbox m) + length (stream (speeches (request_events a m q))) \<le> HALF_BUFSIZE"
    using Cons.prems(9) by simp
  from packet_effect_exact [OF r1 Cons.prems(2-4) q fits, unfolded plays_exactly_def] obtain w1 r2 m2 where
    1: "packet_effect env a q ?w = Inr w1" "event_run (room_step (flaky env)) r (request_events a m q) r2"
      "shows_room w1 r2" "members r2 a = Some m2" "member_id m2 = member_id m" "member_name m2 = member_name m" "online m2"
      "outbox m2 = outbox m @ stream (speeches (request_events a m q))" by blast
  from recv_same_Some [OF packet_effect_recv [OF 1(1)], of a "s\<lparr>mRecvBuffer := rb\<rparr>"] obtain s1 where
    s1: "sessions w1 a = Some s1" "mRecvBuffer s1 = rb" by auto
  have same: "map (request_events a m2) ps = map (request_events a m) ps"
    using request_events_same [OF 1(5,6)] by simp
  from Cons.IH [OF 1(3) room.run_good [OF 1(2) Cons.prems(2)] 1(4,7) s1(1)] s1(2) rb ps Cons.prems(9) 1(8) same
  obtain w' r' where "OnRead_loop env a w1 = Some (Inr w')"
    "event_run (room_step (flaky env)) r2 (concat (map (request_events a m) ps)) r'" "shows_room w' r'" by auto
  moreover from turn 1(1) have "OnRead_loop env a w = OnRead_loop env a w1" by (simp add: OnRead_loop_goes_on)
  ultimately show ?case using 1(2) by (auto simp: event_run_append)
qed

text \<open>
  C12: requests do exactly what they ask for. When the receive buffer of a connected session holds moves
  and ended chats, with a rest that is not complete, and their results leave its send buffer at most
  half full, \<open>OnRead\<close> returns and has played, in this order, for each request that names the player of
  the session the new position and the broadcast of the position, or the broadcast of the chat
  under the name of the session, and for every other request nothing.
\<close>

theorem requests_played:
  assumes "shows_room w r" and "room_ok (flaky env) r" and "members r a = Some m" and "online m"
    and "sessions w a = Some s" and "cb_ok (mRecvBuffer s)"
    and "contents (mRecvBuffer s) = concat (map packet_bytes ps) @ rest" and "incomplete rest"
    and "\<forall>q \<in> set ps. speech_request q"
    and "length (outbox m) + length (stream (speeches (concat (map (request_events a m) ps)))) \<le> HALF_BUFSIZE"
  shows "\<exists>w' r'. OnRead_loop env a w = Some (Inr w') \<and>
    event_run (room_step (flaky env)) r (concat (map (request_events a m) ps)) r' \<and> shows_room w' r'"
  by (rule requests_exact [OF assms])

section \<open>What the players can rely on\<close>


text \<open>Who has a player id has been given it by a login.\<close>

lemma member_id_login:
  assumes "room_step f r e r'" and "members r' a = Some m'" and "member_id m' \<noteq> -1"
  shows "(\<exists>p. e = LoggedOn a p \<and> ls_mPlayerId p = member_id m') \<or>
    (\<exists>m. members r a = Some m \<and> member_id m = member_id m')"
  using assms(1)
proof (cases rule: room_step.cases)
  case (spoke b m p ms)
  then have "rel_option (hears f r b p a) (members r a) (ms a)" by blast
  with spoke assms(2) obtain n where "members r a = Some n" "hears f r b p a n m'" by (cases "members r a") auto
  then show ?thesis using offer_fields(2) [of f p n m'] by (auto simp: hears_def split: if_splits)
qed (use assms(2,3) in \<open>auto simp: put_member_def newcomer_def split: if_splits\<close>)

lemma run_member_id:
  assumes "event_run (room_step f) r es r'" and "members r' a = Some m'" and "member_id m' \<noteq> -1"
  shows "(\<exists>p. LoggedOn a p \<in> set es \<and> ls_mPlayerId p = member_id m') \<or>
    (\<exists>m. members r a = Some m \<and> member_id m = member_id m')"
  using assms
proof (induction rule: event_run.induct)
  case (play r e r1 es r2)
  from play.IH [OF play.prems] show ?case
  proof (elim disjE exE conjE)
    fix m assume m: "members r1 a = Some m" "member_id m = member_id m'"
    with member_id_login [OF play.hyps(1) m(1)] play.prems(2) show ?thesis by auto
  qed auto
qed auto

lemma speaker_logged_on:
  assumes "event_run (room_step f) empty_room (xs @ Spoke a p # ys) r" and "packet_player p \<noteq> -1"
  shows "\<exists>q. LoggedOn a q \<in> set xs \<and> ls_mPlayerId q = packet_player p"
proof -
  from assms(1) obtain r1 r2 where run: "event_run (room_step f) empty_room xs r1" "room_step f r1 (Spoke a p) r2"
    by (auto simp: event_run_append)
  from run(2) obtain m where "members r1 a = Some m" "speaks m p" by (cases rule: room_step.cases) auto
  with run_member_id [OF run(1) this(1)] speaks_packet [of m p] assms(2) show ?thesis by (auto simp: empty_room_def)
qed

lemma broadcasts_are_speeches:
  "event_run (room_step f) r es r' \<Longrightarrow> broadcasts r' = broadcasts r @ speeches es"
proof (induction rule: event_run.induct)
  case (play r e r1 es r2)
  from play.hyps(1) play.IH show ?case by (cases rule: room_step.cases) (auto simp: put_member_def)
qed simp

text \<open>
  C5: one order for all. In every state of a running server there is one log of broadcasts such that
  what waits in the send buffer of a session is the rest of a sequence of whole well-formed packets
  whose chats and moves are in the order of the log; and when sockets can always be closed, a session
  that is connected and in the client list has been queued every single broadcast since it joined,
  once, without a gap.
\<close>

theorem broadcasts_ordered:
  assumes "server_reachable env api zero db s" and "env_ok env" and "sqlite_ok api"
  shows "\<exists>es r. event_run (room_step (flaky env)) empty_room es r \<and> shows_room (client s) r \<and>
    (\<forall>a c. sessions (client s) a = Some c \<longrightarrow> (\<exists>m. members r a = Some m \<and>
      contents (mSendBuffer c) = drop (taken m) (stream (queued m)) \<and> (\<forall>p \<in> set (queued m). room_packet p) \<and>
      subseq (filter broadcast_packet (queued m)) (speeches es) \<and>
      ((\<forall>k. \<not> os_setsockopt_fails env k) \<and> mConnected c \<and> (mSocket c, a) \<in> set (mClientList (client s)) \<longrightarrow>
        filter broadcast_packet (queued m) = drop (joined_at m) (speeches es))))"
proof -
  from server_run [OF assms] obtain es r where
    r: "event_run (room_step (flaky env)) empty_room es r" "room_ok (flaky env) r" "shows_room (client s) r" by blast
  from broadcasts_are_speeches [OF r(1)] have log: "broadcasts r = speeches es" by (simp add: empty_room_def)
  have "\<exists>m. members r a = Some m \<and>
      contents (mSendBuffer c) = drop (taken m) (stream (queued m)) \<and> (\<forall>p \<in> set (queued m). room_packet p) \<and>
      subseq (filter broadcast_packet (queued m)) (speeches es) \<and>
      ((\<forall>k. \<not> os_setsockopt_fails env k) \<and> mConnected c \<and> (mSocket c, a) \<in> set (mClientList (client s)) \<longrightarrow>
        filter broadcast_packet (queued m) = drop (joined_at m) (speeches es))"
    if c: "sessions (client s) a = Some c" for a c
  proof -
    from shows_room_Some [OF r(3) c] obtain m where m: "members r a = Some m" "shows_member c m" by blast
    from room_ok_member [OF r(2) m(1)] log have ok: "\<forall>p \<in> set (queued m). room_packet p"
      "subseq (filter broadcast_packet (queued m)) (speeches es)" by (simp_all add: member_ok_def)
    have "filter broadcast_packet (queued m) = drop (joined_at m) (speeches es)"
      if calm: "\<forall>k. \<not> os_setsockopt_fails env k" and con: "mConnected c" and e: "(mSocket c, a) \<in> set (mClientList (client s))"
    proof -
      from r(3) e have "roll r (mSocket c) = Some a" using map_ok_map_of by (fastforce simp: shows_room_def)
      from room_ok_roll [OF r(2) this] m(1) calm have "member_up_to_date (broadcasts r) m" by (auto simp: flaky_def)
      with con m(2) log show ?thesis by (simp add: member_up_to_date_def shows_member_def shows_outbox_def)
    qed
    with m ok show ?thesis by (auto simp: shows_member_def shows_outbox_def outbox_def)
  qed
  with r(1,3) show ?thesis by blast
qed


section \<open>Witnesses\<close>

lemma demo_client: "client (demo_server t) = demo_world t"
  by (simp add: demo_server_def)

lemma demo_room:
  "\<exists>es r m. event_run (room_step (flaky (demo_env 0))) empty_room es r \<and> room_ok (flaky (demo_env 0)) r \<and>
    shows_room (demo_world 0) r \<and> members r 64 = Some m \<and> shows_member demo_session m"
proof -
  from server_run [OF demo_server_reachable demo_env_ok empty_db_ok, of 0] obtain es r where
    r: "event_run (room_step (flaky (demo_env 0))) empty_room es r" "room_ok (flaky (demo_env 0)) r" "shows_room (demo_world 0) r"
    by (auto simp: demo_client)
  with shows_room_Some [OF r(3) demo_world_session] show ?thesis by blast
qed


theorem broadcasts_ordered_witness:
  "\<exists>es r m. event_run (room_step (flaky (demo_env 0))) empty_room es r \<and> shows_room (demo_world 0) r \<and>
    members r 64 = Some m \<and> filter broadcast_packet (queued m) = drop (joined_at m) (speeches es)"
proof -
  have "\<forall>k. \<not> os_setsockopt_fails (demo_env 0) k" "(mSocket demo_session, 64) \<in> set (mClientList (demo_world 0))"
    by (simp_all add: demo_env_def demo_send_buffer demo_world_def)
  with broadcasts_ordered [OF demo_server_reachable demo_env_ok empty_db_ok, of 0] demo_world_session [of 0]
    demo_send_buffer(3) show ?thesis by (fastforce simp: demo_client)
qed


theorem requests_played_witness:
  "\<exists>r m w' r'. shows_room (reading (MoveRequest_bytes (MoveRequest_init\<lparr>mr_mPlayerId := -1, mr_mPosX := 3\<rparr>))) r \<and>
    members r 64 = Some m \<and>
    OnRead_loop (demo_env 0) 64 (reading (MoveRequest_bytes (MoveRequest_init\<lparr>mr_mPlayerId := -1, mr_mPosX := 3\<rparr>))) = Some (Inr w') \<and>
    event_run (room_step (flaky (demo_env 0))) r [Placed 64 3 0, Spoke 64 (move_speech m 3 0)] r' \<and> shows_room w' r'"
proof -
  let ?q = "MoveRequest_init\<lparr>mr_mPlayerId := -1, mr_mPosX := 3\<rparr>" and ?bs = "MoveRequest_bytes (MoveRequest_init\<lparr>mr_mPlayerId := -1, mr_mPosX := 3\<rparr>)"
  from demo_room obtain r m where r: "room_ok (flaky (demo_env 0)) r" "shows_room (demo_world 0) r" "members r 64 = Some m"
    "shows_member demo_session m" by blast
  have m: "online m" "member_id m = -1" "outbox m = []"
    using r(4) demo_send_buffer(1,3) by (simp_all add: shows_member_def shows_outbox_def demo_session_def ClientSession_new_def)
  have "unseen (demo_world 0) (reading ?bs)"
    unfolding reading_def by (rule unseen_set [OF demo_world_session]) simp
  from unseen_shows [OF this r(2)] have shown: "shows_room (reading ?bs) r" .
  have len: "length ?bs < 1000" by (simp add: sizeof_MoveRequest_def)
  from reading_session [OF len] obtain s where s: "sessions (reading ?bs) 64 = Some s" "cb_ok (mRecvBuffer s)"
    "contents (mRecvBuffer s) = ?bs" by blast
  have inc: "incomplete []" by (simp add: incomplete_def sizeof_PacketHeader_def)
  have req: "speech_request (MovePacket ?q)" by (simp add: MoveRequest_init_def)
  have events: "request_events 64 m (MovePacket ?q) = [Placed 64 3 0, Spoke 64 (move_speech m 3 0)]"
    using m(2) by (simp add: MoveRequest_init_def)
  have fits: "length (server_bytes (move_speech m 3 0)) \<le> HALF_BUFSIZE"
    by (simp add: move_speech_def sizeof_MoveBroadcastResult_def HALF_BUFSIZE_def)
  from requests_played [OF shown r(1,3) m(1) s(1,2) _ inc, of "[MovePacket ?q]"] s(3) req fits m(3) events
  obtain w' r' where "OnRead_loop (demo_env 0) 64 (reading ?bs) = Some (Inr w')"
    "event_run (room_step (flaky (demo_env 0))) r [Placed 64 3 0, Spoke 64 (move_speech m 3 0)] r'" "shows_room w' r'"
    by auto
  with shown r(3) show ?thesis by blast
qed

end
