(* ===== verification/End_To_End.thy ===== *)
theory End_To_End
  imports Client_Server Room_Properties
begin

text \<open>
  From one player's client through the server to the screen of a player: a line of chat, and a login. The
  requests are the bytes the client puts on the wire, the server takes the steps of \<open>Server_System\<close> from a
  reachable state, and the answer is what the client does with the bytes in the send buffer of its
  session.
\<close>

section \<open>A receive that completes\<close>

text \<open>The receive completes, the bytes are in the buffer, and \<open>OnRead\<close> is about to look at them.\<close>

lemma complete_recv_reads:
  assumes ok: "world_ok env w" and op: "op \<in> set (pending_recv w)" and bs: "length bs \<le> io_length op" "bs \<noteq> []"
    and s: "sessions w (io_session op) = Some s" and con: "mConnected s"
  shows "\<exists>w2 s2. unseen w w2 \<and> sessions w2 (io_session op) = Some s2 \<and> world_ok env w2 \<and> no_recv w2 (io_session op) \<and>
    cb_ok (mRecvBuffer s2) \<and> contents (mRecvBuffer s2) = contents (mRecvBuffer s) @ bs \<and>
    GDatabaseJobManager w2 = GDatabaseJobManager w \<and> mTaskQueue w2 = mTaskQueue w \<and>
    complete_recv env op 0 bs w = then_do (OnRead_loop env (io_session op) w2) (\<lambda>w.
      Some (rbind (PostRecv env (io_session op) w) (\<lambda>(ok, w). if \<not> ok then Disconnect env (io_session op) w else Inr w)))"
proof -
  let ?a = "io_session op" and ?w0 = "w\<lparr>pending_recv := remove1 op (pending_recv w)\<rparr>"
  from recv_taken [OF ok op bs(1)] s obtain rb w1 where o: "mOverlappedRecv s = Some ?a"
    and k: "KernelReceive op bs ?w0 = Inr (set_session ?a (s\<lparr>mRecvBuffer := rb\<rparr>) ?w0)"
    and w1: "w1 = set_session ?a (s\<lparr>mRecvBuffer := rb, mRefCount := mRefCount s - 1\<rparr>) ?w0"
    and ok1: "world_ok env w1" "no_recv w1 ?a"
    and cb: "cb_ok (Commit rb (length bs))" "contents (Commit rb (length bs)) = contents (mRecvBuffer s) @ bs"
      "length (mBuffer (Commit rb (length bs))) = BUFSIZE" by auto
  let ?s1 = "s\<lparr>mRecvBuffer := rb, mRefCount := mRefCount s - 1\<rparr>"
  let ?s2 = "?s1\<lparr>mRecvBuffer := Commit rb (length bs)\<rparr>" and ?w2 = "set_session ?a (s\<lparr>mRefCount := mRefCount s - 1, mRecvBuffer := Commit rb (length bs)\<rparr>) ?w0"
  have live: "sessions w1 ?a = Some ?s1" by (simp add: w1)
  have eq2: "?w2 = set_session ?a ?s2 w1" by (simp add: w1)
  have fine: "fine env w1 (set_session ?a ?s2 w1)"
    using world_ok_session [OF ok1(1) live] cb(1,3) ok1(2)
    by (intro fine_set_session [OF ok1(1) live]) (auto simp: session_ok_def)
  have "unseen w ?w0" by (rule unseen_sessions) simp_all
  moreover have "unseen ?w0 ?w2" by (rule unseen_set) (use s in simp_all)
  ultimately have "unseen w ?w2" by (rule unseen_trans)
  moreover have "complete_recv env op 0 bs w = then_do (OnRead_loop env ?a ?w2) (\<lambda>w.
      Some (rbind (PostRecv env ?a w) (\<lambda>(ok, w). if \<not> ok then Disconnect env ?a w else Inr w)))"
    using k o con bs(2)
    by (simp add: complete_recv_def RecvCompletion_def DecRefCount_def modify_session_def get_session_def IsConnected_def OnRead_def)
  moreover have "GDatabaseJobManager w1 = GDatabaseJobManager w" "mTaskQueue w1 = mTaskQueue w" by (simp_all add: w1)
  ultimately show ?thesis
    using fine_ok [OF fine] no_recv_fine [OF ok1(2) fine] cb(1,2) eq2
    by (intro exI [of _ ?w2] exI [of _ ?s2]) simp
qed

text \<open>Posting the next receive returns, and leaves the other sessions as they are.\<close>

lemma PostRecv_returns:
  assumes "sessions w a = Some s"
  shows "\<exists>b w'. PostRecv env a w = Inr (b, w')"
proof -
  have "\<exists>b w'. (if x = WsaError then Inr (False, v) else rbind (IncRefCount a v) (\<lambda>w. Inr (True, w))) = Inr (b, w')"
    if "sessions v a = Some t" for x t v
    using that by (simp add: IncRefCount_def modify_session_def get_session_def) blast
  then show ?thesis using assms
    by (fastforce simp: PostRecv_def get_session_def Let_def WSARecv_def split: prod.split)
qed

lemma repost_returns:
  assumes s: "sessions w a = Some s"
  shows "\<exists>w'. rbind (PostRecv env a w) (\<lambda>(ok, w). if \<not> ok then Disconnect env a w else Inr w) = Inr w' \<and>
    (\<forall>b. b \<noteq> a \<longrightarrow> map_option view (sessions w' b) = map_option view (sessions w b))"
proof -
  from PostRecv_returns [OF s] obtain b w1 where w1: "PostRecv env a w = Inr (b, w1)" by blast
  from PostRecv_unseen [OF this] have v: "map_option view (sessions w1 c) = map_option view (sessions w c)" for c
    by (simp add: unseen_def)
  show ?thesis
  proof (cases b)
    case True
    with w1 v show ?thesis by simp
  next
    case False
    from v [of a] s obtain s1 where "sessions w1 a = Some s1" by auto
    from Disconnect_returns [OF this] obtain w2 where w2: "Disconnect env a w1 = Inr w2" by blast
    then have "sessions w2 c = sessions w1 c" if "c \<noteq> a" for c
      using that by (cases rule: Disconnect_cases) auto
    with w1 w2 False v show ?thesis by simp
  qed
qed

section \<open>A line of chat\<close>

lemma chat_heard:
  assumes "room_step f r (Spoke a p) r'" and "room_ok f r" and "members r b = Some n" and "b \<noteq> a" and "b \<in> ran (roll r)"
    and "online n" and "\<not> crowded p n"
  shows "members r' b = Some (queue_packet p n)"
  using assms(1)
proof (cases rule: room_step.cases)
  case (spoke m ms)
  then have "rel_option (hears f r a p b) (members r b) (ms b)" by blast
  with assms(3-7) spoke show ?thesis by (cases "ms b") (auto simp: hears_def offer_def)
qed

lemma chat_speech_packet:
  assumes "terminated MAX_NAME_LEN name" and "member_name m = c_string name" and "packet_ok (ChatPacket q)"
    and "0 \<in> set (cr_mChat q)" and "0 \<le> sint (member_id m)"
  shows "server_packet_ok (chat_speech m (cr_mChat q))" and "length (server_bytes (chat_speech m (cr_mChat q))) = 294"
proof -
  from assms(3,4) have "terminated MAX_CHAT_LEN (cr_mChat q)" by (simp add: terminated_def)
  from speaks_chat(1) [OF strcpy_s_zeros_ok [OF assms(1)] strcpy_s_zeros_ok [OF this] assms(2)]
  have "room_packet (chat_speech m (cr_mChat q)) \<and> packet_player (chat_speech m (cr_mChat q)) = member_id m"
    by (rule speaks_packet [THEN conjE]) simp
  moreover have "member_id m \<noteq> -1" using assms(5) by auto
  ultimately show ok: "server_packet_ok (chat_speech m (cr_mChat q))" unfolding server_packet_ok_alt by simp
  show "length (server_bytes (chat_speech m (cr_mChat q))) = 294"
    using length_server_packet [OF ok] by (simp add: chat_speech_def)
qed

text \<open>A packet that an idle client receives.\<close>

lemma client_draws:
  assumes "tcp_clients w a = Some c" and "receiver_ok c" and "contents (m_recvBuffer c) = []" and "server_packet_ok p"
    and "length (server_bytes p) \<le> RECV_SIZE" and "\<forall>j. base_layer env j = Some layer"
  shows "\<exists>w' c'. network_run env a [Some (server_bytes p)] w = Some (Inr w') \<and> tcp_clients w' a = Some c' \<and>
    m_loginId c' = fst (shown1 layer (m_loginId c) p) \<and>
    cocos_queue w' = cocos_queue w @ snd (shown1 layer (m_loginId c) p)"
proof -
  have inc: "incomplete []" by (simp add: incomplete_def sizeof_PacketHeader_def)
  have len: "\<forall>x \<in> set [Some (server_bytes p)]. length (received_bytes x) \<le> RECV_SIZE" using assms(5) by simp
  have one: "\<forall>x \<in> set [p]. server_packet_ok x" using assms(4) by simp
  have bytes: "contents (m_recvBuffer c) @ concat (map received_bytes [Some (server_bytes p)]) = concat (map server_bytes [p]) @ []"
    using assms(3) by simp
  from network_run_stream [OF assms(1,2) len bytes one inc _ _ _ assms(6)] assms(3) inc show ?thesis by auto
qed

text \<open>The server's part.\<close>

lemma chat_at_server:
  assumes ok: "world_ok env (client S)" and r: "room_ok (flaky env) r" "shows_room (client S) r"
    and op: "op \<in> set (pending_recv (client S))" "264 \<le> io_length op"
    and s: "sessions (client S) (io_session op) = Some s" "mConnected s" "contents (mRecvBuffer s) = []"
      "length (contents (mSendBuffer s)) + 294 \<le> HALF_BUFSIZE"
    and b: "(sock, b) \<in> set (mClientList (client S))" "b \<noteq> io_session op"
    and t: "sessions (client S) b = Some t" "mConnected t" "contents (mSendBuffer t) = []"
    and q: "packet_ok (ChatPacket q)" "cr_mPlayerId q = mPlayerId s" "0 \<in> set (cr_mChat q)" "0 \<le> sint (mPlayerId s)"
  shows "\<exists>w' t' p. complete_recv env op 0 (packet_bytes (ChatPacket q)) (client S) = Some (Inr w') \<and>
    sessions w' b = Some t' \<and> contents (mSendBuffer t') = server_bytes p \<and> server_packet_ok p \<and>
    length (server_bytes p) = 294 \<and>
    snd (shown1 layer pid p) = [chatDraw_call layer (c_string (mPlayerName s)) (c_string (cr_mChat q))]"
proof -
  let ?a = "io_session op" and ?bs = "packet_bytes (ChatPacket q)"
  have len: "length ?bs \<le> io_length op" "?bs \<noteq> []" using op(2) length_client_packet [OF q(1)] by auto
  from complete_recv_reads [OF ok op(1) len s(1,2)] s(3) obtain w2 s2 where
    w2: "unseen (client S) w2" "sessions w2 ?a = Some s2" "cb_ok (mRecvBuffer s2)" "contents (mRecvBuffer s2) = ?bs"
    and run: "complete_recv env op 0 ?bs (client S) = then_do (OnRead_loop env ?a w2) (\<lambda>w.
        Some (rbind (PostRecv env ?a w) (\<lambda>(ok, w). if \<not> ok then Disconnect env ?a w else Inr w)))" by auto
  note shown = unseen_shows [OF w2(1) r(2)]
  from shows_room_Some [OF r(2) s(1)] obtain m where m: "members r ?a = Some m" "shows_member s m" by blast
  from shows_room_Some [OF r(2) t(1)] obtain n where n: "members r b = Some n" "shows_member t n" by blast
  from m(2) n(2) have on: "online m" "online n" "outbox n = []" "outbox m = contents (mSendBuffer s)"
      "member_id m = mPlayerId s" "member_name m = c_string (mPlayerName s)" "terminated MAX_NAME_LEN (mPlayerName s)"
    using s(2) t(2,3) by (simp_all add: shows_member_def shows_outbox_def)
  let ?p = "chat_speech m (cr_mChat q)"
  have id: "0 \<le> sint (member_id m)" using q(4) on(5) by simp
  note pkt = chat_speech_packet [OF on(7,6) q(1,3) id]
  have events: "concat (map (request_events ?a m) [ChatPacket q]) = [Spoke ?a ?p]" using q(2) on(5) by simp
  have inc: "incomplete []" by (simp add: incomplete_def sizeof_PacketHeader_def)
  have speech: "\<forall>x \<in> set [ChatPacket q]. speech_request x" using q(1,3) by simp
  have one: "contents (mRecvBuffer s2) = concat (map packet_bytes [ChatPacket q]) @ []" using w2(4) by simp
  have fits: "length (outbox m) + length (stream (speeches (concat (map (request_events ?a m) [ChatPacket q])))) \<le> HALF_BUFSIZE"
    unfolding events using pkt(2) on(4) s(4) by simp
  from requests_exact [OF shown r(1) m(1) on(1) w2(2,3) one inc speech fits] obtain w3 r3 where
    w3: "OnRead_loop env ?a w2 = Some (Inr w3)" "room_step (flaky env) r (Spoke ?a ?p) r3" "shows_room w3 r3"
    unfolding events by auto
  have "roll r sock = Some b" using b(1) r(2) map_ok_map_of by (fastforce simp: shows_room_def)
  then have "b \<in> ran (roll r)" by (auto simp: ran_def)
  moreover have "\<not> crowded ?p n" using on(3) pkt(2) by (simp add: crowded_def HALF_BUFSIZE_def)
  ultimately have "members r3 b = Some (queue_packet ?p n)"
    using chat_heard [OF w3(2) r(1) n(1) b(2)] on(2) by simp
  from shows_room_member [OF w3(3) this] obtain t3 where t3: "sessions w3 b = Some t3" "shows_member t3 (queue_packet ?p n)" by blast
  then have t3c: "contents (mSendBuffer t3) = server_bytes ?p"
    using on(3) room_ok_taken [OF r(1) n(1)] by (simp add: shows_member_def shows_outbox_def)
  from shows_room_member [OF w3(3) hears_self [OF w3(2) m(1)]] obtain s3 where "sessions w3 ?a = Some s3" by blast
  from repost_returns [OF this, of env] obtain w4 where
    w4: "rbind (PostRecv env ?a w3) (\<lambda>(ok, w). if \<not> ok then Disconnect env ?a w else Inr w) = Inr w4"
      "map_option view (sessions w4 b) = map_option view (sessions w3 b)" using b(2) by blast
  from w4(2) t3 obtain t4 where t4: "sessions w4 b = Some t4" "mSendBuffer t4 = mSendBuffer t3" by (auto simp: view_def)
  have "snd (shown1 layer pid ?p) = [chatDraw_call layer (c_string (mPlayerName s)) (c_string (cr_mChat q))]"
    using on(6) by (simp add: chat_speech_def)
  with run w3(1) w4(1) t4 t3c pkt show ?thesis by auto
qed


section \<open>Witnesses\<close>

text \<open>A second player has joined the first, on socket 9, and the first has the player id 1001.\<close>

lemma second_player:
  "\<exists>b w t. HandleAccept (demo_env 0) 9 (demo_world 0) = Inr w \<and> b \<noteq> 64 \<and>
    pending_recv (demo_world 0) = [\<lparr>io_session = 64, io_offset = 0, io_length = BUFSIZE\<rparr>] \<and>
    set (pending_recv (demo_world 0)) \<subseteq> set (pending_recv w) \<and> sessions w 64 = Some demo_session \<and>
    (9, b) \<in> set (mClientList w) \<and> sessions w b = Some t \<and> mConnected t \<and> contents (mSendBuffer t) = []"
proof -
  from CreateClient_ok [OF demo_world_ok demo_env_ok, of 0 9] obtain b w1 where w1: "CreateClient (demo_env 0) 9 (demo_world 0) = Inr (b, w1)"
    "b \<notin> dom (sessions (demo_world 0))"
    "sessions w1 = (sessions (demo_world 0))(b \<mapsto> ClientSession_new (fresh_memory (demo_env 0)) 9)"
    "mClientList w1 = map_insert 9 b (mClientList (demo_world 0))" by blast
  from w1(2) demo_world_session have b: "b \<noteq> 64" by auto
  have keeps: "pending_recv w1 = pending_recv (demo_world 0)"
    using w1(1) by (auto simp: CreateClient_def rbind_eq_Inr)
  have old: "mClientList (demo_world 0) = [(7, 64)]"
    "pending_recv (demo_world 0) = [\<lparr>io_session = 64, io_offset = 0, io_length = BUFSIZE\<rparr>]" by (simp_all add: demo_world_def)
  have "\<exists>w t. HandleAccept (demo_env 0) 9 (demo_world 0) = Inr w \<and> set (pending_recv w1) \<subseteq> set (pending_recv w) \<and>
    sessions w 64 = sessions w1 64 \<and> mClientList w = mClientList w1 \<and> sessions w b = Some t \<and> mConnected t \<and>
    contents (mSendBuffer t) = []"
    using w1(1,3) b
    by (auto simp: HandleAccept_def OnConnect_def modify_session_def get_session_def PostRecv_def WSARecv_def sys_call_def
        demo_env_def IncRefCount_def Let_def ClientSession_new_def CircularBuffer_def contents_def split: prod.split)
  with w1(3,4) keeps old b demo_world_session [of 0] show ?thesis by fastforce
qed

lemma two_players:
  "\<exists>b w r t. world_ok (demo_env 0) w \<and> room_ok (flaky (demo_env 0)) r \<and> shows_room w r \<and> b \<noteq> 64 \<and>
    \<lparr>io_session = 64, io_offset = 0, io_length = BUFSIZE\<rparr> \<in> set (pending_recv w) \<and>
    sessions w 64 = Some (demo_session\<lparr>mPlayerId := 1001, mLogon := True\<rparr>) \<and>
    (9, b) \<in> set (mClientList w) \<and> sessions w b = Some t \<and> mConnected t \<and> contents (mSendBuffer t) = []"
proof -
  let ?s = "demo_session\<lparr>mPlayerId := 1001, mLogon := True\<rparr>"
  from second_player obtain b w t where w: "HandleAccept (demo_env 0) 9 (demo_world 0) = Inr w" "b \<noteq> 64"
    "\<lparr>io_session = 64, io_offset = 0, io_length = BUFSIZE\<rparr> \<in> set (pending_recv w)" "sessions w 64 = Some demo_session"
    "(9, b) \<in> set (mClientList w)" "sessions w b = Some t" "mConnected t" "contents (mSendBuffer t) = []" by auto
  from HandleAccept_safe [OF demo_world_ok demo_env_ok, of 0 9] w(1) have ok: "world_ok (demo_env 0) w" by simp
  from demo_room obtain es r0 where r0: "event_run (room_step (flaky (demo_env 0))) empty_room es r0"
    "room_ok (flaky (demo_env 0)) r0" "shows_room (demo_world 0) r0" by blast
  from HandleAccept_sims [OF w(1) demo_world_ok demo_env_ok] r0(2,3) obtain fs r where
    "event_run (room_step (flaky (demo_env 0))) r0 fs r" and shown: "shows_room w r" by (auto simp: plays_some_def)
  from room.run_good [OF this(1) r0(2)] have r: "room_ok (flaky (demo_env 0)) r" .
  from shows_room_Some [OF shown w(4)] obtain m where m: "members r 64 = Some m" "shows_member demo_session m" by blast
  let ?m = "m\<lparr>member_id := 1001, logged_on := True\<rparr>"
  have "shows_member ?s ?m" using m(2) by (simp add: shows_member_def shows_outbox_def outbox_def)
  from shows_put_member [OF shown this, of "set_session 64 ?s w" 64]
  have "shows_room (set_session 64 ?s w) (put_member 64 ?m r)" by simp
  moreover have "room_ok (flaky (demo_env 0)) (put_member 64 ?m r)"
    by (rule room_ok_put_member [OF r m(1)])
      (use room_ok_member [OF r m(1)] in \<open>simp_all add: member_ok_def member_up_to_date_def\<close>)
  moreover have "fine (demo_env 0) w (set_session 64 ?s w)"
    using world_ok_session [OF ok w(4)] by (intro fine_set_session [OF ok w(4)]) (simp_all add: session_ok_def)
  ultimately show ?thesis using w fine_ok
    by (intro exI [of _ b] exI [of _ "set_session 64 ?s w"] exI [of _ "put_member 64 ?m r"] exI [of _ t]) simp
qed


end
