(* ===== verification/Login_Trip.thy ===== *)
theory Login_Trip
  imports End_To_End
begin

text \<open>
  A login from the button of one client to the screen of the same client: the request is received, the
  database thread answers it, the timer dispatches the answer, and the bytes that then wait in
  the send buffer of the session tell the client its player id.
\<close>

section \<open>The request is received\<close>

lemma PostRecv_quiet:
  assumes "sessions w a = Some s" and "mConnected s" and "\<forall>k. os_WSARecv env k \<noteq> WsaError"
  shows "\<exists>w'. PostRecv env a w = Inr (True, w') \<and> mTaskQueue w' = mTaskQueue w \<and>
    GDatabaseJobManager w' = GDatabaseJobManager w"
  using assms
  by (auto simp: PostRecv_def get_session_def Let_def WSARecv_def IncRefCount_def modify_session_def sys_call_def split: prod.split)

lemma PushJob_queue:
  assumes "LThreadType w = THREAD_CLIENT" and "manager_ok (GDatabaseJobManager w)"
    and "length (items MAX_DB_JOB (mDbJobRequestQueue (GDatabaseJobManager w))) < MAX_DB_JOB"
  shows "\<exists>q. PushJob j w = Inr (w\<lparr>GDatabaseJobManager := GDatabaseJobManager w\<lparr>mDbJobRequestQueue := q\<rparr>\<rparr>) \<and>
    items MAX_DB_JOB q = items MAX_DB_JOB (mDbJobRequestQueue (GDatabaseJobManager w)) @ [j]"
proof -
  from assms(2) have "pcq_ok MAX_DB_JOB (mDbJobRequestQueue (GDatabaseJobManager w))" by (simp add: manager_ok_def)
  then show ?thesis
    by (cases rule: PushDatabaseJobRequest_cases [where j = j]) (use assms in \<open>auto simp: PushJob_def\<close>)
qed

lemma login_received:
  assumes ok: "world_ok env w" and op: "op \<in> set (pending_recv w)" "length (packet_bytes (LoginPacket q)) \<le> io_length op"
    and s: "sessions w (io_session op) = Some s" "mConnected s" "contents (mRecvBuffer s) = []"
    and q: "packet_ok (LoginPacket q)" and env: "\<forall>k. os_WSARecv env k \<noteq> WsaError"
    and room: "length (items MAX_DB_JOB (mDbJobRequestQueue (GDatabaseJobManager w))) < MAX_DB_JOB"
  shows "\<exists>w' s'. complete_recv env op 0 (packet_bytes (LoginPacket q)) w = Some (Inr w') \<and> world_ok env w' \<and>
    sessions w' (io_session op) = Some s' \<and> view s' = view s \<and> mClientList w' = mClientList w \<and> mTaskQueue w' = mTaskQueue w \<and>
    mDbJobResultQueue (GDatabaseJobManager w') = mDbJobResultQueue (GDatabaseJobManager w) \<and>
    items MAX_DB_JOB (mDbJobRequestQueue (GDatabaseJobManager w')) = items MAX_DB_JOB (mDbJobRequestQueue (GDatabaseJobManager w)) @
      [LoadPlayer (LoadPlayerDataContext_new (mSocket s) (lr_mPlayerId q))]"
proof -
  let ?a = "io_session op" and ?bs = "packet_bytes (LoginPacket q)" and ?j = "LoadPlayer (LoadPlayerDataContext_new (mSocket s) (lr_mPlayerId q))"
  have "length ?bs = 8" using length_client_packet [OF q] by simp
  then have "?bs \<noteq> []" by (metis list.size(3) zero_neq_numeral)
  from complete_recv_reads [OF ok op this s(1,2)] s(3) obtain w2 s2 where
    w2: "unseen w w2" "sessions w2 ?a = Some s2" "world_ok env w2" "cb_ok (mRecvBuffer s2)" "contents (mRecvBuffer s2) = ?bs"
      "GDatabaseJobManager w2 = GDatabaseJobManager w" "mTaskQueue w2 = mTaskQueue w"
    and run: "complete_recv env op 0 ?bs w = then_do (OnRead_loop env ?a w2) (\<lambda>w.
        Some (rbind (PostRecv env ?a w) (\<lambda>(ok, w). if \<not> ok then Disconnect env ?a w else Inr w)))" by auto
  from w2(1) have "map_option view (sessions w2 ?a) = map_option view (sessions w ?a)" by (simp add: unseen_def)
  with s(1) w2(2) have v: "view s2 = view s" by simp
  then have v2: "mConnected s2 = mConnected s" "mSocket s2 = mSocket s" by (simp_all add: view_def)
  have "contents (mRecvBuffer s2) = packet_bytes (LoginPacket q) @ []" using w2(5) by simp
  from OnRead_turn_packet [OF w2(2,4) this q, of env] obtain rb where rb: "cb_ok rb" "contents rb = []"
    and turn: "OnRead_turn env ?a w2 = rbind (packet_effect env ?a (LoginPacket q) (set_session ?a (s2\<lparr>mRecvBuffer := rb\<rparr>) w2))
      (\<lambda>w. Inr (True, w))" by blast
  let ?w3 = "set_session ?a (s2\<lparr>mRecvBuffer := rb\<rparr>) w2"
  have "LThreadType ?w3 = THREAD_CLIENT" "manager_ok (GDatabaseJobManager ?w3)" using world_ok_pending(7,8) [OF w2(3)] by simp_all
  from PushJob_queue [OF this, of ?j] w2(6) room obtain r where
    r: "PushJob ?j ?w3 = Inr (?w3\<lparr>GDatabaseJobManager := GDatabaseJobManager w\<lparr>mDbJobRequestQueue := r\<rparr>\<rparr>)"
      "items MAX_DB_JOB r = items MAX_DB_JOB (mDbJobRequestQueue (GDatabaseJobManager w)) @ [?j]" by auto
  let ?w4 = "?w3\<lparr>GDatabaseJobManager := GDatabaseJobManager w\<lparr>mDbJobRequestQueue := r\<rparr>\<rparr>"
  have s4: "sessions ?w4 ?a = Some (s2\<lparr>mRecvBuffer := rb\<rparr>)" by simp
  have "OnRead_turn env ?a w2 = Inr (True, ?w4)"
    using turn r(1) v2 by (simp add: GetSocketKey_def get_session_def)
  moreover have "incomplete (contents (mRecvBuffer (s2\<lparr>mRecvBuffer := rb\<rparr>)))" "cb_ok (mRecvBuffer (s2\<lparr>mRecvBuffer := rb\<rparr>))"
    using rb by (simp_all add: incomplete_def sizeof_PacketHeader_def)
  note OnRead_loop_stop [OF OnRead_turn_incomplete [OF s4 this(2,1)], of env]
  ultimately have loop: "OnRead_loop env ?a w2 = Some (Inr ?w4)" by (simp add: OnRead_loop_goes_on)
  have "mConnected (s2\<lparr>mRecvBuffer := rb\<rparr>)" using v2 s(2) by simp
  from PostRecv_quiet [OF s4 this env] obtain w5 where w5: "PostRecv env ?a ?w4 = Inr (True, w5)" "mTaskQueue w5 = mTaskQueue ?w4"
    "GDatabaseJobManager w5 = GDatabaseJobManager ?w4" by blast
  from PostRecv_unseen [OF w5(1)] have u: "map_option view (sessions w5 ?a) = map_option view (sessions ?w4 ?a)" "mClientList w5 = mClientList ?w4"
    by (simp_all add: unseen_def)
  then obtain s5 where "sessions w5 ?a = Some s5" "view s5 = view (s2\<lparr>mRecvBuffer := rb\<rparr>)" using s4 by auto
  moreover have "complete_recv env op 0 ?bs w = Some (Inr w5)" using run loop w5(1) by simp
  moreover from complete_recv_safe [OF ok op, of 0] this have "world_ok env w5" by simp
  ultimately show ?thesis using w5(2,3) u(2) v r(2) w2(1,7) by (auto simp: view_def unseen_def)
qed

section \<open>The database thread answers\<close>

lemma load_answered:
  assumes m: "manager_ok m" and "items MAX_DB_JOB (mDbJobRequestQueue m) = [LoadPlayer c]" and "items MAX_DB_JOB (mDbJobResultQueue m) = []"
    and c: "job_ok (LoadPlayer c)" and row: "select_row api db (load_mPlayerId c) = Inr (SQLITE_ROW, db', st)"
    and cols: "4 \<le> sqlite3_column_count api st"
    and name: "sqlite3_column_text api st 0 = Some t" "0 \<in> set t" "length (c_string t) < MAX_NAME_LEN"
  shows "\<exists>m1 m2 n. let c' = c\<lparr>load_mPosX := sqlite3_column_double api st 1, load_mPosY := sqlite3_column_double api st 2,
        load_mPosZ := sqlite3_column_double api st 3, load_mPlayerName := n, mSuccess := True\<rparr> in
    ExecuteDatabaseJobs_step api (db, Ready, m) = Inr (db, Executing (LoadPlayer c), m1) \<and>
    ExecuteDatabaseJobs_step api (db, Executing (LoadPlayer c), m1) = Inr (sqlite3_finalize api db' st, Finished (LoadPlayer c'), m1) \<and>
    ExecuteDatabaseJobs_step api (sqlite3_finalize api db' st, Finished (LoadPlayer c'), m1) = Inr (sqlite3_finalize api db' st, Ready, m2) \<and>
    manager_ok m2 \<and> terminated MAX_NAME_LEN n \<and> c_string n = c_string t \<and>
    items MAX_DB_JOB (mDbJobRequestQueue m2) = [] \<and> items MAX_DB_JOB (mDbJobResultQueue m2) = [LoadPlayer c']"
proof -
  from m have req: "pcq_ok MAX_DB_JOB (mDbJobRequestQueue m)" and res: "pcq_ok MAX_DB_JOB (mDbJobResultQueue m)"
    by (simp_all add: manager_ok_def)
  from load_row_outcome [OF row cols c] name obtain n where
    n: "OnExecute api db (LoadPlayer c) = Inr (True, sqlite3_finalize api db' st, LoadPlayer
       (c\<lparr>load_mPosX := sqlite3_column_double api st 1, load_mPosY := sqlite3_column_double api st 2,
          load_mPosZ := sqlite3_column_double api st 3, load_mPlayerName := n\<rparr>))"
      "terminated MAX_NAME_LEN n" "c_string n = c_string t" by auto
  let ?c = "c\<lparr>load_mPosX := sqlite3_column_double api st 1, load_mPosY := sqlite3_column_double api st 2,
        load_mPosZ := sqlite3_column_double api st 3, load_mPlayerName := n, mSuccess := True\<rparr>"
  from req obtain q where q: "ExecuteDatabaseJobs_step api (db, Ready, m) = Inr (db, Executing (LoadPlayer c), m\<lparr>mDbJobRequestQueue := q\<rparr>)"
    "pcq_ok MAX_DB_JOB q" "items MAX_DB_JOB q = []"
    by (cases rule: take_request_cases [where api = api and db = db]) (use assms(2) in auto)
  let ?m = "m\<lparr>mDbJobRequestQueue := q\<rparr>"
  from res have "pcq_ok MAX_DB_JOB (mDbJobResultQueue ?m)" by simp
  then obtain q' where q': "ExecuteDatabaseJobs_step api (sqlite3_finalize api db' st, Finished (LoadPlayer ?c), ?m) =
      Inr (sqlite3_finalize api db' st, Ready, ?m\<lparr>mDbJobResultQueue := q'\<rparr>)"
    "pcq_ok MAX_DB_JOB q'" "items MAX_DB_JOB q' = [LoadPlayer ?c]"
    by (cases rule: put_result_cases [where api = api and db = "sqlite3_finalize api db' st" and j = "LoadPlayer ?c"])
      (use assms(3) in \<open>auto simp: MAX_DB_JOB_def\<close>)
  have "manager_ok (?m\<lparr>mDbJobResultQueue := q'\<rparr>)" using m q(2,3) q'(2,3) n(2) by (simp add: manager_ok_def)
  then show ?thesis
    using n q q' by (intro exI [of _ ?m] exI [of _ "?m\<lparr>mDbJobResultQueue := q'\<rparr>"] exI [of _ n]) (simp add: Let_def execute_step)
qed

section \<open>The timer dispatches the answer\<close>

lemma delete_sessions_keeps:
  "delete_sessions cs w = Inr w' \<Longrightarrow> GDatabaseJobManager w' = GDatabaseJobManager w \<and> mTaskQueue w' = mTaskQueue w"
  by (induction cs arbitrary: w) (fastforce simp: delete_session_def rbind_eq_Inr Let_def)+

lemma period_dispatches:
  assumes ok: "world_ok env w" and a: "(mSocket s, a) \<in> set (mClientList w)" "sessions w a = Some s" "mConnected s"
  shows "\<exists>w'. OnPeriodWork env w = DispatchDatabaseJobResults env w' \<and> world_ok env w' \<and> (mSocket s, a) \<in> set (mClientList w') \<and>
    sessions w' a = Some s \<and> GDatabaseJobManager w' = GDatabaseJobManager w"
proof -
  let ?t = "os_GetTickCount env (calls w)"
  note 1 = fine_ok [OF fine_sys_call [OF ok]]
  from CollectGarbageSessions_spec [OF 1] a obtain w1 where
    w1: "CollectGarbageSessions (sys_call w) = Inr w1" "world_ok env w1" "sessions w1 a = Some s"
      "(mSocket s, a) \<in> set (mClientList w1)" by (auto simp: collectable_def)
  from w1(1) have "GDatabaseJobManager w1 = GDatabaseJobManager w"
    by (auto simp: CollectGarbageSessions_def rbind_eq_Inr dest: delete_sessions_keeps)
  with 1 w1 a fine_cong_ok [OF w1(2)] show ?thesis
    by (cases "?t - mLastGCTick w \<ge> 1000") (auto simp: OnPeriodWork_def Let_def)
qed

lemma login_dispatched:
  assumes ok: "world_ok env w" and a: "(mSocket s, a) \<in> set (mClientList w)" "sessions w a = Some s" "mConnected s"
    and res: "items MAX_DB_JOB (mDbJobResultQueue (GDatabaseJobManager w)) = [LoadPlayer c]" "mSuccess c" "mSockKey c = mSocket s"
    and req: "items MAX_DB_JOB (mDbJobRequestQueue (GDatabaseJobManager w)) = []"
    and fits: "sizeof_LoginResult \<le> room (mSendBuffer s)" and pid: "load_mPlayerId c \<noteq> -1"
  shows "\<exists>w' s' p. DispatchDatabaseJobResults env w = Some (Inr w') \<and> sessions w' a = Some s' \<and>
    mLogon s' \<and> mPlayerId s' = load_mPlayerId c \<and> mPosX s' = float_of_double env (load_mPosX c) \<and>
    mPosY s' = float_of_double env (load_mPosY c) \<and> c_string (mPlayerName s') = c_string (load_mPlayerName c) \<and>
    contents (mSendBuffer s') = contents (mSendBuffer s) @ LoginResult_bytes p \<and> ls_mPlayerId p = load_mPlayerId c \<and>
    server_packet_ok (LoginPacketResult p)"
proof -
  let ?m = "GDatabaseJobManager w"
  note thread = world_ok_pending(7) [OF ok]
  have man: "manager_ok ?m" by (rule world_ok_pending(8) [OF ok])
  then have "pcq_ok MAX_DB_JOB (mDbJobResultQueue ?m)" by (simp add: manager_ok_def)
  then obtain q where pop: "PopDatabaseJobResult THREAD_CLIENT ?m = Inr (Some (LoadPlayer c), ?m\<lparr>mDbJobResultQueue := q\<rparr>)"
      "pcq_ok MAX_DB_JOB q" and empty: "items MAX_DB_JOB q = []"
    by (cases rule: PopDatabaseJobResult_cases) (use res(1) in auto)
  let ?w1 = "w\<lparr>GDatabaseJobManager := ?m\<lparr>mDbJobResultQueue := q\<rparr>\<rparr>"
  have c: "terminated MAX_NAME_LEN (load_mPlayerName c)" using man res(1) by (simp add: manager_ok_def)
  have "manager_ok (?m\<lparr>mDbJobResultQueue := q\<rparr>)" using man pop(2) empty by (simp add: manager_ok_def)
  then have ok1: "world_ok env ?w1" by (rule world_ok_manager [OF ok])
  have "items MAX_DB_JOB (mDbJobRequestQueue (GDatabaseJobManager ?w1)) = []" using req by simp
  then have "length (items MAX_DB_JOB (mDbJobRequestQueue (GDatabaseJobManager ?w1))) < MAX_DB_JOB" by (simp add: MAX_DB_JOB_def)
  from LoginDone_spec [OF ok1 _ a(3) c fits this, of a "load_mPlayerId c"] a(2) obtain w2 s2 p where
    w2: "LoginDone env a (load_mPlayerId c) (float_of_double env (load_mPosX c)) (float_of_double env (load_mPosY c))
        (load_mPlayerName c) ?w1 = Inr w2" "sessions w2 a = Some s2" "mLogon s2" "mPlayerId s2 = load_mPlayerId c"
      "mPosX s2 = float_of_double env (load_mPosX c)" "mPosY s2 = float_of_double env (load_mPosY c)"
      "c_string (mPlayerName s2) = c_string (load_mPlayerName c)"
      "contents (mSendBuffer s2) = contents (mSendBuffer s) @ LoginResult_bytes p" "ls_mPlayerId p = load_mPlayerId c"
      "mSize p = 46" "mType p = pkt_short PKT_SC_LOGIN" "terminated MAX_NAME_LEN (ls_mName p)" by fastforce
  have "a \<in> dom (sessions ?w1)" using a(2) by auto
  from LoginDone_safe [OF ok1 this c] w2(1) have "fine env ?w1 w2" by (metis safe_Inr)
  then have "items MAX_DB_JOB (mDbJobResultQueue (GDatabaseJobManager w2)) = []" "world_ok env w2"
    using empty by (simp_all add: fine_def keeps_def)
  with Dispatch_turn [OF this(2)] have "PopDatabaseJobResult (LThreadType w2) (GDatabaseJobManager w2) = Inr (None, GDatabaseJobManager w2)"
    by auto
  then have stop: "DispatchDatabaseJobResults env w2 = Some (Inr w2)" by (subst DispatchDatabaseJobResults.simps) simp
  from map_ok_map_of [OF world_ok_pending(6) [OF ok]] a(1) have "map_of (mClientList w) (mSocket s) = Some a" by blast
  with w2(1) a res(2,3) have "dispatch_result env (LoadPlayer c) ?w1 = Inr w2"
    by (simp add: dispatch_result_def IsConnected_def DatabaseJobDone_def get_session_def)
  with pop(1) stop thread have "DispatchDatabaseJobResults env w = Some (Inr w2)" by (subst DispatchDatabaseJobResults.simps) simp
  moreover have "server_packet_ok (LoginPacketResult p)"
    using w2(9-12) pid by (simp add: LoginResult_init_def sizeof_LoginResult_def MAX_NAME_LEN_def)
  ultimately show ?thesis using w2 by blast
qed

lemma TimerProc_idle:
  assumes "world_ok env w" and "mTaskQueue w = []"
  shows "TimerProc env w = OnPeriodWork env ((sys_call w)\<lparr>mCurrentTick := os_GetTickCount env (calls w)\<rparr>)"
  using assms(2) world_ok_pending(7) [OF assms(1)]
  by (simp add: TimerProc_def DoTasks_def DoTasks_loop_stop)

lemma timer_answers_login:
  assumes ok: "world_ok env w" and a: "(mSocket s, a) \<in> set (mClientList w)" "sessions w a = Some s" "mConnected s"
    and idle: "mTaskQueue w = []"
    and res: "items MAX_DB_JOB (mDbJobResultQueue (GDatabaseJobManager w)) = [LoadPlayer c]" "mSuccess c" "mSockKey c = mSocket s"
    and req: "items MAX_DB_JOB (mDbJobRequestQueue (GDatabaseJobManager w)) = []"
    and fits: "sizeof_LoginResult \<le> room (mSendBuffer s)" and pid: "load_mPlayerId c \<noteq> -1"
  shows "\<exists>w' s' p. TimerProc env w = Some (Inr w') \<and> sessions w' a = Some s' \<and>
    mLogon s' \<and> mPlayerId s' = load_mPlayerId c \<and> mPosX s' = float_of_double env (load_mPosX c) \<and>
    mPosY s' = float_of_double env (load_mPosY c) \<and> c_string (mPlayerName s') = c_string (load_mPlayerName c) \<and>
    contents (mSendBuffer s') = contents (mSendBuffer s) @ LoginResult_bytes p \<and> ls_mPlayerId p = load_mPlayerId c \<and>
    server_packet_ok (LoginPacketResult p)"
proof -
  let ?w = "(sys_call w)\<lparr>mCurrentTick := os_GetTickCount env (calls w)\<rparr>"
  have "world_ok env ?w" using world_ok_tick [OF fine_ok [OF fine_sys_call [OF ok]]] .
  from period_dispatches [OF this, of s a] a obtain w1 where
    w1: "OnPeriodWork env ?w = DispatchDatabaseJobResults env w1" "world_ok env w1" "(mSocket s, a) \<in> set (mClientList w1)"
      "sessions w1 a = Some s" "GDatabaseJobManager w1 = GDatabaseJobManager w" by auto
  from login_dispatched [OF w1(2-4) a(3) _ res(2,3) _ fits pid] w1(5) res(1) req TimerProc_idle [OF ok idle] w1(1)
  show ?thesis by metis
qed

section \<open>A login at the server\<close>

definition server_moves :: "environment \<Rightarrow> ('db, 'stmt) sqlite_api \<Rightarrow> 'db server \<Rightarrow> server_action \<Rightarrow> 'db server \<Rightarrow> bool" where
  "server_moves env api S a S' \<longleftrightarrow> enabled a S \<and> server_act env api a S = Some (Inr S')"

lemma login_at_server:
  assumes ok: "world_ok env (client S)" and idle: "client_pc S \<noteq> AtLoopTop" "db_worker S = Ready" "mTaskQueue (client S) = []"
      "items MAX_DB_JOB (mDbJobRequestQueue (GDatabaseJobManager (client S))) = []"
      "items MAX_DB_JOB (mDbJobResultQueue (GDatabaseJobManager (client S))) = []"
    and op: "op \<in> set (pending_recv (client S))" "length (packet_bytes (LoginPacket q)) \<le> io_length op"
    and s: "sessions (client S) (io_session op) = Some s" "mConnected s" "contents (mRecvBuffer s) = []"
      "(mSocket s, io_session op) \<in> set (mClientList (client S))" "sizeof_LoginResult \<le> room (mSendBuffer s)"
    and q: "packet_ok (LoginPacket q)" "lr_mPlayerId q \<noteq> -1" and env: "\<forall>k. os_WSARecv env k \<noteq> WsaError"
    and row: "select_row api (server_db S) (lr_mPlayerId q) = Inr (SQLITE_ROW, db', st)" "4 \<le> sqlite3_column_count api st"
      "sqlite3_column_text api st 0 = Some t" "0 \<in> set t" "length (c_string t) < MAX_NAME_LEN"
  shows "\<exists>S' s' p. event_run (server_moves env api) S
      [RecvApc op 0 (packet_bytes (LoginPacket q)), DatabaseTurn, DatabaseTurn, DatabaseTurn, TimerApc] S' \<and>
    sessions (client S') (io_session op) = Some s' \<and> mLogon s' \<and> mPlayerId s' = lr_mPlayerId q \<and>
    mPosX s' = float_of_double env (sqlite3_column_double api st 1) \<and> mPosY s' = float_of_double env (sqlite3_column_double api st 2) \<and>
    c_string (mPlayerName s') = c_string t \<and> contents (mSendBuffer s') = contents (mSendBuffer s) @ LoginResult_bytes p \<and>
    ls_mPlayerId p = lr_mPlayerId q \<and> server_packet_ok (LoginPacketResult p)"
proof -
  let ?bs = "packet_bytes (LoginPacket q)" and ?c = "LoadPlayerDataContext_new (mSocket s) (lr_mPlayerId q)"
  let ?loaded = "\<lambda>n. ?c\<lparr>load_mPosX := sqlite3_column_double api st 1, load_mPosY := sqlite3_column_double api st 2,
    load_mPosZ := sqlite3_column_double api st 3, load_mPlayerName := n, mSuccess := True\<rparr>"
  have "length (items MAX_DB_JOB (mDbJobRequestQueue (GDatabaseJobManager (client S)))) < MAX_DB_JOB"
    using idle(4) by (simp add: MAX_DB_JOB_def)
  from login_received [OF ok op s(1-3) q(1) env this] idle(3-5) obtain w1 s1 where
    w1: "complete_recv env op 0 ?bs (client S) = Some (Inr w1)" "world_ok env w1" "sessions w1 (io_session op) = Some s1"
      "view s1 = view s" "mClientList w1 = mClientList (client S)" "mTaskQueue w1 = []"
      "items MAX_DB_JOB (mDbJobResultQueue (GDatabaseJobManager w1)) = []"
      "items MAX_DB_JOB (mDbJobRequestQueue (GDatabaseJobManager w1)) = [LoadPlayer ?c]" by auto
  from w1(4) have s1: "mSocket s1 = mSocket s" "mConnected s1 = mConnected s" "mSendBuffer s1 = mSendBuffer s" by (simp_all add: view_def)
  have c: "job_ok (LoadPlayer ?c)" "select_row api (server_db S) (load_mPlayerId ?c) = Inr (SQLITE_ROW, db', st)"
    using row(1) by (simp_all add: LoadPlayerDataContext_new_def terminated_def MAX_NAME_LEN_def)
  from load_answered [OF world_ok_pending(8) [OF w1(2)] w1(8,7) c row(2-5), unfolded Let_def] obtain m1 m2 n where
    steps: "ExecuteDatabaseJobs_step api (server_db S, Ready, GDatabaseJobManager w1) = Inr (server_db S, Executing (LoadPlayer ?c), m1)"
      "ExecuteDatabaseJobs_step api (server_db S, Executing (LoadPlayer ?c), m1) =
        Inr (sqlite3_finalize api db' st, Finished (LoadPlayer (?loaded n)), m1)"
      "ExecuteDatabaseJobs_step api (sqlite3_finalize api db' st, Finished (LoadPlayer (?loaded n)), m1) =
        Inr (sqlite3_finalize api db' st, Ready, m2)"
    and m: "manager_ok m2" "c_string n = c_string t" "items MAX_DB_JOB (mDbJobRequestQueue m2) = []"
      "items MAX_DB_JOB (mDbJobResultQueue m2) = [LoadPlayer (?loaded n)]" by blast
  let ?w = "w1\<lparr>GDatabaseJobManager := m2\<rparr>"
  have w: "world_ok env ?w" "(mSocket s1, io_session op) \<in> set (mClientList ?w)" "sessions ?w (io_session op) = Some s1" "mConnected s1"
      "mTaskQueue ?w = []" "items MAX_DB_JOB (mDbJobResultQueue (GDatabaseJobManager ?w)) = [LoadPlayer (?loaded n)]"
      "items MAX_DB_JOB (mDbJobRequestQueue (GDatabaseJobManager ?w)) = []" "sizeof_LoginResult \<le> room (mSendBuffer s1)"
    using world_ok_manager [OF w1(2) m(1)] w1(3,5,6) m(3,4) s(2,4,5) s1 by simp_all
  have loaded: "mSuccess (?loaded n)" "mSockKey (?loaded n) = mSocket s1" "load_mPlayerId (?loaded n) = lr_mPlayerId q"
    using s1(1) by (simp_all add: LoadPlayerDataContext_new_def)
  from timer_answers_login [OF w(1-6) loaded(1,2) w(7,8)] q(2) obtain w' s' p where
    w': "TimerProc env ?w = Some (Inr w')" "sessions w' (io_session op) = Some s'" "mLogon s'" "mPlayerId s' = lr_mPlayerId q"
      "mPosX s' = float_of_double env (sqlite3_column_double api st 1)" "mPosY s' = float_of_double env (sqlite3_column_double api st 2)"
      "c_string (mPlayerName s') = c_string t" "contents (mSendBuffer s') = contents (mSendBuffer s) @ LoginResult_bytes p"
      "ls_mPlayerId p = lr_mPlayerId q" "server_packet_ok (LoginPacketResult p)"
    unfolding loaded(3) using s1(3) m(2) by auto
  let ?S = "S\<lparr>client := w', client_pc := Awake, server_db := sqlite3_finalize api db' st, db_worker := Ready\<rparr>"
  have "event_run (server_moves env api) S [RecvApc op 0 ?bs, DatabaseTurn, DatabaseTurn, DatabaseTurn, TimerApc] ?S"
    using idle(1,2) op w1(1) steps w'(1) by (simp add: server_moves_def after_apc_def)
  with w'(2-) show ?thesis by (intro exI [of _ ?S] exI [of _ s'] exI [of _ p]) simp
qed

section \<open>The round trip\<close>

lemma drawn_id: "1000 + of_nat (k mod 101) \<noteq> (-1 :: int32)"
proof
  define j where "j = k mod 101"
  assume "1000 + of_nat (k mod 101) = (-1 :: int32)"
  then have "of_nat j = (-1 :: int32) - 1000" unfolding j_def by (metis add_diff_cancel_left')
  then have "unat (of_nat j :: int32) = unat ((-1 :: int32) - 1000)" by (rule arg_cong)
  then have "j mod 2 ^ 32 = 4294966295" by (simp add: unat_of_nat)
  moreover have "j < 101" by (simp add: j_def)
  ultimately show False by simp
qed



end
