(* ===== verification/Hello_World_Scene.thy ===== *)
theory Hello_World_Scene
  imports Client_Properties
begin

text \<open>
  The scene of the game client: \<open>Cocos2dxGameClient/Classes/HelloWorldScene.h\<close>, \<open>HelloWorldScene.cpp\<close>,
  the application delegate \<open>AppDelegate.h\<close>, \<open>AppDelegate.cpp\<close>, and \<open>proj.win32/main.cpp\<close>. The engine is not part of the
  repository: its nodes are addresses with a position, what it answers is an environment, and
  floating-point operations are the environment's too.
\<close>

section \<open>The engine\<close>

record cocos_env =
  initWithColor :: bool
  visibleSize :: "float32 \<times> float32"
  visibleOrigin :: "float32 \<times> float32"
  winSize :: "float32 \<times> float32"
  node_created :: "string \<Rightarrow> bool"
  content_size :: "string \<Rightarrow> float32 \<times> float32"
  new_node :: "nat set \<Rightarrow> nat"
  fadd :: "float32 \<Rightarrow> float32 \<Rightarrow> float32"
  fsub :: "float32 \<Rightarrow> float32 \<Rightarrow> float32"
  fdiv :: "float32 \<Rightarrow> float32 \<Rightarrow> float32"

text \<open>The bits of the \<open>float\<close> constants 1, 2 and 10.\<close>

definition f_one :: float32 where "f_one = 0x3F800000"
definition f_two :: float32 where "f_two = 0x40000000"
definition f_ten :: float32 where "f_ten = 0x41200000"

text \<open>
  A layer of class \<open>HelloWorld\<close>: its two fields, the nodes that exist with their positions, its
  children with their order, the items of its menu, what is scheduled, and the flags it has set.
\<close>

record layer =
  mPlayerSprite :: "nat option"
  mPeerMap :: "(int \<times> nat) list"
  nodes :: "nat \<rightharpoonup> float32 \<times> float32"
  children :: "(nat \<times> int) list"
  menu_items :: "(nat \<times> nat) list"
  retained :: "nat list"
  schedules :: "(string \<times> float32) list"
  keyboardEnabled :: bool
  director_ended :: bool

definition layer_new :: layer where
  "layer_new = \<lparr>mPlayerSprite = None, mPeerMap = [], nodes = Map.empty, children = [], menu_items = [],
     retained = [], schedules = [], keyboardEnabled = False, director_ended = False\<rparr>"

text \<open>\<open>create\<close> of a node class: a null pointer when the engine cannot make it.\<close>

definition create_node :: "cocos_env \<Rightarrow> string \<Rightarrow> layer \<Rightarrow> nat option \<times> layer" where
  "create_node env name l =
     (if node_created env name
      then let a = new_node env (dom (nodes l)) in (Some a, l\<lparr>nodes := (nodes l)(a \<mapsto> (0, 0))\<rparr>)
      else (None, l))"

definition getPosition :: "nat \<Rightarrow> layer \<Rightarrow> (float32 \<times> float32) res" where
  "getPosition a l = (case nodes l a of None \<Rightarrow> Inl DanglingPointer | Some p \<Rightarrow> Inr p)"

definition setPosition :: "nat \<Rightarrow> float32 \<Rightarrow> float32 \<Rightarrow> layer \<Rightarrow> layer res" where
  "setPosition a x y l = rbind (getPosition a l) (\<lambda>_. Inr (l\<lparr>nodes := (nodes l)(a \<mapsto> (x, y))\<rparr>))"

definition setPositionX :: "nat \<Rightarrow> float32 \<Rightarrow> layer \<Rightarrow> layer res" where
  "setPositionX a x l = rbind (getPosition a l) (\<lambda>(_, y). setPosition a x y l)"

definition setPositionY :: "nat \<Rightarrow> float32 \<Rightarrow> layer \<Rightarrow> layer res" where
  "setPositionY a y l = rbind (getPosition a l) (\<lambda>(x, _). setPosition a x y l)"

definition addChild :: "nat \<Rightarrow> int \<Rightarrow> layer \<Rightarrow> layer" where
  "addChild a z l = l\<lparr>children := children l @ [(a, z)]\<rparr>"

definition removeChild :: "nat \<Rightarrow> layer \<Rightarrow> layer" where
  "removeChild a l = l\<lparr>children := filter (\<lambda>e. fst e \<noteq> a) (children l)\<rparr>"

section \<open>The scene\<close>

definition HelloWorld_init :: "cocos_env \<Rightarrow> layer \<Rightarrow> (bool \<times> layer) res" where
  "HelloWorld_init env l =
     (if \<not> initWithColor env then Inr (False, l)
      else
        let (closeItem, l) = create_node env ''CloseNormal.png'' l in
        rbind (deref closeItem) (\<lambda>closeItem.
        let (cw, ch) = content_size env ''CloseNormal.png'';
            x = fsub env (fadd env (fst (visibleOrigin env)) (fst (visibleSize env))) (fdiv env cw f_two);
            y = fadd env (snd (visibleOrigin env)) (fdiv env ch f_two) in
        rbind (setPosition closeItem x y l) (\<lambda>l.
        let (menu, l) = create_node env ''Menu'' l in
        rbind (deref menu) (\<lambda>menu.
        let l = l\<lparr>menu_items := menu_items l @ [(menu, closeItem)]\<rparr> in
        rbind (setPosition menu 0 0 l) (\<lambda>l.
        let l = addChild menu 1 l; (sprite, l) = create_node env ''Player.png'' l; l = l\<lparr>mPlayerSprite := sprite\<rparr> in
        rbind (deref sprite) (\<lambda>sprite.
        rbind (setPosition sprite (fdiv env (fst (content_size env ''Player.png'')) f_two)
                 (fdiv env (snd (winSize env)) f_two) l) (\<lambda>l.
        let l = addChild sprite 0 l;
            l = l\<lparr>retained := retained l @ [sprite]\<rparr>;
            l = l\<lparr>schedules := schedules l @ [(''gameLogic'', f_one)]\<rparr>
        in Inr (True, l\<lparr>keyboardEnabled := True\<rparr>))))))))"

text \<open>
  \<open>createScene\<close>: \<open>create\<close> gives a null pointer when \<open>init\<close> fails, and adding a null child is an
  assertion of the engine. The scene is its children, each with its order and name.
\<close>

definition createScene :: "cocos_env \<Rightarrow> ((layer \<times> int \<times> string) list) res" where
  "createScene env =
     rbind (HelloWorld_init env layer_new) (\<lambda>(ok, l).
     rbind (C_assert ok) (\<lambda>_. Inr [(l, 1, ''base_layer'')]))"

definition menuCloseCallback :: "layer \<Rightarrow> layer" where
  "menuCloseCallback l = l\<lparr>director_ended := True\<rparr>"

definition spriteMoveFinished :: "nat \<Rightarrow> layer \<Rightarrow> layer" where
  "spriteMoveFinished sender l = removeChild sender l"

definition gameLogic :: "float32 \<Rightarrow> layer \<Rightarrow> layer" where
  "gameLogic dt l = l"

definition updateMe :: "float32 \<Rightarrow> float32 \<Rightarrow> layer \<Rightarrow> layer res" where
  "updateMe x y l = rbind (deref (mPlayerSprite l)) (\<lambda>a. setPosition a x y l)"

definition updatePeer :: "cocos_env \<Rightarrow> int32 \<Rightarrow> float32 \<Rightarrow> float32 \<Rightarrow> layer \<Rightarrow> layer res" where
  "updatePeer env pid x y l =
     (case map_of (mPeerMap l) (sint pid) of
        None \<Rightarrow>
          let (newPeer, l) = create_node env ''Target.png'' l in
          rbind (deref newPeer) (\<lambda>newPeer.
          rbind (setPositionX newPeer x l) (\<lambda>l.
          rbind (setPositionY newPeer y l) (\<lambda>l.
          let l = addChild newPeer 0 l
          in Inr (l\<lparr>mPeerMap := map_insert (sint pid) newPeer (mPeerMap l)\<rparr>))))
      | Some peer \<Rightarrow> rbind (setPositionX peer x l) (setPositionY peer y))"

text \<open>\<open>chatDraw\<close> only writes to the log.\<close>

definition chatDraw :: "byte list \<Rightarrow> byte list \<Rightarrow> layer \<Rightarrow> layer" where
  "chatDraw sender chat l = l"

section \<open>The functions posted by the network thread\<close>

fun run_call :: "cocos_env \<Rightarrow> cocos_call \<Rightarrow> layer \<Rightarrow> layer res" where
  "run_call env (chatDraw_call this sender chat) l = rbind (deref this) (\<lambda>_. Inr (chatDraw sender chat l))"
| "run_call env (updateMe_call this x y) l = rbind (deref this) (\<lambda>_. updateMe x y l)"
| "run_call env (updatePeer_call this pid x y) l = rbind (deref this) (\<lambda>_. updatePeer env pid x y l)"

fun run_calls :: "cocos_env \<Rightarrow> cocos_call list \<Rightarrow> layer \<Rightarrow> layer res" where
  "run_calls env [] l = Inr l"
| "run_calls env (f # fs) l = rbind (run_call env f l) (run_calls env fs)"

section \<open>Keys\<close>

datatype KeyCode = KEY_UP_ARROW | KEY_DOWN_ARROW | KEY_LEFT_ARROW | KEY_RIGHT_ARROW | KEY_L | KEY_C | KEY_OTHER nat

definition client_literal :: "string \<Rightarrow> byte list" where
  "client_literal s = map of_char s @ [0]"

text \<open>The position of the player's sprite with an offset, and a request on the singleton.\<close>

definition player_position :: "layer \<Rightarrow> (float32 \<times> float32) res" where
  "player_position l = rbind (deref (mPlayerSprite l)) (\<lambda>a. getPosition a l)"

definition with_instance ::
    "client_env \<Rightarrow> (nat \<Rightarrow> client_world \<Rightarrow> client_world res option) \<Rightarrow> client_world \<Rightarrow> client_world res option" where
  "with_instance cenv f w =
     then_do (Some (getInstance cenv w)) (\<lambda>(inst, w).
     then_do (Some (deref inst)) (\<lambda>a. f a w))"

definition onKeyPressed :: "KeyCode \<Rightarrow> layer \<Rightarrow> layer" where
  "onKeyPressed keyCode l = l"

definition onKeyReleased :: "cocos_env \<Rightarrow> client_env \<Rightarrow> KeyCode \<Rightarrow> layer \<Rightarrow> client_world \<Rightarrow> client_world res option" where
  "onKeyReleased env cenv keyCode l w =
     (let move = (\<lambda>f. with_instance cenv (\<lambda>this w.
            then_do (Some (player_position l)) (\<lambda>p. case f p of (x, y) \<Rightarrow> moveRequest cenv this x y w)) w) in
      case keyCode of
        KEY_UP_ARROW \<Rightarrow> move (\<lambda>(x, y). (x, fadd env y f_ten))
      | KEY_DOWN_ARROW \<Rightarrow> move (\<lambda>(x, y). (x, fsub env y f_ten))
      | KEY_LEFT_ARROW \<Rightarrow> move (\<lambda>(x, y). (fsub env x f_ten, y))
      | KEY_RIGHT_ARROW \<Rightarrow> move (\<lambda>(x, y). (fadd env x f_ten, y))
      | KEY_L \<Rightarrow> with_instance cenv (loginRequest cenv) w
      | KEY_C \<Rightarrow> with_instance cenv (\<lambda>this. chatRequest cenv this (client_literal '' - HELLO~~ THIS IS TEST...'')) w
      | KEY_OTHER _ \<Rightarrow> Some (Inr w))"

section \<open>The application\<close>

text \<open>The director: its view, what it shows and whether it animates.\<close>

record director =
  glview :: "string option"
  displayStats :: bool
  animationInterval :: float64
  runningScene :: "(layer \<times> int \<times> string) list option"
  animating :: bool

text \<open>The double closest to one sixtieth.\<close>

definition SIXTIETH :: float64 where "SIXTIETH = 0x3F91111111111111"

definition applicationDidFinishLaunching :: "cocos_env \<Rightarrow> director \<Rightarrow> (bool \<times> director) res" where
  "applicationDidFinishLaunching env d =
     (let d = (if glview d = None then d\<lparr>glview := Some ''My Game''\<rparr> else d);
          d = d\<lparr>displayStats := True\<rparr>;
          d = d\<lparr>animationInterval := SIXTIETH\<rparr> in
      rbind (createScene env) (\<lambda>scene.
      Inr (True, d\<lparr>runningScene := Some scene\<rparr>)))"

definition applicationDidEnterBackground :: "director \<Rightarrow> director" where
  "applicationDidEnterBackground d = d\<lparr>animating := False\<rparr>"

definition applicationWillEnterForeground :: "director \<Rightarrow> director" where
  "applicationWillEnterForeground d = d\<lparr>animating := True\<rparr>"

text \<open>
  The class \<open>AppDelegate\<close> by the functions it overrides, through which the engine calls it. \<open>run\<close> is
  the loop of the engine, a parameter: what it makes of the application is what \<open>_tWinMain\<close> returns.
\<close>

record app_delegate =
  didFinishLaunching :: "director \<Rightarrow> (bool \<times> director) res"
  didEnterBackground :: "director \<Rightarrow> director"
  willEnterForeground :: "director \<Rightarrow> director"

definition AppDelegate :: "cocos_env \<Rightarrow> app_delegate" where
  "AppDelegate env = \<lparr>didFinishLaunching = applicationDidFinishLaunching env,
     didEnterBackground = applicationDidEnterBackground, willEnterForeground = applicationWillEnterForeground\<rparr>"

definition WinMain :: "(app_delegate \<Rightarrow> 'r) \<Rightarrow> cocos_env \<Rightarrow> 'r" where
  "WinMain run env = (let app = AppDelegate env in run app)"

section \<open>What the scene shows\<close>

text \<open>
  The player's sprite and the peers' sprites are different live nodes, and every peer is a child of the
  layer.
\<close>

definition layer_ok :: "layer \<Rightarrow> bool" where
  "layer_ok l \<longleftrightarrow>
     map_ok (mPeerMap l) \<and> finite (dom (nodes l)) \<and>
     (\<exists>a. mPlayerSprite l = Some a \<and> a \<in> dom (nodes l) \<and> a \<notin> snd ` set (mPeerMap l)) \<and>
     (\<forall>p \<in> snd ` set (mPeerMap l). p \<in> dom (nodes l) \<and> p \<in> fst ` set (children l)) \<and>
     distinct (map snd (mPeerMap l))"

definition cocos_ok :: "cocos_env \<Rightarrow> bool" where
  "cocos_ok env \<longleftrightarrow> (\<forall>name. node_created env name) \<and> (\<forall>live. finite live \<longrightarrow> new_node env live \<notin> live)"

text \<open>The positions on the screen: the player's, and those of the peers by their id.\<close>

definition my_position :: "layer \<Rightarrow> (float32 \<times> float32) option" where
  "my_position l = (case mPlayerSprite l of None \<Rightarrow> None | Some a \<Rightarrow> nodes l a)"

definition peer_position :: "layer \<Rightarrow> int \<rightharpoonup> float32 \<times> float32" where
  "peer_position l k = (case map_of (mPeerMap l) k of None \<Rightarrow> None | Some a \<Rightarrow> nodes l a)"

text \<open>The specification: the positions that the posted functions ask for.\<close>

fun place :: "cocos_call \<Rightarrow> (float32 \<times> float32) option \<times> (int \<rightharpoonup> float32 \<times> float32) \<Rightarrow>
    (float32 \<times> float32) option \<times> (int \<rightharpoonup> float32 \<times> float32)" where
  "place (chatDraw_call this sender chat) v = v"
| "place (updateMe_call this x y) v = (Some (x, y), snd v)"
| "place (updatePeer_call this pid x y) v = (fst v, (snd v)(sint pid \<mapsto> (x, y)))"

fun call_layer :: "cocos_call \<Rightarrow> nat option" where
  "call_layer (chatDraw_call this sender chat) = this"
| "call_layer (updateMe_call this x y) = this"
| "call_layer (updatePeer_call this pid x y) = this"

lemma getPosition_live [simp]: "nodes l a = Some p \<Longrightarrow> getPosition a l = Inr p"
  by (simp add: getPosition_def)

lemma peer_nodes_distinct:
  assumes "layer_ok l" and "map_of (mPeerMap l) k = Some a" and "map_of (mPeerMap l) k' = Some a"
  shows "k = k'"
proof -
  have "(k, a) \<in> set (mPeerMap l)" "(k', a) \<in> set (mPeerMap l)" using assms(2,3) by (auto dest: map_of_SomeD)
  moreover have "inj_on snd (set (mPeerMap l))" "distinct (map snd (mPeerMap l))"
    using assms(1) by (auto simp: layer_ok_def distinct_map)
  ultimately show ?thesis using inj_onD [of snd "set (mPeerMap l)" "(k, a)" "(k', a)"] by simp
qed

lemma move_node:
  assumes "layer_ok l" and "a \<in> dom (nodes l)"
  shows "layer_ok (l\<lparr>nodes := (nodes l)(a \<mapsto> p)\<rparr>)"
  using assms by (auto simp: layer_ok_def)

lemma updateMe_places:
  assumes "layer_ok l"
  shows "\<exists>l'. updateMe x y l = Inr l' \<and> layer_ok l' \<and> my_position l' = Some (x, y) \<and> peer_position l' = peer_position l"
proof -
  from assms obtain a p where a: "mPlayerSprite l = Some a" "nodes l a = Some p" "a \<notin> snd ` set (mPeerMap l)"
    by (auto simp: layer_ok_def)
  let ?l = "l\<lparr>nodes := (nodes l)(a \<mapsto> (x, y))\<rparr>"
  have "updateMe x y l = Inr ?l" using a by (simp add: updateMe_def setPosition_def)
  moreover have "peer_position ?l = peer_position l"
  proof
    fix k
    have "map_of (mPeerMap l) k \<noteq> Some a" using a(3) by (force dest: map_of_SomeD)
    then show "peer_position ?l k = peer_position l k" by (simp add: peer_position_def split: option.splits)
  qed
  moreover have "my_position ?l = Some (x, y)" using a(1) by (simp add: my_position_def)
  ultimately show ?thesis using a(2) move_node [OF assms, of a "(x, y)"] by blast
qed

lemma updatePeer_known:
  assumes "layer_ok l" and "map_of (mPeerMap l) (sint pid) = Some a"
  shows "\<exists>l'. updatePeer env pid x y l = Inr l' \<and> layer_ok l' \<and> my_position l' = my_position l \<and>
    peer_position l' = (peer_position l)(sint pid \<mapsto> (x, y))"
proof -
  from assms(2) have mem: "a \<in> snd ` set (mPeerMap l)" by (force dest: map_of_SomeD)
  with assms(1) have "a \<in> dom (nodes l)" unfolding layer_ok_def by blast
  moreover have "mPlayerSprite l \<noteq> Some a" using assms(1) mem unfolding layer_ok_def by (metis option.inject)
  ultimately obtain px py where a: "nodes l a = Some (px, py)" "mPlayerSprite l \<noteq> Some a" by auto
  let ?l = "l\<lparr>nodes := (nodes l)(a \<mapsto> (x, y))\<rparr>"
  have "updatePeer env pid x y l = Inr ?l"
    using a assms(2) by (simp add: updatePeer_def setPositionX_def setPositionY_def setPosition_def)
  moreover have "my_position ?l = my_position l"
    using a(2) by (simp add: my_position_def split: option.splits)
  moreover have "peer_position ?l = (peer_position l)(sint pid \<mapsto> (x, y))"
  proof
    fix k show "peer_position ?l k = ((peer_position l)(sint pid \<mapsto> (x, y))) k"
    proof (cases "k = sint pid")
      case False
      then have "map_of (mPeerMap l) k \<noteq> Some a" using peer_nodes_distinct [OF assms, of k] by blast
      with False show ?thesis by (simp add: peer_position_def split: option.splits)
    qed (use assms(2) in \<open>simp add: peer_position_def\<close>)
  qed
  moreover have "a \<in> dom (nodes l)" using a(1) by blast
  ultimately show ?thesis using move_node [OF assms(1), of a "(x, y)"] by blast
qed

lemma distinct_map_insert:
  "distinct (map snd m) \<Longrightarrow> v \<notin> snd ` set m \<Longrightarrow> k \<notin> fst ` set m \<Longrightarrow> distinct (map snd (map_insert k v m))"
  by (induction k v m rule: map_insert.induct) (auto simp: set_map_insert_fresh)

lemma updatePeer_unknown:
  assumes "layer_ok l" and "cocos_ok env" and "map_of (mPeerMap l) (sint pid) = None"
  shows "\<exists>l'. updatePeer env pid x y l = Inr l' \<and> layer_ok l' \<and> my_position l' = my_position l \<and>
    peer_position l' = (peer_position l)(sint pid \<mapsto> (x, y))"
proof -
  define a where "a = new_node env (dom (nodes l))"
  have fresh: "a \<notin> dom (nodes l)" "node_created env ''Target.png''"
    using assms(1,2) by (auto simp: cocos_ok_def layer_ok_def a_def)
  let ?l = "l\<lparr>nodes := (nodes l)(a \<mapsto> (x, y)), children := children l @ [(a, 0)],
    mPeerMap := map_insert (sint pid) a (mPeerMap l)\<rparr>"
  have "updatePeer env pid x y l = Inr ?l"
    using assms(3) fresh(2)
    by (simp add: updatePeer_def create_node_def setPositionX_def setPositionY_def setPosition_def addChild_def Let_def
        flip: a_def)
  moreover have keys: "sint pid \<notin> fst ` set (mPeerMap l)" using assms(3) by (simp add: map_of_eq_None_iff)
  note set = set_map_insert_fresh [OF keys, of a]
  have old: "a \<notin> snd ` set (mPeerMap l)" using assms(1) fresh(1) unfolding layer_ok_def by blast
  have me: "mPlayerSprite l \<noteq> Some a" using assms(1) fresh(1) unfolding layer_ok_def by (metis option.inject)
  have "distinct (map snd (map_insert (sint pid) a (mPeerMap l)))"
    using distinct_map_insert [OF _ old keys] assms(1) by (simp add: layer_ok_def)
  moreover from assms(1) have "map_ok (map_insert (sint pid) a (mPeerMap l))" by (auto simp: layer_ok_def)
  moreover from assms(1) me obtain b where "mPlayerSprite l = Some b" "b \<in> dom (nodes l)" "b \<notin> snd ` set (mPeerMap l)" "b \<noteq> a"
    unfolding layer_ok_def by blast
  ultimately have "layer_ok ?l" using assms(1) by (simp add: layer_ok_def set)
  moreover have "my_position ?l = my_position l"
    using me by (simp add: my_position_def split: option.splits)
  moreover have "peer_position ?l k = ((peer_position l)(sint pid \<mapsto> (x, y))) k" for k
  proof -
    have "map_of (mPeerMap l) k \<noteq> Some a" using old by (force dest: map_of_SomeD)
    moreover have "map_ok (mPeerMap l)" using assms(1) by (simp add: layer_ok_def)
    note map_of_insert [OF this, of "sint pid" a]
    ultimately show ?thesis using assms(3) by (auto simp: peer_position_def domIff split: option.splits)
  qed
  then have "peer_position ?l = (peer_position l)(sint pid \<mapsto> (x, y))" by (rule ext)
  ultimately show ?thesis using \<open>updatePeer env pid x y l = Inr ?l\<close> by blast
qed

lemma run_call_places:
  assumes "layer_ok l" and "cocos_ok env" and "call_layer f \<noteq> None"
  shows "\<exists>l'. run_call env f l = Inr l' \<and> layer_ok l' \<and>
    (my_position l', peer_position l') = place f (my_position l, peer_position l)"
proof (cases f)
  case (chatDraw_call this sender chat)
  with assms show ?thesis by (auto simp: chatDraw_def)
next
  case (updateMe_call this x y)
  with updateMe_places [OF assms(1), of x y] assms(3) show ?thesis by auto
next
  case (updatePeer_call this pid x y)
  with updatePeer_known [OF assms(1), of pid _ env x y] updatePeer_unknown [OF assms(1,2), of pid x y] assms(3)
  show ?thesis by (cases "map_of (mPeerMap l) (sint pid)") auto
qed

text \<open>
  The screen shows what the network thread has posted: running the posted functions in order
  never fails, leaves the player's sprite and one sprite for each peer, and every one of them stands
  where the last update for it has put it; a player or peer without an update stays where it was.
\<close>

theorem scene_shows_updates:
  assumes "layer_ok l" and "cocos_ok env" and "\<forall>f \<in> set fs. call_layer f \<noteq> None"
  shows "\<exists>l'. run_calls env fs l = Inr l' \<and> layer_ok l' \<and>
    (my_position l', peer_position l') = fold place fs (my_position l, peer_position l)"
  using assms(1,3)
proof (induction fs arbitrary: l)
  case (Cons f fs)
  from run_call_places [OF Cons.prems(1) assms(2), of f] Cons.prems(2) obtain l1 where
    l1: "run_call env f l = Inr l1" "layer_ok l1"
      "(my_position l1, peer_position l1) = place f (my_position l, peer_position l)" by auto
  from Cons.IH [OF l1(2)] Cons.prems(2) l1 show ?case by simp
qed simp

section \<open>The first scene\<close>

lemma HelloWorld_init_ok:
  assumes "cocos_ok env" and "initWithColor env"
  shows "\<exists>l. HelloWorld_init env layer_new = Inr (True, l) \<and> layer_ok l \<and> peer_position l = Map.empty \<and>
    keyboardEnabled l \<and> my_position l = Some (fdiv env (fst (content_size env ''Player.png'')) f_two, fdiv env (snd (winSize env)) f_two)"
proof -
  have new: "\<And>name. node_created env name" "\<And>live. finite live \<Longrightarrow> new_node env live \<notin> live"
    using assms(1) by (auto simp: cocos_ok_def)
  let ?a = "new_node env {}" let ?b = "new_node env {?a}" let ?c = "new_node env {?b, ?a}"
  from new(2) [of "{}"] new(2) [of "{?a}"] new(2) [of "{?b, ?a}"] have d: "?b \<noteq> ?a" "?c \<noteq> ?b" "?c \<noteq> ?a" by auto
  then show ?thesis using assms(2) new(1)
    by (auto simp: HelloWorld_init_def layer_new_def create_node_def setPosition_def addChild_def Let_def layer_ok_def
        map_ok_def my_position_def peer_position_def fun_eq_iff insert_commute split: prod.splits)
qed

definition demo_cocos :: cocos_env where
  "demo_cocos =
     \<lparr>initWithColor = True, visibleSize = (960, 640), visibleOrigin = (0, 0), winSize = (960, 640),
      node_created = \<lambda>_. True, content_size = \<lambda>_. (27, 40), new_node = \<lambda>live. if live = {} then 1 else Suc (Max live),
      fadd = \<lambda>a b. a + b, fsub = \<lambda>a b. a - b, fdiv = \<lambda>a b. a div b\<rparr>"

lemma demo_cocos_ok: "cocos_ok demo_cocos"
proof -
  have "Suc (Max live) \<notin> live" if "finite live" for live :: "nat set"
    using Max_ge [OF that, of "Suc (Max live)"] by auto
  then show ?thesis by (auto simp: cocos_ok_def demo_cocos_def)
qed

theorem scene_shows_updates_witness:
  "\<exists>l l'. HelloWorld_init demo_cocos layer_new = Inr (True, l) \<and>
    run_calls demo_cocos [updateMe_call (Some 128) 3 4, updatePeer_call (Some 128) 7 1 2, updatePeer_call (Some 128) 7 5 6] l = Inr l' \<and>
    my_position l' = Some (3, 4) \<and> peer_position l' = [7 \<mapsto> (5, 6)]"
proof -
  have "initWithColor demo_cocos" by (simp add: demo_cocos_def)
  from HelloWorld_init_ok [OF demo_cocos_ok this] obtain l where
    l: "HelloWorld_init demo_cocos layer_new = Inr (True, l)" "layer_ok l" "peer_position l = Map.empty" by blast
  let ?fs = "[updateMe_call (Some 128) 3 4, updatePeer_call (Some 128) 7 1 2, updatePeer_call (Some 128) 7 5 6]"
  have "\<forall>f \<in> set ?fs. call_layer f \<noteq> None" by simp
  from scene_shows_updates [OF l(2) demo_cocos_ok this] l(3) obtain l' where
    "run_calls demo_cocos ?fs l = Inr l'" "my_position l' = Some (3, 4)" "peer_position l' = [7 \<mapsto> (5, 6)]" by auto
  with l(1) show ?thesis by blast
qed

end
