(* ===== verification/Game_Client.thy ===== *)
theory Game_Client
  imports Hello_World_Scene
begin

text \<open>
  The game client as a whole: the application that \<open>WinMain\<close> hands to the engine, its network thread,
  the queue of functions between them, and the keys.
\<close>

section \<open>The process\<close>

record game =
  net :: client_world
  game_director :: director

text \<open>The child of the running scene with the name \<open>base_layer\<close>, and that child changed.\<close>

definition scene_layer :: "director \<Rightarrow> layer option" where
  "scene_layer d = (case runningScene d of None \<Rightarrow> None
     | Some cs \<Rightarrow> map_option fst (List.find (\<lambda>(l, z, name). name = ''base_layer'') cs))"

definition set_scene_layer :: "layer \<Rightarrow> director \<Rightarrow> director" where
  "set_scene_layer l' d = d\<lparr>runningScene := map_option
     (map (\<lambda>(l, z, name). if name = ''base_layer'' then (l', z, name) else (l, z, name))) (runningScene d)\<rparr>"

text \<open>
  What can happen: a turn of the network thread of the client at an address, whose \<open>::recv\<close> returns the
  given bytes or fails; the engine runs the first function that was posted to it; a key; the item that
  closes the game; and the two calls of the application. The threads share the id of the login and the
  queue, which the engine locks, so a turn, a posted function and a key are each one action.
\<close>

datatype game_event =
    NetworkTurn nat "byte list option"
  | PostedFunction
  | KeyPressed KeyCode
  | KeyReleased KeyCode
  | CloseItem
  | EnterBackground
  | EnterForeground

definition with_layer :: "(layer \<Rightarrow> layer res) \<Rightarrow> game \<Rightarrow> game res" where
  "with_layer f g =
     rbind (deref (scene_layer (game_director g))) (\<lambda>l.
     rbind (f l) (\<lambda>l'. Inr (g\<lparr>game_director := set_scene_layer l' (game_director g)\<rparr>)))"

fun game_act :: "cocos_env \<Rightarrow> client_env \<Rightarrow> app_delegate \<Rightarrow> game_event \<Rightarrow> game \<Rightarrow> game res option" where
  "game_act env cenv app (NetworkTurn this n) g =
     then_do (networkThread_turn (cenv\<lparr>net_recv := \<lambda>_. n\<rparr>) this (net g)) (\<lambda>w. Some (Inr (g\<lparr>net := w\<rparr>)))"
| "game_act env cenv app PostedFunction g =
     (case cocos_queue (net g) of [] \<Rightarrow> Some (Inr g)
      | f # fs \<Rightarrow> Some (with_layer (run_call env f) (g\<lparr>net := (net g)\<lparr>cocos_queue := fs\<rparr>\<rparr>)))"
| "game_act env cenv app (KeyPressed k) g = Some (with_layer (\<lambda>l. Inr (onKeyPressed k l)) g)"
| "game_act env cenv app (KeyReleased k) g =
     then_do (Some (deref (scene_layer (game_director g)))) (\<lambda>l.
     then_do (onKeyReleased env cenv k l (net g)) (\<lambda>w. Some (Inr (g\<lparr>net := w\<rparr>))))"
| "game_act env cenv app CloseItem g = Some (with_layer (\<lambda>l. Inr (menuCloseCallback l)) g)"
| "game_act env cenv app EnterBackground g = Some (Inr (g\<lparr>game_director := didEnterBackground app (game_director g)\<rparr>))"
| "game_act env cenv app EnterForeground g = Some (Inr (g\<lparr>game_director := willEnterForeground app (game_director g)\<rparr>))"

text \<open>
  \<open>str\<close> are the bytes that the connection still has to give. A thread that was started takes a part of
  them, as many as its buffer holds, or none.
\<close>

fun is_turn :: "game_event \<Rightarrow> bool" where
  "is_turn (NetworkTurn this n) = True"
| "is_turn e = False"

inductive happens :: "byte list \<Rightarrow> game \<Rightarrow> game_event \<Rightarrow> byte list \<Rightarrow> bool" for str g where
  received: "this \<in> set (network_threads (net g)) \<Longrightarrow> k \<le> RECV_SIZE \<Longrightarrow>
    happens str g (NetworkTurn this (Some (take k str))) (drop k str)"
| failed: "this \<in> set (network_threads (net g)) \<Longrightarrow> happens str g (NetworkTurn this None) str"
| other: "\<not> is_turn e \<Longrightarrow> happens str g e str"

text \<open>The states of the process from a successful launch on.\<close>

inductive game_reaches ::
    "cocos_env \<Rightarrow> client_env \<Rightarrow> app_delegate \<Rightarrow> director \<Rightarrow> byte list \<Rightarrow> byte list \<Rightarrow> game \<Rightarrow> bool" for env cenv app d0 str0 where
  launched: "didFinishLaunching app d0 = Inr (True, d) \<Longrightarrow>
    game_reaches env cenv app d0 str0 str0 \<lparr>net = client_world_init, game_director = d\<rparr>"
| acted: "game_reaches env cenv app d0 str0 str g \<Longrightarrow> happens str g e str' \<Longrightarrow>
    game_act env cenv app e g = Some (Inr g') \<Longrightarrow> game_reaches env cenv app d0 str0 str' g'"

section \<open>What the network thread leaves alone\<close>

definition beside :: "client_world \<Rightarrow> client_world \<Rightarrow> bool" where
  "beside w w' \<longleftrightarrow> network_threads w' = network_threads w \<and> s_TcpClient w' = s_TcpClient w \<and> wire w' = wire w"

lemma beside_simps [simp]:
  "beside w w" "beside w (client_sys_call w)" "beside w (set_client a c w)"
  by (simp_all add: beside_def client_sys_call_def set_client_def)

lemma beside_trans: "beside w w1 \<Longrightarrow> beside w1 w2 \<Longrightarrow> beside w w2"
  by (simp add: beside_def)

lemma find_layer_beside: "find_layer env w = Inr (l, w') \<Longrightarrow> beside w w'"
  by (auto simp: find_layer_def rbind_eq_Inr)

definition keeps_beside :: "client_world \<Rightarrow> ('x \<times> client_world) res \<Rightarrow> bool" where
  "keeps_beside w r \<longleftrightarrow> (\<forall>x w'. r = Inr (x, w') \<longrightarrow> beside w w')"

lemma keeps_beside_intros:
  "keeps_beside w (Inl e)"
  "beside w w' \<Longrightarrow> keeps_beside w (Inr (x, w'))"
  "(\<And>y. m = Inr y \<Longrightarrow> keeps_beside w (f y)) \<Longrightarrow> keeps_beside w (rbind m f)"
  "(b \<Longrightarrow> keeps_beside w r) \<Longrightarrow> (\<not> b \<Longrightarrow> keeps_beside w r') \<Longrightarrow> keeps_beside w (if b then r else r')"
  by (auto simp: keeps_beside_def rbind_eq_Inr)

lemma keeps_beside_option:
  "(v = None \<Longrightarrow> keeps_beside w r) \<Longrightarrow> (\<And>x. v = Some x \<Longrightarrow> keeps_beside w (f x)) \<Longrightarrow>
     keeps_beside w (case v of None \<Rightarrow> r | Some x \<Rightarrow> f x)"
  by (cases v) simp_all

lemma keeps_beside_prod: "(\<And>x y. p = (x, y) \<Longrightarrow> keeps_beside w (f x y)) \<Longrightarrow> keeps_beside w (case p of (x, y) \<Rightarrow> f x y)"
  by (cases p) simp

lemma beside_changes [simp]:
  "beside w (perform f w') = beside w w'" "beside w (set_client a c w') = beside w w'"
  by (simp_all add: beside_def perform_def set_client_def)

lemma processPacket_turn_beside:
  assumes "processPacket_turn env a w = Inr (b, w')"
  shows "beside w w'"
proof -
  have "keeps_beside w (processPacket_turn env a w)"
    unfolding processPacket_turn_def Let_def
    by (intro keeps_beside_intros keeps_beside_option keeps_beside_prod;
        simp; drule find_layer_beside; simp add: beside_def set_client_def)
  with assms show ?thesis by (simp add: keeps_beside_def)
qed

lemma processPacket_beside:
  assumes "processPacket env a w = Some (Inr w')"
  shows "beside w w'"
proof -
  have "r = Inr w' \<longrightarrow> beside w w'" if "processPacket env a w = Some r" for r
    using that
  proof (rule processPacket.raw_induct [where P = "\<lambda>env a w r. r = Inr w' \<longrightarrow> beside w w'", rotated])
    fix loop env a w r
    assume IH: "\<And>env a w r. loop env a w = Some r \<Longrightarrow> r = Inr w' \<longrightarrow> beside w w'"
      and r: "(case processPacket_turn env a w of Inl e \<Rightarrow> Some (Inl e)
        | Inr (goes_on, w1) \<Rightarrow> if goes_on then loop env a w1 else Some (Inr w1)) = Some r"
    show "r = Inr w' \<longrightarrow> beside w w'"
    proof (cases "processPacket_turn env a w")
      case (Inr t)
      obtain goes_on w1 where t: "t = (goes_on, w1)" by (cases t)
      from processPacket_turn_beside [OF Inr [unfolded t]] have turn: "beside w w1" .
      with Inr t r IH [of env a w1 r] beside_trans [OF turn, of w'] show ?thesis by (cases goes_on) auto
    qed (use r in auto)
  qed
  with assms show ?thesis by simp
qed

lemma networkThread_turn_beside:
  assumes "networkThread_turn env a w = Some (Inr w')"
  shows "beside w w'"
proof -
  have "beside w w'" if "processPacket env a (set_client a c (client_sys_call w)) = Some (Inr w')" for c
    using beside_trans [OF beside_trans [OF beside_simps(2) beside_simps(3)] processPacket_beside [OF that]] .
  with assms show ?thesis
    by (auto simp: networkThread_turn_def then_do_eq_Inr Let_def split: option.splits if_splits)
qed


section \<open>Requests\<close>

text \<open>
  What the theorems rely on outside the repository: the socket library starts, sockets can be made and
  take all they are given, and the running scene answers its layer.
\<close>

definition client_env_ok :: "client_env \<Rightarrow> nat \<Rightarrow> bool" where
  "client_env_ok cenv this \<longleftrightarrow> sends_all cenv \<and>
     (\<forall>k. net_WSAStartup cenv k = 0 \<and> net_socket cenv k \<noteq> INVALID_SOCKET \<and> base_layer cenv k = Some (Some this))"

text \<open>Chats and moves name a player that has logged in.\<close>

fun names_player :: "client_packet \<Rightarrow> bool" where
  "names_player (LoginPacket q) = True"
| "names_player (ChatPacket q) = (0 \<le> sint (cr_mPlayerId q))"
| "names_player (MovePacket q) = (0 \<le> sint (mr_mPlayerId q))"

definition requests :: "client_world \<Rightarrow> client_world res option \<Rightarrow> bool" where
  "requests w r \<longleftrightarrow> (\<exists>w' sock rs. r = Some (Inr w') \<and> put_on_wire sock (map packet_bytes rs) w w' \<and>
     (\<forall>p \<in> set rs. packet_ok p \<and> names_player p))"

lemma requests_none: "requests w (Some (Inr w))"
  unfolding requests_def by (intro exI [of _ w] exI [of _ 0] exI [of _ "[]"]) (simp add: put_on_wire_def)

lemma requests_one:
  "r = Some (Inr w') \<Longrightarrow> put_on_wire sock [packet_bytes p] w w' \<Longrightarrow> packet_ok p \<Longrightarrow> names_player p \<Longrightarrow> requests w r"
  unfolding requests_def by (intro exI [of _ w'] exI [of _ sock] exI [of _ "[p]"]) simp

lemma moveRequest_requests:
  assumes "tcp_clients w a = Some c" and "sends_all env"
  shows "requests w (moveRequest env a x y w)"
proof (cases "sint (m_loginId c) < 0")
  case False
  let ?m = "MovePacket (MoveRequest_init\<lparr>mr_mPlayerId := m_loginId c, mr_mPosX := x, mr_mPosY := y\<rparr>)"
  have "packet_ok ?m" "names_player ?m" using False by (simp_all add: MoveRequest_init_def)
  with moveRequest_sends [OF assms(1) _ assms(2), of x y] False show ?thesis
    by (auto intro: requests_one [of _ _ _ ?m])
qed (use assms in \<open>simp add: moveRequest_def requests_none\<close>)

lemma loginRequest_requests:
  assumes "tcp_clients w a = Some c" and "sends_all env"
  shows "requests w (loginRequest env a w)"
proof (cases "0 < sint (m_loginId c)")
  case False
  let ?l = "LoginPacket (LoginRequest_init\<lparr>lr_mPlayerId := 1000 + of_nat (client_rand env (client_calls w) mod 101)\<rparr>)"
  have "packet_ok ?l" "names_player ?l" by (simp_all add: LoginRequest_init_def)
  with loginRequest_sends [OF assms(1) _ assms(2)] False show ?thesis
    by (auto intro: requests_one [of _ _ _ ?l])
qed (use assms in \<open>simp add: loginRequest_def requests_none\<close>)

lemma chatRequest_requests:
  assumes "tcp_clients w a = Some c" and "sends_all env" and "strnlen chat = Some k" and "k \<le> MAX_CHAT_LEN"
  shows "requests w (chatRequest env a chat w)"
proof (cases "sint (m_loginId c) < 0")
  case False
  then obtain w' p where p: "chatRequest env a chat w = Some (Inr w')" "put_on_wire (m_sock c) [packet_bytes (ChatPacket p)] w w'"
      "packet_ok (ChatPacket p)" "cr_mPlayerId p = m_loginId c"
    using chatRequest_puts [OF assms(1) _ assms(2-4)] by force
  with False show ?thesis by (intro requests_one [OF p(1-3)]) simp
qed (use assms in \<open>simp add: chatRequest_def requests_none\<close>)

lemma key_text: "strnlen (client_literal '' - HELLO~~ THIS IS TEST...'') = Some 26"
  by code_simp

lemma key_requests:
  assumes "s_TcpClient w = Some a" and "tcp_clients w a = Some c" and "client_env_ok cenv this" and "layer_ok l"
  shows "requests w (onKeyReleased env cenv k l w)"
proof -
  from assms(4) obtain p where "player_position l = Inr p" by (auto simp: layer_ok_def player_position_def)
  moreover have "with_instance cenv f w = f a w" for f using assms(1) by (simp add: with_instance_def getInstance_def)
  moreover have all: "sends_all cenv" using assms(3) by (simp add: client_env_ok_def)
  note moveRequest_requests [OF assms(2) all] loginRequest_requests [OF assms(2) all]
    chatRequest_requests [OF assms(2) all key_text]
  ultimately show ?thesis
    by (cases k) (auto simp: onKeyReleased_def Let_def MAX_CHAT_LEN_def requests_none split: prod.splits)
qed

text \<open>The first key makes the singleton.\<close>

lemma first_key:
  assumes "getInstance cenv w = Inr (Some a, w1)" and "s_TcpClient w1 = Some a"
  shows "(case k of KEY_OTHER n \<Rightarrow> True | _ \<Rightarrow> onKeyReleased env cenv k l w = onKeyReleased env cenv k l w1)"
proof -
  have "with_instance cenv f w = with_instance cenv f w1" for f
    using assms by (simp add: with_instance_def getInstance_def [of cenv w1])
  then show ?thesis by (cases k) (simp_all add: onKeyReleased_def Let_def)
qed


section \<open>The invariant of the process\<close>

lemma shown_layer: "\<forall>f \<in> set (snd (shown this pid ps)). call_layer f = this"
proof (induction ps arbitrary: pid)
  case (Cons p ps)
  have "\<forall>f \<in> set (snd (shown1 this pid p)). call_layer f = this" by (cases p) simp_all
  with Cons show ?case by auto
qed simp

lemma scene_layer_set: "scene_layer d = Some l \<Longrightarrow> scene_layer (set_scene_layer l' d) = Some l'"
proof -
  have "List.find (\<lambda>(l, z, name). name = ''base_layer'') cs = Some x \<Longrightarrow> map_option fst (List.find (\<lambda>(l, z, name). name = ''base_layer'')
      (map (\<lambda>(l, z, name). if name = ''base_layer'' then (l', z, name) else (l, z, name)) cs)) = Some l'"
    for cs :: "(layer \<times> int \<times> string) list" and x
    by (induction cs) (auto split: if_splits)
  then show "scene_layer d = Some l \<Longrightarrow> scene_layer (set_scene_layer l' d) = Some l'"
    by (auto simp: scene_layer_def set_scene_layer_def split: option.splits)
qed

text \<open>\<open>ps\<close> are the packets that the network thread has handled, \<open>qs\<close> those that it has not.\<close>

definition connection_ok :: "nat \<Rightarrow> server_packet list \<Rightarrow> server_packet list \<Rightarrow> byte list \<Rightarrow> client_world \<Rightarrow> bool" where
  "connection_ok this ps qs str w \<longleftrightarrow>
     (if s_TcpClient w = None then ps = [] \<and> str = concat (map server_bytes qs) \<and> network_threads w = [] \<and> cocos_queue w = []
      else \<exists>a c. s_TcpClient w = Some a \<and> network_threads w = [a] \<and> tcp_clients w a = Some c \<and> receiver_ok c \<and>
        contents (m_recvBuffer c) @ str = concat (map server_bytes qs) \<and> incomplete (contents (m_recvBuffer c)) \<and>
        length (contents (m_recvBuffer c)) \<le> 294 \<and> m_loginId c = fst (shown (Some this) (-1) ps))"

definition wire_ok :: "client_world \<Rightarrow> bool" where
  "wire_ok w \<longleftrightarrow> (\<exists>rs. map snd (wire w) = map packet_bytes rs \<and> (\<forall>r \<in> set rs. packet_ok r \<and> names_player r))"

definition screen_ok :: "cocos_env \<Rightarrow> nat \<Rightarrow> server_packet list \<Rightarrow> client_world \<Rightarrow> director \<Rightarrow> bool" where
  "screen_ok env this ps w d \<longleftrightarrow> (\<exists>l run. scene_layer d = Some l \<and> layer_ok l \<and>
     snd (shown (Some this) (-1) ps) = run @ cocos_queue w \<and>
     (my_position l, peer_position l) = fold place run
       (Some (fdiv env (fst (content_size env ''Player.png'')) f_two, fdiv env (snd (winSize env)) f_two), Map.empty))"

lemma wire_ok_requests:
  assumes "requests w r" and "wire_ok w"
  shows "\<exists>w'. r = Some (Inr w') \<and> wire_ok w' \<and> s_TcpClient w' = s_TcpClient w \<and> tcp_clients w' = tcp_clients w \<and>
    network_threads w' = network_threads w \<and> cocos_queue w' = cocos_queue w"
proof -
  from assms(1) obtain w' sock rs where w': "r = Some (Inr w')" "put_on_wire sock (map packet_bytes rs) w w'"
    "\<forall>p \<in> set rs. packet_ok p \<and> names_player p" by (auto simp: requests_def)
  from assms(2) obtain rs0 where "map snd (wire w) = map packet_bytes rs0" "\<forall>p \<in> set rs0. packet_ok p \<and> names_player p"
    by (auto simp: wire_ok_def)
  with put_on_wire_wire [OF w'(2)] w'(3) have "map snd (wire w') = map packet_bytes (rs0 @ rs)"
    "\<forall>p \<in> set (rs0 @ rs). packet_ok p \<and> names_player p" by auto
  then have "wire_ok w'" unfolding wire_ok_def by blast
  moreover have "network_threads w' = network_threads w" "s_TcpClient w' = s_TcpClient w"
    using arg_cong [OF w'(2) [unfolded put_on_wire_def], of network_threads]
      arg_cong [OF w'(2) [unfolded put_on_wire_def], of s_TcpClient] by simp_all
  ultimately show ?thesis using w'(1) put_on_wire_keeps [OF w'(2)] by blast
qed

text \<open>A turn of the network thread.\<close>

lemma turn_keeps:
  assumes "client_env_ok cenv this" and "connection_ok this ps qs str w" and "\<forall>p \<in> set qs. server_packet_ok p"
    and "a \<in> set (network_threads w)" and "n = None \<and> str' = str \<or> (\<exists>k \<le> RECV_SIZE. n = Some (take k str) \<and> str' = drop k str)"
  shows "\<exists>w' ps1 qs1. networkThread_turn (cenv\<lparr>net_recv := \<lambda>_. n\<rparr>) a w = Some (Inr w') \<and> qs = ps1 @ qs1 \<and>
    connection_ok this (ps @ ps1) qs1 str' w' \<and>
    cocos_queue w' = cocos_queue w @ snd (shown (Some this) (fst (shown (Some this) (-1) ps)) ps1)"
proof -
  from assms(2,4) obtain c where c: "s_TcpClient w = Some a" "network_threads w = [a]" "tcp_clients w a = Some c" "receiver_ok c"
      "contents (m_recvBuffer c) @ str = concat (map server_bytes qs)" "incomplete (contents (m_recvBuffer c))"
      "length (contents (m_recvBuffer c)) \<le> 294" "m_loginId c = fst (shown (Some this) (-1) ps)"
    by (auto simp: connection_ok_def split: if_splits)
  have bytes: "received_bytes n @ str' = str" "length (received_bytes n) \<le> RECV_SIZE" using assms(5) by auto
  show ?thesis
  proof (cases "received_bytes n = []")
    case True
    with networkThread_turn_nothing [OF c(3) True, of cenv] bytes c show ?thesis
      by (intro exI [of _ "client_sys_call w"] exI [of _ "[]"] exI [of _ qs]) (auto simp: connection_ok_def client_sys_call_def)
  next
    case False
    have none: "incomplete []" "length ([] :: byte list) \<le> 294" by (simp_all add: incomplete_def sizeof_PacketHeader_def)
    from c(5) bytes(1) have "(contents (m_recvBuffer c) @ received_bytes n) @ str' = concat (map server_bytes qs) @ []" by simp
    from server_stream_cut [OF this assms(3) none] obtain k r where
      k: "contents (m_recvBuffer c) @ received_bytes n = concat (map server_bytes (take k qs)) @ r" "incomplete r"
        "r @ str' = concat (map server_bytes (drop k qs))" "length r \<le> 294"
      and ok: "\<forall>p \<in> set (take k qs). server_packet_ok p" by auto
    have layer: "\<forall>j. base_layer cenv j = Some (Some this)" using assms(1) by (simp add: client_env_ok_def)
    from False have n: "n = Some (received_bytes n)" by (cases n) auto
    from networkThread_turn_bytes [OF c(3,4) bytes(2) c(7) k(1) ok k(2) layer False] obtain w' c' where
      w': "networkThread_turn (cenv\<lparr>net_recv := \<lambda>_. n\<rparr>) a w = Some (Inr w')" "tcp_clients w' a = Some c'" "receiver_ok c'"
        "contents (m_recvBuffer c') = r" "m_loginId c' = fst (shown (Some this) (m_loginId c) (take k qs))"
        "cocos_queue w' = cocos_queue w @ snd (shown (Some this) (m_loginId c) (take k qs))" using n by auto
    moreover from networkThread_turn_beside [OF w'(1)] c(1,2) have "s_TcpClient w' = Some a" "network_threads w' = [a]"
      by (simp_all add: beside_def)
    moreover note shown_append [of "Some this" "-1" ps "take k qs"]
    ultimately have "connection_ok this (ps @ take k qs) (drop k qs) str' w'"
      using k(2-4) c(8) by (auto simp: connection_ok_def)
    with w'(1,6) c(8) show ?thesis
      by (intro exI [of _ w'] exI [of _ "take k qs"] exI [of _ "drop k qs"]) simp
  qed
qed


text \<open>Actions of the engine's thread change the network half by requests, or the queue, or nothing.\<close>

lemma connection_ok_cong:
  assumes "connection_ok this ps qs str w" and "s_TcpClient w' = s_TcpClient w" and "tcp_clients w' = tcp_clients w"
    and "network_threads w' = network_threads w" and "s_TcpClient w = None \<longrightarrow> cocos_queue w' = []"
  shows "connection_ok this ps qs str w'"
  using assms by (auto simp: connection_ok_def)

lemma key_keeps:
  assumes "client_env_ok cenv this" and "connection_ok this ps qs str w" and "wire_ok w" and "layer_ok l"
  shows "\<exists>w'. onKeyReleased env cenv k l w = Some (Inr w') \<and> connection_ok this ps qs str w' \<and> wire_ok w' \<and>
    cocos_queue w' = cocos_queue w"
proof (cases "s_TcpClient w")
  case (Some a)
  with assms(2) obtain c where "tcp_clients w a = Some c" by (auto simp: connection_ok_def)
  from wire_ok_requests [OF key_requests [OF Some this assms(1,4)] assms(3), of env k]
    connection_ok_cong [OF assms(2)] Some show ?thesis by fastforce
next
  case None
  let ?a = "client_block cenv (dom (tcp_clients w))"
  from assms(1) have "net_WSAStartup cenv (client_calls w) = 0" "net_socket cenv (client_calls w + 1) \<noteq> INVALID_SOCKET"
    by (simp_all add: client_env_ok_def)
  from getInstance_makes [OF None refl this] obtain w1 where
    w1: "getInstance cenv w = Inr (Some ?a, w1)" "s_TcpClient w1 = Some ?a" "network_threads w1 = network_threads w @ [?a]"
      "tcp_clients w1 ?a = Some ((TcpClient_new cenv)\<lparr>m_sock := net_socket cenv (client_calls w + 1)\<rparr>)"
      "cocos_queue w1 = cocos_queue w" "wire w1 = wire w" by auto
  let ?c = "(TcpClient_new cenv)\<lparr>m_sock := net_socket cenv (client_calls w + 1)\<rparr>"
  have "receiver_ok ?c" "contents (m_recvBuffer ?c) = []" "m_loginId ?c = -1" "incomplete []"
    using client_buffer_ok_new [where capacity = BUF_SIZE and junk = "client_memory cenv"]
    by (simp_all add: receiver_ok_def TcpClient_new_def BUF_SIZE_def incomplete_def sizeof_PacketHeader_def)
  with w1 None assms(2) have con: "connection_ok this ps qs str w1" by (auto simp: connection_ok_def)
  have wire: "wire_ok w1" using w1(6) assms(3) by (simp add: wire_ok_def)
  show ?thesis
  proof (cases "\<exists>n. k = KEY_OTHER n")
    case True
    with assms(2,3) show ?thesis by (auto simp: onKeyReleased_def Let_def)
  next
    case False
    then have "onKeyReleased env cenv k l w = onKeyReleased env cenv k l w1"
      using first_key [OF w1(1,2), of env k l] by (cases k) auto
    with wire_ok_requests [OF key_requests [OF w1(2,4) assms(1,4)] wire, of env k] connection_ok_cong [OF con] w1(2,5)
    show ?thesis by fastforce
  qed
qed

lemma posted_keeps:
  assumes "cocos_ok env" and "screen_ok env this ps w d" and "cocos_queue w = f # fs"
  shows "\<exists>l l'. scene_layer d = Some l \<and> run_call env f l = Inr l' \<and>
    screen_ok env this ps (w\<lparr>cocos_queue := fs\<rparr>) (set_scene_layer l' d)"
proof -
  let ?start = "(Some (fdiv env (fst (content_size env ''Player.png'')) f_two, fdiv env (snd (winSize env)) f_two), Map.empty)"
  from assms(2,3) obtain l run where l: "scene_layer d = Some l" "layer_ok l"
    "snd (shown (Some this) (-1) ps) = run @ f # fs" "(my_position l, peer_position l) = fold place run ?start"
    by (auto simp: screen_ok_def)
  with shown_layer [of "Some this" "-1" ps] have "call_layer f \<noteq> None" by simp
  from run_call_places [OF l(2) assms(1) this] obtain l' where l': "run_call env f l = Inr l'" "layer_ok l'"
    "(my_position l', peer_position l') = place f (my_position l, peer_position l)" by blast
  with l(3,4) have "snd (shown (Some this) (-1) ps) = (run @ [f]) @ fs"
    "(my_position l', peer_position l') = fold place (run @ [f]) ?start" by simp_all
  then have "screen_ok env this ps (w\<lparr>cocos_queue := fs\<rparr>) (set_scene_layer l' d)"
    unfolding screen_ok_def using scene_layer_set [OF l(1), of l'] l'(2) by (intro exI [of _ l'] exI [of _ "run @ [f]"]) simp
  with l(1) l'(1) show ?thesis by blast
qed

text \<open>What does not touch the nodes of the layer does not change the screen.\<close>

lemma screen_ok_layer:
  assumes "screen_ok env this ps w d" and "\<And>l. scene_layer d = Some l \<Longrightarrow> \<exists>l'. scene_layer d' = Some l' \<and>
      layer_ok l' = layer_ok l \<and> my_position l' = my_position l \<and> peer_position l' = peer_position l"
    and "cocos_queue w' = cocos_queue w"
  shows "screen_ok env this ps w' d'"
  using assms unfolding screen_ok_def by metis

definition game_ok :: "cocos_env \<Rightarrow> nat \<Rightarrow> server_packet list \<Rightarrow> byte list \<Rightarrow> game \<Rightarrow> bool" where
  "game_ok env this sent str g \<longleftrightarrow> (\<exists>ps qs. sent = ps @ qs \<and> connection_ok this ps qs str (net g) \<and> wire_ok (net g) \<and>
     screen_ok env this ps (net g) (game_director g))"

lemma game_ok_director:
  assumes "game_ok env this sent str g" and "\<And>l. scene_layer (game_director g) = Some l \<Longrightarrow>
      \<exists>l'. scene_layer d = Some l' \<and> layer_ok l' = layer_ok l \<and> my_position l' = my_position l \<and> peer_position l' = peer_position l"
  shows "game_ok env this sent str (g\<lparr>game_director := d\<rparr>)"
proof -
  from assms(1) obtain ps qs where "sent = ps @ qs" "connection_ok this ps qs str (net g)" "wire_ok (net g)"
    "screen_ok env this ps (net g) (game_director g)" by (auto simp: game_ok_def)
  moreover from screen_ok_layer [OF this(4) assms(2) refl] have "screen_ok env this ps (net g) d" .
  ultimately show ?thesis by (auto simp: game_ok_def)
qed

lemma network_turn_ok:
  assumes "client_env_ok cenv this" and "game_ok env this sent str g" and "\<forall>p \<in> set sent. server_packet_ok p"
    and "happens str g (NetworkTurn a n) str'"
  shows "\<exists>g'. game_act env cenv app (NetworkTurn a n) g = Some (Inr g') \<and> game_ok env this sent str' g'"
proof -
  from assms(2) obtain ps qs where ok: "sent = ps @ qs" "connection_ok this ps qs str (net g)" "wire_ok (net g)"
    "screen_ok env this ps (net g) (game_director g)" by (auto simp: game_ok_def)
  from assms(4) have turn: "a \<in> set (network_threads (net g))"
      "n = None \<and> str' = str \<or> (\<exists>k \<le> RECV_SIZE. n = Some (take k str) \<and> str' = drop k str)"
    by (auto elim!: happens.cases)
  have "\<forall>p \<in> set qs. server_packet_ok p" using ok(1) assms(3) by simp
  from turn_keeps [OF assms(1) ok(2) this turn] obtain w' ps1 qs1 where
    w': "networkThread_turn (cenv\<lparr>net_recv := \<lambda>_. n\<rparr>) a (net g) = Some (Inr w')" "qs = ps1 @ qs1"
      "connection_ok this (ps @ ps1) qs1 str' w'"
      "cocos_queue w' = cocos_queue (net g) @ snd (shown (Some this) (fst (shown (Some this) (-1) ps)) ps1)" by blast
  have "wire_ok w'" using networkThread_turn_beside [OF w'(1)] ok(3) by (simp add: beside_def wire_ok_def)
  moreover have "screen_ok env this (ps @ ps1) w' (game_director g)"
    using ok(4) w'(4) shown_append [of "Some this" "-1" ps ps1] by (auto simp: screen_ok_def)
  ultimately have "game_ok env this sent str' (g\<lparr>net := w'\<rparr>)" using w'(2,3) ok(1)
    unfolding game_ok_def by (intro exI [of _ "ps @ ps1"] exI [of _ qs1]) simp
  with w'(1) show ?thesis by simp
qed

lemma posted_function_ok:
  assumes "cocos_ok env" and "game_ok env this sent str g"
  shows "\<exists>g'. game_act env cenv app PostedFunction g = Some (Inr g') \<and> game_ok env this sent str g'"
proof (cases "cocos_queue (net g)")
  case (Cons f fs)
  from assms(2) obtain ps qs where ok: "sent = ps @ qs" "connection_ok this ps qs str (net g)" "wire_ok (net g)"
    "screen_ok env this ps (net g) (game_director g)" by (auto simp: game_ok_def)
  from posted_keeps [OF assms(1) ok(4) Cons] obtain l l' where l': "scene_layer (game_director g) = Some l"
      "run_call env f l = Inr l'" "screen_ok env this ps ((net g)\<lparr>cocos_queue := fs\<rparr>) (set_scene_layer l' (game_director g))"
    by blast
  moreover have "connection_ok this ps qs str ((net g)\<lparr>cocos_queue := fs\<rparr>)" "wire_ok ((net g)\<lparr>cocos_queue := fs\<rparr>)"
    using ok(2,3) Cons by (auto simp: connection_ok_def wire_ok_def)
  ultimately show ?thesis using Cons ok(1) by (auto simp: with_layer_def game_ok_def)
qed (use assms in simp)

lemma key_released_ok:
  assumes "client_env_ok cenv this" and "game_ok env this sent str g"
  shows "\<exists>g'. game_act env cenv app (KeyReleased k) g = Some (Inr g') \<and> game_ok env this sent str g'"
proof -
  from assms(2) obtain ps qs where ok: "sent = ps @ qs" "connection_ok this ps qs str (net g)" "wire_ok (net g)"
    "screen_ok env this ps (net g) (game_director g)" by (auto simp: game_ok_def)
  from ok(4) obtain l where l: "scene_layer (game_director g) = Some l" "layer_ok l" by (auto simp: screen_ok_def)
  from key_keeps [OF assms(1) ok(2,3) l(2), of env k] obtain w' where
    w': "onKeyReleased env cenv k l (net g) = Some (Inr w')" "connection_ok this ps qs str w'" "wire_ok w'"
      "cocos_queue w' = cocos_queue (net g)" by blast
  moreover have "screen_ok env this ps w' (game_director g)" using ok(4) w'(4) by (simp add: screen_ok_def)
  ultimately show ?thesis using l(1) ok(1) by (auto simp: game_ok_def)
qed

lemma application_ok:
  assumes "game_ok env this sent str g" and "e \<in> {KeyPressed k, CloseItem, EnterBackground, EnterForeground}"
  shows "\<exists>g'. game_act env cenv (AppDelegate env) e g = Some (Inr g') \<and> game_ok env this sent str g'"
proof -
  let ?d = "game_director g"
  from assms(1) obtain l where l: "scene_layer ?d = Some l" by (auto simp: game_ok_def screen_ok_def)
  have close: "layer_ok (menuCloseCallback l) = layer_ok l" "my_position (menuCloseCallback l) = my_position l"
      "peer_position (menuCloseCallback l) = peer_position l"
    by (auto simp: menuCloseCallback_def layer_ok_def my_position_def peer_position_def fun_eq_iff split: option.splits)
  have "game_ok env this sent str (g\<lparr>game_director := d\<rparr>)"
    if "d \<in> {set_scene_layer l ?d, set_scene_layer (menuCloseCallback l) ?d, applicationDidEnterBackground ?d,
      applicationWillEnterForeground ?d}" for d
    using that game_ok_director [OF assms(1), of d] scene_layer_set [OF l] l close
    by (auto simp: applicationDidEnterBackground_def applicationWillEnterForeground_def scene_layer_def)
  with assms(2) l show ?thesis by (auto simp: with_layer_def onKeyPressed_def AppDelegate_def)
qed

lemma game_act_ok:
  assumes "cocos_ok env" and "client_env_ok cenv this" and "game_ok env this sent str g" and "happens str g e str'"
    and "\<forall>p \<in> set sent. server_packet_ok p"
  shows "\<exists>g'. game_act env cenv (AppDelegate env) e g = Some (Inr g') \<and> game_ok env this sent str' g'"
proof (cases "is_turn e")
  case True
  with network_turn_ok [OF assms(2,3,5)] assms(4) show ?thesis by (cases e) auto
next
  case False
  with assms(4) have "str' = str" by (auto elim: happens.cases)
  with False posted_function_ok [OF assms(1,3)] key_released_ok [OF assms(2,3)] application_ok [OF assms(3)]
  show ?thesis by (cases e) (auto simp del: game_act.simps)
qed

text \<open>
  The engine would end the application if its launch answered \<open>false\<close>; but a scene that cannot be made
  fails an assertion instead, and the answer is always \<open>true\<close>.
\<close>

lemma launch_answers_true: "applicationDidFinishLaunching env d = Inr (b, d') \<Longrightarrow> b"
  by (auto simp: applicationDidFinishLaunching_def rbind_eq_Inr Let_def)

lemma launched_ok:
  assumes "cocos_ok env" and "applicationDidFinishLaunching env d0 = Inr (True, d)"
  shows "game_ok env this sent (concat (map server_bytes sent)) \<lparr>net = client_world_init, game_director = d\<rparr>"
proof -
  from assms(2) obtain cs where cs: "createScene env = Inr cs" "runningScene d = Some cs"
    by (auto simp: applicationDidFinishLaunching_def rbind_eq_Inr Let_def)
  from cs(1) have "initWithColor env" by (auto simp: createScene_def HelloWorld_init_def rbind_eq_Inr split: if_splits)
  from HelloWorld_init_ok [OF assms(1) this] obtain l where
    l: "HelloWorld_init env layer_new = Inr (True, l)" "layer_ok l" "peer_position l = Map.empty"
      "my_position l = Some (fdiv env (fst (content_size env ''Player.png'')) f_two, fdiv env (snd (winSize env)) f_two)" by blast
  from cs(1) l(1) have "cs = [(l, 1, ''base_layer'')]" by (simp add: createScene_def)
  with cs(2) have "scene_layer d = Some l" by (simp add: scene_layer_def)
  with l(2-4) show ?thesis
    unfolding game_ok_def
    by (intro exI [of _ "[]"] exI [of _ sent])
      (auto simp: connection_ok_def wire_ok_def screen_ok_def client_world_init_def intro!: exI [of _ "[]"])
qed

lemma game_reaches_ok:
  assumes "game_reaches env cenv (AppDelegate env) d0 (concat (map server_bytes sent)) str g"
    and "cocos_ok env" and "client_env_ok cenv this" and "\<forall>p \<in> set sent. server_packet_ok p"
  shows "game_ok env this sent str g"
  using assms(1)
proof induction
  case (launched d)
  then show ?case using launched_ok [OF assms(2)] by (simp add: AppDelegate_def)
next
  case (acted str g e str' g')
  from game_act_ok [OF assms(2,3) acted.IH acted.hyps(2) assms(4)] acted.hyps(3) show ?case by auto
qed


text \<open>The key of the login, then a turn that takes a login and a move of the player.\<close>

definition demo_sent :: "server_packet list" where
  "demo_sent = [LoginPacketResult ((LoginResult_init 0 0)\<lparr>ls_mPlayerId := 1001\<rparr>),
     MovePacketResult (MoveBroadcastResult_init\<lparr>ms_mPlayerId := 1001, ms_mPosX := 5\<rparr>)]"

lemma demo_sent_ok: "\<forall>p \<in> set demo_sent. server_packet_ok p"
  by (simp add: demo_sent_def LoginResult_init_def MoveBroadcastResult_init_def terminated_def MAX_NAME_LEN_def)

lemma demo_client_env_ok: "client_env_ok demo_client_env 128"
  by (simp add: client_env_ok_def demo_client_env_def sends_all_def INVALID_SOCKET_def)

definition demo_director :: director where
  "demo_director = \<lparr>glview = None, displayStats = False, animationInterval = 0, runningScene = None, animating = True\<rparr>"

lemma demo_pressed:
  "\<exists>g c. game_reaches demo_cocos demo_client_env (AppDelegate demo_cocos) demo_director (concat (map server_bytes demo_sent))
      (concat (map server_bytes demo_sent)) g \<and> network_threads (net g) = [64] \<and> tcp_clients (net g) 64 = Some c \<and>
    receiver_ok c \<and> contents (m_recvBuffer c) = [] \<and> m_loginId c = -1 \<and> cocos_queue (net g) = []"
proof -
  let ?bs = "concat (map server_bytes demo_sent)"
  have "initWithColor demo_cocos" by (simp add: demo_cocos_def)
  from HelloWorld_init_ok [OF demo_cocos_ok this] obtain l where "HelloWorld_init demo_cocos layer_new = Inr (True, l)" by blast
  then obtain d where d: "didFinishLaunching (AppDelegate demo_cocos) demo_director = Inr (True, d)"
    by (simp add: AppDelegate_def applicationDidFinishLaunching_def createScene_def Let_def)
  note ok = demo_cocos_ok demo_client_env_ok demo_sent_ok
  let ?g0 = "\<lparr>net = client_world_init, game_director = d\<rparr>"
  note 0 = game_reaches.launched [OF d, of demo_cocos demo_client_env ?bs]
  from game_reaches_ok [OF 0 ok] obtain l where l: "scene_layer d = Some l" "layer_ok l"
    by (auto simp: game_ok_def screen_ok_def)
  have "s_TcpClient client_world_init = None" "64 = client_block demo_client_env (dom (tcp_clients client_world_init))"
    "net_WSAStartup demo_client_env (client_calls client_world_init) = 0"
    "net_socket demo_client_env (client_calls client_world_init + 1) \<noteq> INVALID_SOCKET"
    by (simp_all add: client_world_init_def demo_client_env_def INVALID_SOCKET_def)
  from getInstance_makes [OF this] obtain w1 c where w1: "getInstance demo_client_env client_world_init = Inr (Some 64, w1)"
    "s_TcpClient w1 = Some 64" "tcp_clients w1 64 = Some c" "network_threads w1 = [64]" "cocos_queue w1 = []" "wire w1 = []"
    "receiver_ok c" "contents (m_recvBuffer c) = []" "m_loginId c = -1"
    using client_buffer_ok_new [where capacity = BUF_SIZE and junk = "client_memory demo_client_env"]
    by (auto simp: client_world_init_def receiver_ok_def TcpClient_new_def BUF_SIZE_def)
  have "wire_ok w1" using w1(6) by (simp add: wire_ok_def)
  from wire_ok_requests [OF key_requests [OF w1(2,3) demo_client_env_ok l(2), of demo_cocos KEY_L] this] w1 obtain w2 where
    w2: "onKeyReleased demo_cocos demo_client_env KEY_L l w1 = Some (Inr w2)" "network_threads w2 = [64]"
      "tcp_clients w2 64 = Some c" "cocos_queue w2 = []" by auto
  let ?g1 = "?g0\<lparr>net := w2\<rparr>"
  have k: "happens ?bs ?g0 (KeyReleased KEY_L) ?bs" by (rule happens.other) simp
  have "game_act demo_cocos demo_client_env (AppDelegate demo_cocos) (KeyReleased KEY_L) ?g0 = Some (Inr ?g1)"
    using l(1) w2(1) first_key [OF w1(1,2), of demo_cocos KEY_L l] by simp
  from game_reaches.acted [OF 0 k this] w2(2-4) w1(7-9) show ?thesis by (intro exI [of _ ?g1] exI [of _ c]) simp
qed

lemma demo_game_reaches:
  "\<exists>str g. game_reaches demo_cocos demo_client_env (AppDelegate demo_cocos) demo_director (concat (map server_bytes demo_sent)) str g \<and>
    cocos_queue (net g) = [updateMe_call (Some 128) 5 0]"
proof -
  let ?bs = "concat (map server_bytes demo_sent)"
  from demo_pressed obtain g c where
    1: "game_reaches demo_cocos demo_client_env (AppDelegate demo_cocos) demo_director ?bs ?bs g"
    and c: "network_threads (net g) = [64]" "tcp_clients (net g) 64 = Some c" "receiver_ok c" "contents (m_recvBuffer c) = []"
      "m_loginId c = -1" "cocos_queue (net g) = []" by blast
  have len: "length ?bs = 62" "?bs \<noteq> []"
    using demo_sent_ok length_server_packet [of "hd demo_sent"] length_server_packet [of "demo_sent ! 1"]
    by (auto simp: demo_sent_def)
  have none: "incomplete []" by (simp add: incomplete_def sizeof_PacketHeader_def)
  have bytes: "length ?bs \<le> RECV_SIZE" "length (contents (m_recvBuffer c)) \<le> 294"
    "contents (m_recvBuffer c) @ ?bs = concat (map server_bytes demo_sent) @ []"
    using len c(4) by (simp_all add: RECV_SIZE_def)
  have layer: "\<forall>j. base_layer demo_client_env j = Some (Some 128)" by (simp add: demo_client_env_def)
  from networkThread_turn_bytes [OF c(2,3) bytes demo_sent_ok none layer len(2)] c(5,6) obtain w3 where
    w3: "networkThread_turn (demo_client_env\<lparr>net_recv := \<lambda>_. Some ?bs\<rparr>) 64 (net g) = Some (Inr w3)"
      "cocos_queue w3 = [updateMe_call (Some 128) 5 0]"
    by (auto simp: demo_sent_def MoveBroadcastResult_init_def)
  have "happens ?bs g (NetworkTurn 64 (Some (take 62 ?bs))) (drop 62 ?bs)"
    by (rule happens.received) (simp_all add: c(1) RECV_SIZE_def)
  moreover have "take 62 ?bs = ?bs" using len(1) by simp
  then have "game_act demo_cocos demo_client_env (AppDelegate demo_cocos) (NetworkTurn 64 (Some (take 62 ?bs))) g =
      Some (Inr (g\<lparr>net := w3\<rparr>))" using w3(1) by (simp only: game_act.simps game.select_convs game.update_convs then_do_simps)
  ultimately have "game_reaches demo_cocos demo_client_env (AppDelegate demo_cocos) demo_director ?bs (drop 62 ?bs) (g\<lparr>net := w3\<rparr>)"
    by (rule game_reaches.acted [OF 1])
  with w3(2) show ?thesis by (intro exI [of _ "drop 62 ?bs"] exI [of _ "g\<lparr>net := w3\<rparr>"]) simp
qed


end
