(* ===== verification/Shared_Screens.thy ===== *)
theory Shared_Screens
  imports Room_Properties Game_Client
begin

text \<open>
  The server and all its game clients together: what the players see on their screens is one sequence
  of moves, that of the server, each player as far as its connection and its engine have come.
\<close>

section \<open>Where the moves put a player\<close>

fun last_move :: "int32 \<Rightarrow> server_packet list \<Rightarrow> (float32 \<times> float32) option" where
  "last_move k [] = None"
| "last_move k (MovePacketResult p # ps) =
     (case last_move k ps of None \<Rightarrow> if ms_mPlayerId p = k then Some (ms_mPosX p, ms_mPosY p) else None | Some xy \<Rightarrow> Some xy)"
| "last_move k (_ # ps) = last_move k ps"

lemma last_move_broadcasts: "last_move k (filter broadcast_packet ps) = last_move k ps"
  by (induction k ps rule: last_move.induct) (simp_all split: option.split)

text \<open>A screen shows another player where its last move has put it.\<close>

lemma shown_last_move:
  assumes "k \<noteq> pid" and "\<forall>p. LoginPacketResult p \<in> set ps \<longrightarrow> ls_mPlayerId p \<noteq> k"
  shows "snd (fold place (snd (shown this pid ps)) v) (sint k) =
    (case last_move k ps of None \<Rightarrow> snd v (sint k) | Some xy \<Rightarrow> Some xy)"
  using assms
proof (induction ps arbitrary: pid v)
  case (Cons q ps)
  show ?case
  proof (cases q)
    case (MovePacketResult p)
    have "sint k = sint (ms_mPlayerId p) \<longleftrightarrow> ms_mPlayerId p = k" by (metis signed_word_eqI)
    with Cons.IH [OF Cons.prems(1)] Cons.prems MovePacketResult show ?thesis
      by (auto split: option.splits)
  next
    case (LoginPacketResult p)
    with Cons.IH [of "ls_mPlayerId p" v] Cons.prems show ?thesis by (cases v) auto
  qed (use Cons in \<open>auto split: option.splits\<close>)
qed simp

section \<open>A client of a member\<close>

text \<open>
  A process of the game client at the other end of the connection of a member: its stream is what was
  queued for the member, up to the first packet that names the player \<open>-1\<close>, which would end the client,
  and it has received no more than the bytes that have left the server.
\<close>

definition readable :: "member \<Rightarrow> server_packet list" where
  "readable m = takeWhile (\<lambda>p. packet_player p \<noteq> -1) (queued m)"

definition client_of ::
    "cocos_env \<Rightarrow> client_env \<Rightarrow> nat \<Rightarrow> member \<Rightarrow> game \<Rightarrow> bool" where
  "client_of cc cenv this m g \<longleftrightarrow> cocos_ok cc \<and> client_env_ok cenv this \<and>
     (\<exists>d0 str. game_reaches cc cenv (AppDelegate cc) d0 (stream (readable m)) str g \<and>
       length (stream (readable m)) \<le> length str + taken m)"

lemma prefix_readable: "prefix (readable m) (queued m)"
  unfolding readable_def by (metis prefixI takeWhile_dropWhile_id)

text \<open>
  The client has come as far as \<open>ps\<close>: it has handled these packets, has run the first \<open>run\<close> of the calls
  they stand for, and its layer \<open>l\<close> stands as these put it.
\<close>

definition has_come ::
    "cocos_env \<Rightarrow> nat \<Rightarrow> game \<Rightarrow> server_packet list \<Rightarrow> cocos_call list \<Rightarrow> layer \<Rightarrow> bool" where
  "has_come cc this g ps run l \<longleftrightarrow>
     snd (shown (Some this) (-1) ps) = run @ cocos_queue (net g) \<and> scene_layer (game_director g) = Some l \<and>
     (my_position l, peer_position l) = fold place run
       (Some (fdiv cc (fst (content_size cc ''Player.png'')) f_two, fdiv cc (snd (winSize cc)) f_two), Map.empty)"

lemma client_of_comes:
  assumes "client_of cc cenv this m g" and "\<forall>p \<in> set (queued m). room_packet p"
  shows "\<exists>ps run l. prefix ps (queued m) \<and> length (stream ps) \<le> taken m \<and> has_come cc this g ps run l"
proof -
  from assms(1) obtain d0 str where g: "game_reaches cc cenv (AppDelegate cc) d0 (concat (map server_bytes (readable m))) str g"
    "length (stream (readable m)) \<le> length str + taken m" and ok: "cocos_ok cc" "client_env_ok cenv this"
    by (auto simp: client_of_def stream_def)
  have "\<forall>p \<in> set (readable m). server_packet_ok p"
    using assms(2) unfolding readable_def by (auto simp: server_packet_ok_alt dest: set_takeWhileD)
  from game_reaches_ok [OF g(1) ok this] obtain ps qs where ps: "readable m = ps @ qs" "connection_ok this ps qs str (net g)"
    "screen_ok cc this ps (net g) (game_director g)" by (auto simp: game_ok_def)
  have "length str \<le> length (stream qs)"
  proof (cases "s_TcpClient (net g)")
    case (Some a)
    with ps(2) obtain c :: tcp_client where "contents (m_recvBuffer c) @ str = concat (map server_bytes qs)" by (auto simp: connection_ok_def)
    then have "length (contents (m_recvBuffer c) @ str) = length (stream qs)" by (simp add: stream_def)
    then show ?thesis by simp
  qed (use ps(2) in \<open>simp add: connection_ok_def stream_def\<close>)
  with g(2) ps(1) have "length (stream ps) \<le> taken m" by simp
  moreover from ps(3) obtain l run where "has_come cc this g ps run l" by (auto simp: screen_ok_def has_come_def)
  moreover have "prefix ps (queued m)"
    using ps(1) prefix_readable [of m] by (metis prefix_order.trans prefixI)
  ultimately show ?thesis by blast
qed

lemma has_come_others:
  assumes "has_come cc this g ps run l" and "cocos_queue (net g) = []" and "k \<noteq> -1"
    and "\<forall>p. LoginPacketResult p \<in> set ps \<longrightarrow> ls_mPlayerId p \<noteq> k"
  shows "peer_position l (sint k) = last_move k (filter broadcast_packet ps)"
proof -
  let ?start = "(Some (fdiv cc (fst (content_size cc ''Player.png'')) f_two, fdiv cc (snd (winSize cc)) f_two),
    Map.empty :: int \<rightharpoonup> float32 \<times> float32)"
  from assms(1,2) have "(my_position l, peer_position l) = fold place (snd (shown (Some this) (-1) ps)) ?start"
    by (simp add: has_come_def)
  from arg_cong [OF this, of snd] shown_last_move [OF assms(3,4), of "Some this" ?start] show ?thesis
    by (simp add: last_move_broadcasts split: option.split)
qed

section \<open>All screens\<close>

lemma prefix_filter: "prefix ps qs \<Longrightarrow> \<exists>n. filter P ps = take n (filter P qs)"
  by (auto simp: prefix_def intro: exI [of _ "length (filter P ps)"])

text \<open>
  The client follows a log of broadcasts from the point where its member has joined: it has handled the
  next \<open>n\<close> of them, none ahead of the bytes that have left the server, and when its engine has run all
  that was posted, every player that it has not been itself stands where its last move among them has
  put it.
\<close>

definition follows_log :: "server_packet list \<Rightarrow> member \<Rightarrow> cocos_env \<Rightarrow> nat \<Rightarrow> game \<Rightarrow> bool" where
  "follows_log log m cc this g \<longleftrightarrow>
     (\<exists>ps run l n. prefix ps (queued m) \<and> length (stream ps) \<le> taken m \<and> has_come cc this g ps run l \<and>
       filter broadcast_packet ps = take n (drop (joined_at m) log) \<and>
       (cocos_queue (net g) = [] \<longrightarrow> (\<forall>k. k \<noteq> -1 \<and> (\<forall>p. LoginPacketResult p \<in> set ps \<longrightarrow> ls_mPlayerId p \<noteq> k) \<longrightarrow>
         peer_position l (sint k) = last_move k (take n (drop (joined_at m) log)))))"

lemma client_follows:
  assumes "client_of cc cenv this m g" and "\<forall>p \<in> set (queued m). room_packet p"
    and "filter broadcast_packet (queued m) = drop (joined_at m) log"
  shows "follows_log log m cc this g"
proof -
  from client_of_comes [OF assms(1,2)] obtain ps run l where
    ps: "prefix ps (queued m)" "length (stream ps) \<le> taken m" "has_come cc this g ps run l" by blast
  from prefix_filter [OF ps(1), of broadcast_packet] assms(3) obtain n where
    n: "filter broadcast_packet ps = take n (drop (joined_at m) log)" by auto
  have "\<forall>k. k \<noteq> -1 \<and> (\<forall>p. LoginPacketResult p \<in> set ps \<longrightarrow> ls_mPlayerId p \<noteq> k) \<longrightarrow>
      peer_position l (sint k) = last_move k (take n (drop (joined_at m) log))" if "cocos_queue (net g) = []"
    using has_come_others [OF ps(3) that] unfolding n by blast
  with ps n show ?thesis unfolding follows_log_def by blast
qed


text \<open>The server with one connected session, and a client that has just been launched.\<close>

lemma demo_launched: "\<exists>g. client_of demo_cocos demo_client_env 128 m g \<and> cocos_queue (net g) = []"
proof -
  have "initWithColor demo_cocos" by (simp add: demo_cocos_def)
  from HelloWorld_init_ok [OF demo_cocos_ok this] obtain l where "HelloWorld_init demo_cocos layer_new = Inr (True, l)" by blast
  then obtain d where "didFinishLaunching (AppDelegate demo_cocos) demo_director = Inr (True, d)"
    by (simp add: AppDelegate_def applicationDidFinishLaunching_def createScene_def Let_def)
  from game_reaches.launched [OF this, of demo_cocos demo_client_env "stream (readable m)"] demo_cocos_ok demo_client_env_ok
  have "client_of demo_cocos demo_client_env 128 m \<lparr>net = client_world_init, game_director = d\<rparr>"
    unfolding client_of_def
    by (intro conjI exI [of _ demo_director] exI [of _ "stream (readable m)"]) simp_all
  then show ?thesis by (intro exI) (auto simp: client_world_init_def)
qed


end
