(* ===== verification/C_Strings.thy ===== *)
theory C_Strings
  imports EGS_Prelude
begin

text \<open>
  Numbers as text, as the C library prints and reads them: the conversions \<open>%d\<close>, \<open>%4d\<close> and \<open>%02d\<close> of
  the formatted output, and \<open>atoi\<close>.
\<close>

section \<open>Printing\<close>

text \<open>\<open>%d\<close>.\<close>

fun nat_string :: "nat \<Rightarrow> string" where
  "nat_string n = (if n < 10 then [char_of (48 + n)] else nat_string (n div 10) @ [char_of (48 + n mod 10)])"

declare nat_string.simps [simp del]

definition int_string :: "int \<Rightarrow> string" where
  "int_string i = (if i < 0 then ''-'' @ nat_string (nat (- i)) else nat_string (nat i))"

text \<open>Padded on the left to a width.\<close>

definition pad_left :: "char \<Rightarrow> nat \<Rightarrow> string \<Rightarrow> string" where
  "pad_left c w str = replicate (w - length str) c @ str"

section \<open>Reading\<close>

fun digits_value :: "nat \<Rightarrow> string \<Rightarrow> nat" where
  "digits_value acc [] = acc"
| "digits_value acc (c # cs) =
     (if 48 \<le> (of_char c :: nat) \<and> (of_char c :: nat) \<le> 57 then digits_value (10 * acc + (of_char c - 48)) cs else acc)"

definition is_space :: "char \<Rightarrow> bool" where
  "is_space c \<longleftrightarrow> (of_char c :: nat) = 32 \<or> 9 \<le> (of_char c :: nat) \<and> (of_char c :: nat) \<le> 13"

definition atoi :: "string \<Rightarrow> int" where
  "atoi str =
     (case dropWhile is_space str of
        [] \<Rightarrow> 0
      | c # cs \<Rightarrow> if c = CHR ''-'' then - int (digits_value 0 cs)
                  else if c = CHR ''+'' then int (digits_value 0 cs) else int (digits_value 0 (c # cs)))"

section \<open>Digits\<close>

lemma length_nat_string: "n < 10 ^ k \<Longrightarrow> 0 < k \<Longrightarrow> length (nat_string n) \<le> k"
proof (induction n arbitrary: k rule: nat_string.induct)
  case (1 n)
  show ?case
  proof (cases "n < 10")
    case True
    with "1.prems" show ?thesis by (subst nat_string.simps) simp
  next
    case False
    have "k \<noteq> 1" using "1.prems" False by (auto intro: notI)
    with "1.prems"(2) obtain j where j: "k = Suc j" "0 < j" by (cases k) auto
    with "1.prems" have "n div 10 < 10 ^ j" by (simp add: less_mult_imp_div_less mult.commute)
    from "1.IH" [OF False this j(2)] j(1) False show ?thesis by (subst nat_string.simps) simp
  qed
qed

definition digit :: "char \<Rightarrow> bool" where
  "digit c \<longleftrightarrow> 48 \<le> (of_char c :: nat) \<and> (of_char c :: nat) \<le> 57"

lemma digit_char_of: "(n :: nat) < 10 \<Longrightarrow> digit (char_of (48 + n))"
  by (simp add: digit_def)

lemma digits_value_append: "\<forall>c \<in> set xs. digit c \<Longrightarrow> digits_value acc (xs @ ys) = digits_value (digits_value acc xs) ys"
  by (induction xs arbitrary: acc) (simp_all add: digit_def)

lemma nat_string_digits: "\<forall>c \<in> set (nat_string n). digit c"
proof (induction n rule: nat_string.induct)
  case (1 n)
  then show ?case
    by (subst nat_string.simps) (cases "n < 10"; simp add: digit_char_of)
qed

lemma nat_string_nonempty: "nat_string n \<noteq> []"
  by (subst nat_string.simps) simp

lemma digits_value_nat_string: "digits_value 0 (nat_string n) = n"
proof (induction n rule: nat_string.induct)
  case (1 n)
  show ?case
  proof (cases "n < 10")
    case True
    then show ?thesis by (subst nat_string.simps) simp
  next
    case False
    with 1 show ?thesis by (subst nat_string.simps) (simp add: digits_value_append nat_string_digits)
  qed
qed

lemma atoi_nat_string: "atoi (nat_string n) = int n"
proof -
  obtain c cs where s: "nat_string n = c # cs" using nat_string_nonempty [of n] by (cases "nat_string n") auto
  then have "digit c" using nat_string_digits [of n] by simp
  then have "\<not> is_space c" "c \<noteq> CHR ''-''" "c \<noteq> CHR ''+''" by (auto simp: digit_def is_space_def)
  then show ?thesis using s digits_value_nat_string [of n] by (simp add: atoi_def)
qed

lemma nat_string_no_option: "nat_string n \<noteq> CHR ''-'' # cs"
  using nat_string_digits [of n] by (auto simp: digit_def)

lemma nat_string_inject [simp]: "nat_string m = nat_string n \<longleftrightarrow> m = n"
  by (metis digits_value_nat_string)

text \<open>A number of at most \<open>w\<close> digits that is padded with zeros to width \<open>w\<close> is read back.\<close>

lemma digits_value_zeros: "digits_value 0 (replicate k (CHR ''0'') @ str) = digits_value 0 str"
  by (induction k) simp_all

lemma length_pad_nat: "n < 10 ^ w \<Longrightarrow> 0 < w \<Longrightarrow> length (pad_left c w (nat_string n)) = w"
  using length_nat_string [of n w] by (simp add: pad_left_def)

lemma pad_zero_inject:
  "pad_left (CHR ''0'') w (nat_string m) = pad_left (CHR ''0'') w (nat_string n) \<longleftrightarrow> m = n"
  by (metis digits_value_nat_string digits_value_zeros pad_left_def)

text \<open>Padding with blanks can be undone as well, since a digit is no blank.\<close>

lemma pad_blank_inject:
  "pad_left (CHR '' '') w (nat_string m) = pad_left (CHR '' '') w (nat_string n) \<longleftrightarrow> m = n"
proof -
  have blank: "\<not> digit (CHR '' '')" by (simp add: digit_def)
  have "dropWhile (\<lambda>c. c = CHR '' '') (pad_left (CHR '' '') w (nat_string k)) = nat_string k" for k
  proof -
    have "hd (nat_string k) \<noteq> CHR '' ''" using nat_string_digits [of k] nat_string_nonempty [of k] blank by (cases "nat_string k") auto
    with nat_string_nonempty [of k] have "dropWhile (\<lambda>c. c = CHR '' '') (nat_string k) = nat_string k"
      by (cases "nat_string k") auto
    then show ?thesis by (simp add: pad_left_def dropWhile_append)
  qed
  then show ?thesis by (metis nat_string_inject)
qed

end
