(* ===== verification/Dummy_Client.thy ===== *)
theory Dummy_Client
  imports Packet_Streams C_Strings
begin

text \<open>
  The load generator: \<open>DummyClient/DummyClient/ClientSession.h\<close>, \<open>ClientSession.cpp\<close>,
  \<open>ClientManager.h\<close>, \<open>ClientManager.cpp\<close>, \<open>DummyClient.h\<close> and \<open>DummyClient.cpp\<close>. A session is a chain of
  asynchronous operations of \<open>boost::asio\<close>: each handler posts the next one. Operations that are
  posted and not completed are part of the state; \<open>rand\<close>, the clock and the results of the library
  are an environment. Console output is not modelled, except that \<open>%s\<close> reads its argument.
\<close>

section \<open>State\<close>

definition RECV_BUF_SIZE :: nat where "RECV_BUF_SIZE = 4096"

definition START_PLAYER_ID :: int32 where "START_PLAYER_ID = 1001"

text \<open>
  A wait that a new expiry time has cancelled is \<open>TimerOp None\<close>: its handler, which takes no error
  argument, is called all the same.
\<close>

datatype async_op =
    ConnectOp
  | ReadHeaderOp
  | ReadPayloadOp nat
  | TimerOp "nat option"

text \<open>
  \<open>std_rand\<close> gives the numbers that follow a seed; \<open>write_fails\<close> tells which calls of \<open>asio::write\<close>
  throw. \<open>fadd_int\<close> and \<open>fsub_int\<close> are \<open>float\<close> arithmetic with an \<open>int\<close>.
\<close>

record dummy_env =
  std_rand :: "nat \<Rightarrow> nat \<Rightarrow> nat"
  clock :: "nat \<Rightarrow> nat"
  write_fails :: "nat \<Rightarrow> bool"
  float_of_nat :: "nat \<Rightarrow> float32"
  fadd_int :: "float32 \<Rightarrow> int \<Rightarrow> float32"
  fsub_int :: "float32 \<Rightarrow> int \<Rightarrow> float32"
  dummy_memory :: "nat \<Rightarrow> byte"
  valid_address :: "byte list \<Rightarrow> bool"

record dummy_session =
  d_mReadBuf :: "byte list"
  d_mLogon :: bool
  d_mPlayerId :: int32
  d_mPosX :: float32
  d_mPosY :: float32
  d_pending :: "async_op list"
  d_written :: "byte list list"

text \<open>The state of the C library that the sessions share: the seed, the numbers drawn, the calls made.\<close>

record dummy_lib =
  seed :: nat
  draws :: nat
  lib_calls :: nat

definition draw :: "dummy_env \<Rightarrow> dummy_lib \<Rightarrow> nat \<times> dummy_lib" where
  "draw env g = (std_rand env (seed g) (draws g), g\<lparr>draws := draws g + 1\<rparr>)"

section \<open>Sessions\<close>

definition dummy_ClientSession :: "dummy_env \<Rightarrow> int32 \<Rightarrow> dummy_lib \<Rightarrow> dummy_session \<times> dummy_lib" where
  "dummy_ClientSession env pid g =
     (let g = g\<lparr>seed := clock env (lib_calls g), draws := 0, lib_calls := lib_calls g + 1\<rparr>;
          (rx, g) = draw env g; (ry, g) = draw env g
      in (\<lparr>d_mReadBuf = map (dummy_memory env) [0..<RECV_BUF_SIZE], d_mLogon = False, d_mPlayerId = pid,
           d_mPosX = float_of_nat env (rx mod 500 + 200), d_mPosY = float_of_nat env (ry mod 300 + 100),
           d_pending = [], d_written = []\<rparr>, g))"

definition dummy_Connect :: "dummy_session \<Rightarrow> dummy_session" where
  "dummy_Connect s = s\<lparr>d_pending := d_pending s @ [ConnectOp]\<rparr>"

definition PostReadHeader :: "dummy_session \<Rightarrow> dummy_session" where
  "PostReadHeader s = s\<lparr>d_mReadBuf := replicate RECV_BUF_SIZE 0, d_pending := d_pending s @ [ReadHeaderOp]\<rparr>"

text \<open>The parameter \<open>len\<close> is an \<open>int\<close>; the buffer that is made of it has a \<open>size_t\<close> of bytes.\<close>

definition PostReadPayload :: "int \<Rightarrow> dummy_session \<Rightarrow> dummy_session" where
  "PostReadPayload len s = s\<lparr>d_pending := d_pending s @ [ReadPayloadOp (nat (len mod 4294967296))]\<rparr>"

definition SendPacket :: "dummy_env \<Rightarrow> byte list \<Rightarrow> dummy_session \<times> dummy_lib \<Rightarrow> (dummy_session \<times> dummy_lib) res" where
  "SendPacket env pkt sg =
     (case sg of (s, g) \<Rightarrow>
        rbind (mem_read pkt 0 (sz_of_short (mSize (PacketHeader_at pkt)))) (\<lambda>d.
        if write_fails env (lib_calls g) then Inl Thrown
        else Inr (s\<lparr>d_written := d_written s @ [d]\<rparr>, g\<lparr>lib_calls := lib_calls g + 1\<rparr>)))"

text \<open>\<open>expires_from_now\<close> cancels the wait under way, if any.\<close>

definition DoTimer :: "nat \<Rightarrow> dummy_session \<Rightarrow> dummy_session" where
  "DoTimer after s =
     s\<lparr>d_pending := map (\<lambda>op. case op of TimerOp _ \<Rightarrow> TimerOp None | _ \<Rightarrow> op) (d_pending s) @ [TimerOp (Some after)]\<rparr>"

text \<open>The error argument is not looked at.\<close>

definition HandleConnect :: "dummy_env \<Rightarrow> bool \<Rightarrow> dummy_session \<times> dummy_lib \<Rightarrow> (dummy_session \<times> dummy_lib) res" where
  "HandleConnect env err sg =
     (case sg of (s, g) \<Rightarrow>
        let s = PostReadHeader s; pktLogin = LoginRequest_init\<lparr>lr_mPlayerId := d_mPlayerId s\<rparr>
        in SendPacket env (LoginRequest_bytes pktLogin) (s, g))"

text \<open>\<open>static_cast<int>(mReadBuf[1]) << 8 | mReadBuf[0]\<close>: the bytes are not signed.\<close>

definition buf_int16 :: "byte list \<Rightarrow> nat \<Rightarrow> int" where
  "buf_int16 buf i = 256 * uint (buf ! (i + 1)) + uint (buf ! i)"

definition HandleReadHeader :: "bool \<Rightarrow> dummy_session \<Rightarrow> dummy_session" where
  "HandleReadHeader err s =
     (if err then s else PostReadPayload (buf_int16 (d_mReadBuf s) 0 - int sizeof_PacketHeader) s)"

text \<open>\<open>memcpy_s (&pktResult, pktLen, &mReadBuf, pktLen)\<close> into a packet with the given bytes.\<close>

definition copy_packet :: "byte list \<Rightarrow> int \<Rightarrow> byte list \<Rightarrow> byte list res" where
  "copy_packet buf pktLen pkt = rbind (mem_read buf 0 (nat pktLen)) (\<lambda>d. mem_write pkt 0 d)"

definition OnTick_delay :: nat where "OnTick_delay = 1000"

definition HandleReadPayload :: "dummy_env \<Rightarrow> bool \<Rightarrow> dummy_session \<times> dummy_lib \<Rightarrow> (dummy_session \<times> dummy_lib) res" where
  "HandleReadPayload env err sg =
     (case sg of (s, g) \<Rightarrow>
        if err then Inr (s, g)
        else
          let pktLen = buf_int16 (d_mReadBuf s) 0; pktType = buf_int16 (d_mReadBuf s) 2 in
          rbind
            (if pktType = PacketTypes_value PKT_SC_LOGIN then
               let junk = map (dummy_memory env) [0..<8] in
               rbind (copy_packet (d_mReadBuf s) pktLen
                 (LoginResult_bytes (LoginResult_init (word32_at junk 0) (word32_at junk 4)))) (\<lambda>bs.
               let pktResult = LoginResult_at bs; s = s\<lparr>d_mLogon := True\<rparr> in
               rbind (strlen (ls_mName pktResult)) (\<lambda>_.
               let (r, g) = draw env g
               in Inr (DoTimer (r mod 1000) s, g)))
             else if pktType = PacketTypes_value PKT_SC_CHAT then
               rbind (copy_packet (d_mReadBuf s) pktLen (ChatBroadcastResult_bytes ChatBroadcastResult_init)) (\<lambda>bs.
               let pktResult = ChatBroadcastResult_at bs in
               rbind (strlen (cs_mName pktResult)) (\<lambda>_.
               rbind (strlen (cs_mChat pktResult)) (\<lambda>_.
               Inr (s, g))))
             else if pktType = PacketTypes_value PKT_SC_MOVE then
               rbind (copy_packet (d_mReadBuf s) pktLen (MoveBroadcastResult_bytes MoveBroadcastResult_init)) (\<lambda>bs.
               let pktResult = MoveBroadcastResult_at bs in
               Inr (if d_mPlayerId s = ms_mPlayerId pktResult
                    then s\<lparr>d_mPosX := ms_mPosX pktResult, d_mPosY := ms_mPosY pktResult\<rparr> else s, g))
             else Inr (s, g))
            (\<lambda>(s, g). Inr (PostReadHeader s, g)))"

definition chat_text :: "int32 \<Rightarrow> string" where
  "chat_text pid = '' TEST CHAT: HELLO~~ This is Player '' @ int_string (sint pid) @ '' =====''"

text \<open>\<open>sprintf_s\<close> into an array.\<close>

definition sprintf_s :: "byte list \<Rightarrow> string \<Rightarrow> byte list res" where
  "sprintf_s dst str = strcpy_s dst (map of_char str @ [0])"

definition dummy_OnTick :: "dummy_env \<Rightarrow> dummy_session \<times> dummy_lib \<Rightarrow> (dummy_session \<times> dummy_lib) res" where
  "dummy_OnTick env sg =
     (case sg of (s, g) \<Rightarrow>
        if \<not> d_mLogon s then Inr (s, g)
        else
          let (r, g) = draw env g in
          rbind
            (if r mod 5 = 0 then
               let sendPkt = ChatBroadcastRequest_init\<lparr>cr_mPlayerId := d_mPlayerId s\<rparr> in
               rbind (sprintf_s (cr_mChat sendPkt) (chat_text (d_mPlayerId s))) (\<lambda>chat.
               SendPacket env (ChatBroadcastRequest_bytes (sendPkt\<lparr>cr_mChat := chat\<rparr>)) (s, g))
             else
               let (rx, g) = draw env g; (ry, g) = draw env g;
                   sendPkt = MoveRequest_init\<lparr>mr_mPlayerId := d_mPlayerId s,
                     mr_mPosX := fsub_int env (fadd_int env (d_mPosX s) (int (rx mod 100))) 50,
                     mr_mPosY := fsub_int env (fadd_int env (d_mPosY s) (int (ry mod 60))) 30\<rparr>
               in SendPacket env (MoveRequest_bytes sendPkt) (s, g))
            (\<lambda>(s, g). Inr (DoTimer OnTick_delay s, g)))"

section \<open>Completions\<close>

text \<open>
  A completion takes an operation that is pending and calls its handler. A read is completed with the
  bytes it has put into the buffer, all it was asked for unless it failed.
\<close>

definition complete_read :: "nat \<Rightarrow> byte list \<Rightarrow> dummy_session \<Rightarrow> dummy_session res" where
  "complete_read off bs s = rbind (mem_write (d_mReadBuf s) off bs) (\<lambda>buf. Inr (s\<lparr>d_mReadBuf := buf\<rparr>))"

fun complete :: "dummy_env \<Rightarrow> async_op \<Rightarrow> bool \<Rightarrow> byte list \<Rightarrow> dummy_session \<times> dummy_lib \<Rightarrow> (dummy_session \<times> dummy_lib) res" where
  "complete env ConnectOp err bs (s, g) = HandleConnect env err (s\<lparr>d_pending := remove1 ConnectOp (d_pending s)\<rparr>, g)"
| "complete env ReadHeaderOp err bs (s, g) =
     rbind (complete_read 0 bs (s\<lparr>d_pending := remove1 ReadHeaderOp (d_pending s)\<rparr>)) (\<lambda>s. Inr (HandleReadHeader err s, g))"
| "complete env (ReadPayloadOp n) err bs (s, g) =
     rbind (complete_read sizeof_PacketHeader bs (s\<lparr>d_pending := remove1 (ReadPayloadOp n) (d_pending s)\<rparr>)) (\<lambda>s.
     HandleReadPayload env err (s, g))"
| "complete env (TimerOp t) err bs (s, g) = dummy_OnTick env (s\<lparr>d_pending := remove1 (TimerOp t) (d_pending s)\<rparr>, g)"

section \<open>The program\<close>

text \<open>\<open>std::find\<close> over the arguments, then the one behind it.\<close>

definition GetCommandOption :: "string list \<Rightarrow> string \<Rightarrow> string option" where
  "GetCommandOption argv comparand =
     (case dropWhile (\<lambda>a. a \<noteq> comparand) argv of
        _ # value # _ \<Rightarrow> Some value
      | _ \<Rightarrow> None)"

record dummy_config =
  MAX_CONNECTION :: int
  CONNECT_ADDR :: "byte list"
  CONNECT_PORT :: "16 word"

text \<open>The part of \<open>main\<close> that reads the arguments, \<open>argv[0]\<close> included.\<close>

definition dummy_main_config :: "string list \<Rightarrow> dummy_config res" where
  "dummy_main_config argv =
     rbind (strcpy_s (replicate 32 0) (map of_char ''127.0.0.1'' @ [0])) (\<lambda>addr.
     let cfg = \<lparr>MAX_CONNECTION = 100, CONNECT_ADDR = addr, CONNECT_PORT = 9001\<rparr> in
     if length argv < 2 then Inr cfg
     else
       let ipAddr = GetCommandOption argv ''--ip''; port = GetCommandOption argv ''--port'';
           session = GetCommandOption argv ''--session'' in
       rbind (case ipAddr of None \<Rightarrow> Inr cfg
              | Some a \<Rightarrow> rbind (strcpy_s (CONNECT_ADDR cfg) (map of_char a @ [0])) (\<lambda>addr. Inr (cfg\<lparr>CONNECT_ADDR := addr\<rparr>)))
         (\<lambda>cfg.
       let cfg = (case port of None \<Rightarrow> cfg | Some p \<Rightarrow> cfg\<lparr>CONNECT_PORT := word_of_int (atoi p)\<rparr>);
           cfg = (case session of None \<Rightarrow> cfg | Some n \<Rightarrow> cfg\<lparr>MAX_CONNECTION := atoi n\<rparr>)
       in Inr cfg))"

text \<open>The class \<open>ClientManager\<close>: its constructor, and the loop of \<open>Start\<close> with \<open>n\<close> rounds left.\<close>

record dummy_manager =
  d_mClientList :: "dummy_session list"
  d_mTotalDummyCount :: int

definition dummy_ClientManager :: "int \<Rightarrow> dummy_manager" where
  "dummy_ClientManager count = \<lparr>d_mClientList = [], d_mTotalDummyCount = count\<rparr>"

fun Start_loop :: "dummy_env \<Rightarrow> nat \<Rightarrow> int32 \<Rightarrow> dummy_lib \<Rightarrow> dummy_session list \<times> dummy_lib" where
  "Start_loop env 0 i g = ([], g)"
| "Start_loop env (Suc n) i g =
     (let (newClient, g) = dummy_ClientSession env (START_PLAYER_ID + i) g;
          (rest, g) = Start_loop env n (i + 1) g
      in (dummy_Connect newClient # rest, g))"

text \<open>
  \<open>io_service::run\<close>: the completions happen in some order, given as a list of session, operation,
  error and bytes; one that is not pending does not happen. An exception in a handler leaves \<open>run\<close>.
\<close>

fun io_run :: "dummy_env \<Rightarrow> (nat \<times> async_op \<times> bool \<times> byte list) list \<Rightarrow> dummy_session list \<times> dummy_lib \<Rightarrow>
    (dummy_session list \<times> dummy_lib) res" where
  "io_run env [] (ss, g) = Inr (ss, g)"
| "io_run env ((k, op, err, bs) # es) (ss, g) =
     (if k < length ss \<and> op \<in> set (d_pending (ss ! k))
      then rbind (complete env op err bs (ss ! k, g)) (\<lambda>(s, g). io_run env es (ss[k := s], g))
      else io_run env es (ss, g))"

text \<open>The manager keeps its sessions alive while \<open>run\<close> works on them.\<close>

definition dummy_Start :: "dummy_env \<Rightarrow> (nat \<times> async_op \<times> bool \<times> byte list) list \<Rightarrow> dummy_config \<Rightarrow>
    dummy_manager \<Rightarrow> dummy_lib \<Rightarrow> (dummy_manager \<times> dummy_lib) res" where
  "dummy_Start env es cfg mgr g =
     (if \<not> valid_address env (CONNECT_ADDR cfg) then Inl Thrown
      else
        let (newClients, g) = Start_loop env (nat (d_mTotalDummyCount mgr)) 0 g in
        rbind (io_run env es (d_mClientList mgr @ newClients, g)) (\<lambda>(ss, g).
        Inr (mgr\<lparr>d_mClientList := ss\<rparr>, g)))"

text \<open>\<open>main\<close>: an exception is caught and reported, and the program ends. \<open>None\<close> stands for this end.\<close>

definition dummy_main :: "dummy_env \<Rightarrow> (nat \<times> async_op \<times> bool \<times> byte list) list \<Rightarrow> string list \<Rightarrow> dummy_lib \<Rightarrow>
    (dummy_manager \<times> dummy_lib) option res" where
  "dummy_main env es argv g =
     rbind (dummy_main_config argv) (\<lambda>cfg.
     case dummy_Start env es cfg (dummy_ClientManager (MAX_CONNECTION cfg)) g of
       Inl e \<Rightarrow> if e = Thrown then Inr None else Inl e
     | Inr r \<Rightarrow> Inr (Some r))"

section \<open>A packet of the server\<close>

text \<open>The two bytes of a 16-bit field, as the load generator puts them together.\<close>

lemma buf_int16_word: "buf_int16 bs i = uint (word16_at bs i)"
proof -
  let ?w = "word16_at bs i"
  have "ucast ?w = bs ! i" "ucast (drop_bit 8 ?w) = bs ! (i + 1)"
    by (rule bit_word_eqI; simp add: word16_at_def bit_simps)+
  moreover have "uint (ucast ?w :: byte) = uint ?w mod 256" by (simp add: unsigned_ucast_eq take_bit_eq_mod)
  moreover have "uint (ucast (drop_bit 8 ?w) :: byte) = uint ?w div 256 mod 256"
    by (simp add: unsigned_ucast_eq take_bit_eq_mod drop_bit_eq_div uint_div)
  ultimately have "uint (bs ! i) = uint ?w mod 256" "uint (bs ! (i + 1)) = uint ?w div 256 mod 256" by simp_all
  moreover have "0 \<le> uint ?w div 256" by (simp add: pos_imp_zdiv_nonneg_iff)
  moreover have "uint ?w div 256 < 256" using uint_lt2p [of ?w] by simp
  moreover note mod_pos_pos_trivial [of "uint ?w div 256" 256]
  ultimately show ?thesis using mult_div_mod_eq [of 256 "uint ?w"] by (simp add: buf_int16_def)
qed

text \<open>The waits of a session after a new expiry time.\<close>

abbreviation cancelled :: "async_op list \<Rightarrow> async_op list" where
  "cancelled ops \<equiv> map (\<lambda>op. case op of TimerOp _ \<Rightarrow> TimerOp None | _ \<Rightarrow> op) ops"

text \<open>What a packet changes: whether the session is logged on, and its position.\<close>

fun dummy_effect :: "server_packet \<Rightarrow> dummy_session \<Rightarrow> dummy_session" where
  "dummy_effect (LoginPacketResult p) s = s\<lparr>d_mLogon := True\<rparr>"
| "dummy_effect (ChatPacketResult p) s = s"
| "dummy_effect (MovePacketResult p) s =
     (if d_mPlayerId s = ms_mPlayerId p then s\<lparr>d_mPosX := ms_mPosX p, d_mPosY := ms_mPosY p\<rparr> else s)"

fun is_login :: "server_packet \<Rightarrow> bool" where
  "is_login (LoginPacketResult p) = True"
| "is_login p = False"

lemma header_fields:
  assumes "server_packet_ok p" and "take 4 bs = take 4 (server_bytes p)"
  shows "buf_int16 bs 0 = int (length (server_bytes p))"
    and "buf_int16 bs 2 = (case p of LoginPacketResult _ \<Rightarrow> 2 | ChatPacketResult _ \<Rightarrow> 12 | MovePacketResult _ \<Rightarrow> 22)"
proof -
  have "word16_at bs 0 = word16_at (take 4 bs) 0" "word16_at bs 2 = word16_at (take 4 bs) 2"
    by (simp_all add: word16_at_def)
  then have w: "word16_at bs 0 = mSize (PacketHeader_at (take 4 (server_bytes p)))"
      "word16_at bs 2 = mType (PacketHeader_at (take 4 (server_bytes p)))"
    unfolding assms(2) by (simp_all add: PacketHeader_at_def)
  note h = header_server_packet [OF assms(1), unfolded sizeof_PacketHeader_def]
  show "buf_int16 bs 0 = int (length (server_bytes p))"
    unfolding buf_int16_word w h length_server_packet [OF assms(1)] by (cases p) simp_all
  show "buf_int16 bs 2 = (case p of LoginPacketResult _ \<Rightarrow> 2 | ChatPacketResult _ \<Rightarrow> 12 | MovePacketResult _ \<Rightarrow> 22)"
    unfolding buf_int16_word w h by (cases p) simp_all
qed

lemma copy_packet_whole:
  assumes "length pkt = n" and "n \<le> length buf"
  shows "copy_packet buf (int n) pkt = Inr (take n buf)"
  using assms by (simp add: copy_packet_def)

lemma HandleReadPayload_packet:
  assumes "server_packet_ok p" and "d_mReadBuf s = server_bytes p @ rest"
  shows "\<exists>g' r. HandleReadPayload env False (s, g) =
    Inr (PostReadHeader (if is_login p then DoTimer (r mod 1000) (dummy_effect p s) else dummy_effect p s), g')"
proof -
  have "take 4 (d_mReadBuf s) = take 4 (server_bytes p)"
    using assms length_server_packet [OF assms(1)] by (cases p) simp_all
  note h = header_fields [OF assms(1) this]
  show ?thesis
  proof (cases p)
    case (LoginPacketResult q)
    with assms have q: "copy_packet (d_mReadBuf s) (buf_int16 (d_mReadBuf s) 0) (LoginResult_bytes (LoginResult_init a b)) =
        Inr (LoginResult_bytes q)" for a b
      unfolding h by (subst copy_packet_whole) (simp_all add: LoginResult_init_def terminated_def)
    obtain k where "strnlen (ls_mName q) = Some k" using LoginPacketResult assms by (auto elim: terminated_strnlen)
    with LoginPacketResult assms(1) h(2) packet_roundtrip(2) [of q] show ?thesis
      by (auto simp: HandleReadPayload_def q strlen_ok draw_def terminated_def Let_def)
  next
    case (ChatPacketResult q)
    with assms have q: "copy_packet (d_mReadBuf s) (buf_int16 (d_mReadBuf s) 0) (ChatBroadcastResult_bytes ChatBroadcastResult_init) =
        Inr (ChatBroadcastResult_bytes q)"
      unfolding h by (subst copy_packet_whole) (simp_all add: ChatBroadcastResult_init_def terminated_def)
    obtain j k where "strnlen (cs_mName q) = Some j" "strnlen (cs_mChat q) = Some k"
      using ChatPacketResult assms by (auto elim!: terminated_strnlen)
    with ChatPacketResult assms(1) h(2) packet_roundtrip(4) [of q] show ?thesis
      by (simp add: HandleReadPayload_def q strlen_ok terminated_def Let_def)
  next
    case (MovePacketResult q)
    with assms have q: "copy_packet (d_mReadBuf s) (buf_int16 (d_mReadBuf s) 0) (MoveBroadcastResult_bytes MoveBroadcastResult_init) =
        Inr (MoveBroadcastResult_bytes q)"
      unfolding h by (subst copy_packet_whole) (simp_all)
    with MovePacketResult h(2) packet_roundtrip(6) [of q] show ?thesis
      by (auto simp: HandleReadPayload_def q Let_def)
  qed
qed

lemma complete_header:
  assumes "server_packet_ok p" and "length (d_mReadBuf s) = RECV_BUF_SIZE"
  shows "complete env ReadHeaderOp False (take 4 (server_bytes p)) (s, g) =
    Inr (s\<lparr>d_pending := remove1 ReadHeaderOp (d_pending s) @ [ReadPayloadOp (length (server_bytes p) - 4)],
           d_mReadBuf := take 4 (server_bytes p) @ drop 4 (d_mReadBuf s)\<rparr>, g)"
proof -
  let ?bs = "server_bytes p"
  have len: "4 < length ?bs" "length ?bs < 300" using length_server_packet [OF assms(1)] by (cases p; simp)+
  have "buf_int16 (take 4 ?bs @ drop 4 (d_mReadBuf s)) 0 = int (length ?bs)"
    using header_fields(1) [OF assms(1)] len by simp
  moreover have "int (length ?bs) - 4 = int (length ?bs - 4)" "int (length ?bs - 4) mod 4294967296 = int (length ?bs - 4)"
    using len by simp_all
  ultimately show ?thesis
    using len assms(2) by (simp add: complete_read_def HandleReadHeader_def PostReadPayload_def sizeof_PacketHeader_def RECV_BUF_SIZE_def)
qed

lemma complete_payload:
  assumes "server_packet_ok p" and "length (d_mReadBuf s) = RECV_BUF_SIZE"
    and "take 4 (d_mReadBuf s) = take 4 (server_bytes p)"
  shows "\<exists>g' r. complete env (ReadPayloadOp (length (server_bytes p) - 4)) False (drop 4 (server_bytes p)) (s, g) =
    Inr (let t = dummy_effect p (s\<lparr>d_pending := remove1 (ReadPayloadOp (length (server_bytes p) - 4)) (d_pending s),
             d_mReadBuf := server_bytes p @ drop (length (server_bytes p)) (d_mReadBuf s)\<rparr>)
         in PostReadHeader (if is_login p then DoTimer (r mod 1000) t else t), g')"
proof -
  let ?bs = "server_bytes p" and ?n = "length (server_bytes p)"
  have len: "4 < ?n" "?n < 300" using length_server_packet [OF assms(1)] by (cases p; simp)+
  have "mem_write (d_mReadBuf s) 4 (drop 4 ?bs) = Inr (?bs @ drop ?n (d_mReadBuf s))"
    using len assms(2,3) append_take_drop_id [of 4 ?bs] by (simp add: mem_write_def RECV_BUF_SIZE_def)
  then show ?thesis
    using HandleReadPayload_packet [OF assms(1), of "s\<lparr>d_pending := remove1 (ReadPayloadOp (?n - 4)) (d_pending s),
      d_mReadBuf := ?bs @ drop ?n (d_mReadBuf s)\<rparr>"]
    by (simp add: complete_read_def sizeof_PacketHeader_def Let_def)
qed

text \<open>
  The load generator reads the packets of the server one by one. With one read of a header
  pending, the header makes it read exactly the rest of the packet, and the rest makes it take over
  what the packet says - it is logged on, and only its own moves change its position - and post the
  read of the next header. A login also starts its timer, within a second. A packet that is announced
  longer than its type, however, is copied over the end of the structure.
\<close>

theorem dummy_reads_packet:
  assumes "server_packet_ok p" and "length (d_mReadBuf s) = RECV_BUF_SIZE" and "d_pending s = ReadHeaderOp # ts"
    and "\<forall>op \<in> set ts. \<exists>t. op = TimerOp t"
  shows "(\<exists>s1 s2 g' r. complete env ReadHeaderOp False (take 4 (server_bytes p)) (s, g) = Inr (s1, g) \<and>
      d_pending s1 = ts @ [ReadPayloadOp (length (server_bytes p) - 4)] \<and>
      complete env (ReadPayloadOp (length (server_bytes p) - 4)) False (drop 4 (server_bytes p)) (s1, g) = Inr (s2, g') \<and>
      d_pending s2 = (if is_login p then cancelled ts @ [TimerOp (Some (r mod 1000))] else ts) @ [ReadHeaderOp] \<and>
      d_written s2 = d_written s \<and> d_mLogon s2 = (d_mLogon s \<or> is_login p) \<and> d_mPlayerId s2 = d_mPlayerId s \<and>
      (d_mPosX s2, d_mPosY s2) = (d_mPosX (dummy_effect p s), d_mPosY (dummy_effect p s))) \<and>
    (\<forall>t g. 46 < buf_int16 (d_mReadBuf t) 0 \<longrightarrow> buf_int16 (d_mReadBuf t) 2 = 2 \<longrightarrow>
      HandleReadPayload env False (t, g) = Inl OutOfBounds)"
proof (intro conjI allI impI)
  let ?n = "length (server_bytes p)"
  let ?s1 = "s\<lparr>d_pending := ts @ [ReadPayloadOp (?n - 4)], d_mReadBuf := take 4 (server_bytes p) @ drop 4 (d_mReadBuf s)\<rparr>"
  have one: "complete env ReadHeaderOp False (take 4 (server_bytes p)) (s, g) = Inr (?s1, g)"
    using complete_header [OF assms(1,2), of env g] assms(3) by simp
  have "ReadPayloadOp (?n - 4) \<notin> set ts" using assms(4) by blast
  then have ops: "remove1 (ReadPayloadOp (?n - 4)) (ts @ [ReadPayloadOp (?n - 4)]) = ts" by (simp add: remove1_append)
  have "length (d_mReadBuf ?s1) = RECV_BUF_SIZE" "take 4 (d_mReadBuf ?s1) = take 4 (server_bytes p)"
    using assms(1,2) length_server_packet [OF assms(1)] by (cases p; simp add: RECV_BUF_SIZE_def)+
  from complete_payload [OF assms(1) this, of env g] obtain g' r where
    "complete env (ReadPayloadOp (?n - 4)) False (drop 4 (server_bytes p)) (?s1, g) =
    Inr (let t = dummy_effect p (?s1\<lparr>d_pending := ts, d_mReadBuf := server_bytes p @ drop ?n (d_mReadBuf ?s1)\<rparr>)
         in PostReadHeader (if is_login p then DoTimer (r mod 1000) t else t), g')" (is "_ = Inr (?s2, _)")
    using ops by auto
  moreover have "d_pending ?s2 = (if is_login p then cancelled ts @ [TimerOp (Some (r mod 1000))] else ts) @ [ReadHeaderOp] \<and>
      d_written ?s2 = d_written s \<and> d_mLogon ?s2 = (d_mLogon s \<or> is_login p) \<and> d_mPlayerId ?s2 = d_mPlayerId s \<and>
      (d_mPosX ?s2, d_mPosY ?s2) = (d_mPosX (dummy_effect p s), d_mPosY (dummy_effect p s))"
    by (cases p) (simp_all add: PostReadHeader_def DoTimer_def)
  ultimately show "\<exists>s1 s2 g' r. complete env ReadHeaderOp False (take 4 (server_bytes p)) (s, g) = Inr (s1, g) \<and>
      d_pending s1 = ts @ [ReadPayloadOp (?n - 4)] \<and>
      complete env (ReadPayloadOp (?n - 4)) False (drop 4 (server_bytes p)) (s1, g) = Inr (s2, g') \<and>
      d_pending s2 = (if is_login p then cancelled ts @ [TimerOp (Some (r mod 1000))] else ts) @ [ReadHeaderOp] \<and>
      d_written s2 = d_written s \<and> d_mLogon s2 = (d_mLogon s \<or> is_login p) \<and> d_mPlayerId s2 = d_mPlayerId s \<and>
      (d_mPosX s2, d_mPosY s2) = (d_mPosX (dummy_effect p s), d_mPosY (dummy_effect p s))"
    using one by (intro exI [of _ ?s1] exI [of _ ?s2] exI [of _ g'] exI [of _ r]) simp
next
  fix t :: dummy_session and g :: dummy_lib
  assume "46 < buf_int16 (d_mReadBuf t) 0" "buf_int16 (d_mReadBuf t) 2 = 2"
  then show "HandleReadPayload env False (t, g) = Inl OutOfBounds"
    by (auto simp: HandleReadPayload_def copy_packet_def mem_read_def mem_write_def LoginResult_init_def sizeof_defs Let_def)
qed

section \<open>The timer\<close>

lemma length_chat_text: "length (chat_text pid) < MAX_CHAT_LEN"
proof -
  have "nat \<bar>sint pid\<bar> < 10 ^ 10" using sint_greater_eq [of pid] sint_less [of pid] by simp
  then have "length (nat_string (nat \<bar>sint pid\<bar>)) \<le> 10" by (rule length_nat_string) simp
  then show ?thesis by (auto simp: chat_text_def int_string_def MAX_CHAT_LEN_def)
qed

lemma chat_text_fits:
  "\<exists>chat. sprintf_s (replicate MAX_CHAT_LEN 0) (chat_text pid) = Inr chat \<and> terminated MAX_CHAT_LEN chat"
proof -
  let ?m = "map of_char (chat_text pid) @ [0 :: byte]"
  obtain k where k: "strnlen ?m = Some k" using strnlen_Some_iff [of ?m] by auto
  with strnlen_less [OF k] length_chat_text [of pid] have "k < MAX_CHAT_LEN" by simp
  with strcpy_s_ok [OF k, of "replicate MAX_CHAT_LEN 0"] obtain chat where
    "strcpy_s (replicate MAX_CHAT_LEN 0) ?m = Inr chat" by simp
  with strcpy_s_terminated_array [OF this] show ?thesis by (simp add: sprintf_s_def)
qed

text \<open>What a tick asks for: a chat or a move of its own player.\<close>

fun tick_request :: "int32 \<Rightarrow> client_packet \<Rightarrow> bool" where
  "tick_request pid (LoginPacket q) = False"
| "tick_request pid (ChatPacket q) = (cr_mPlayerId q = pid \<and> 0 \<in> set (cr_mChat q))"
| "tick_request pid (MovePacket q) = (mr_mPlayerId q = pid)"

lemma SendPacket_packet:
  assumes "packet_ok p"
  shows "SendPacket env (packet_bytes p) (s, g) =
    (if write_fails env (lib_calls g) then Inl Thrown
     else Inr (s\<lparr>d_written := d_written s @ [packet_bytes p]\<rparr>, g\<lparr>lib_calls := lib_calls g + 1\<rparr>))"
proof -
  have "sz_of_short (mSize (PacketHeader_at (packet_bytes p))) = length (packet_bytes p)"
    using assms length_client_packet [OF assms]
    by (cases p) (auto simp: bytes_defs LoginRequest_init_def ChatBroadcastRequest_init_def MoveRequest_init_def
        sizeof_defs PacketHeader_at_def)
  then show ?thesis by (simp add: SendPacket_def)
qed

lemma dummy_OnTick_sends:
  assumes "d_mLogon s"
  shows "\<exists>p g'. packet_ok p \<and> tick_request (d_mPlayerId s) p \<and> dummy_OnTick env (s, g) =
    (if write_fails env (lib_calls g) then Inl Thrown
     else Inr (DoTimer OnTick_delay (s\<lparr>d_written := d_written s @ [packet_bytes p]\<rparr>), g'))"
proof -
  let ?r = "std_rand env (seed g)" and ?d = "draws g"
  from chat_text_fits obtain chat where
    chat: "sprintf_s (replicate MAX_CHAT_LEN 0) (chat_text (d_mPlayerId s)) = Inr chat" "terminated MAX_CHAT_LEN chat" by blast
  let ?c = "ChatPacket (ChatBroadcastRequest_init\<lparr>cr_mPlayerId := d_mPlayerId s, cr_mChat := chat\<rparr>)"
    and ?m = "MovePacket (MoveRequest_init\<lparr>mr_mPlayerId := d_mPlayerId s,
      mr_mPosX := fsub_int env (fadd_int env (d_mPosX s) (int (?r (?d + 1) mod 100))) 50,
      mr_mPosY := fsub_int env (fadd_int env (d_mPosY s) (int (?r (?d + 2) mod 60))) 30\<rparr>)"
  let ?p = "if ?r ?d mod 5 = 0 then ?c else ?m"
  have ok: "packet_ok ?c" "packet_ok ?m" "tick_request (d_mPlayerId s) ?p"
    using chat(2) by (simp_all add: ChatBroadcastRequest_init_def MoveRequest_init_def terminated_def)
  note send = SendPacket_packet [OF ok(1), of env] SendPacket_packet [OF ok(2), of env]
  have "dummy_OnTick env (s, g) = (if write_fails env (lib_calls g) then Inl Thrown
     else Inr (DoTimer OnTick_delay (s\<lparr>d_written := d_written s @ [packet_bytes ?p]\<rparr>),
       g\<lparr>lib_calls := lib_calls g + 1, draws := draws g + (if ?r ?d mod 5 = 0 then 1 else 3)\<rparr>))"
    using assms chat(1) send by (simp add: dummy_OnTick_def draw_def ChatBroadcastRequest_init_def Let_def)
  moreover have "packet_ok ?p" using ok by simp
  ultimately show ?thesis using ok(3) by blast
qed


text \<open>
  The timer of the load generator. A session that is not logged on does nothing. One that is
  writes exactly one request, a chat or a move of its own player, with the size and type that the
  server expects and, for a chat, a terminated text; and waits for another second.
\<close>

theorem dummy_tick:
  assumes "\<not> write_fails env (lib_calls g)"
  shows "(\<not> d_mLogon s \<longrightarrow> dummy_OnTick env (s, g) = Inr (s, g)) \<and>
    (d_mLogon s \<longrightarrow> (\<exists>s' g' p. dummy_OnTick env (s, g) = Inr (s', g') \<and>
      d_written s' = d_written s @ [packet_bytes p] \<and> packet_ok p \<and>
      (case p of LoginPacket q \<Rightarrow> False
       | ChatPacket q \<Rightarrow> cr_mPlayerId q = d_mPlayerId s \<and> 0 \<in> set (cr_mChat q)
       | MovePacket q \<Rightarrow> mr_mPlayerId q = d_mPlayerId s) \<and>
      d_pending s' = cancelled (d_pending s) @ [TimerOp (Some 1000)] \<and> d_mLogon s'))"
proof (intro conjI impI)
  assume "d_mLogon s"
  from dummy_OnTick_sends [OF this, of env g] assms obtain p g' where
    p: "packet_ok p" "tick_request (d_mPlayerId s) p" "dummy_OnTick env (s, g) =
      Inr (DoTimer OnTick_delay (s\<lparr>d_written := d_written s @ [packet_bytes p]\<rparr>), g')" by auto
  from p(2) have "case p of LoginPacket q \<Rightarrow> False
       | ChatPacket q \<Rightarrow> cr_mPlayerId q = d_mPlayerId s \<and> 0 \<in> set (cr_mChat q)
       | MovePacket q \<Rightarrow> mr_mPlayerId q = d_mPlayerId s" by (cases p) simp_all
  with p(1,3) \<open>d_mLogon s\<close> show "\<exists>s' g' p. dummy_OnTick env (s, g) = Inr (s', g') \<and>
      d_written s' = d_written s @ [packet_bytes p] \<and> packet_ok p \<and>
      (case p of LoginPacket q \<Rightarrow> False
       | ChatPacket q \<Rightarrow> cr_mPlayerId q = d_mPlayerId s \<and> 0 \<in> set (cr_mChat q)
       | MovePacket q \<Rightarrow> mr_mPlayerId q = d_mPlayerId s) \<and>
      d_pending s' = cancelled (d_pending s) @ [TimerOp (Some 1000)] \<and> d_mLogon s'"
    by (intro exI [of _ "DoTimer OnTick_delay (s\<lparr>d_written := d_written s @ [packet_bytes p]\<rparr>)"] exI [of _ g'] exI [of _ p])
      (simp add: DoTimer_def OnTick_delay_def)
qed (simp add: dummy_OnTick_def)

text \<open>A session on its own: every number is 7, no write fails.\<close>

definition demo_dummy_env :: dummy_env where
  "demo_dummy_env = \<lparr>std_rand = \<lambda>_ _. 7, clock = \<lambda>_. 0, write_fails = \<lambda>_. False, float_of_nat = of_nat,
     fadd_int = \<lambda>x i. x + word_of_int i, fsub_int = \<lambda>x i. x - word_of_int i, dummy_memory = \<lambda>_. 204,
     valid_address = \<lambda>_. True\<rparr>"

definition demo_dummy :: "bool \<Rightarrow> async_op list \<Rightarrow> dummy_session" where
  "demo_dummy logon ops = \<lparr>d_mReadBuf = replicate RECV_BUF_SIZE 0, d_mLogon = logon, d_mPlayerId = 1001, d_mPosX = 300,
     d_mPosY = 200, d_pending = ops, d_written = []\<rparr>"

theorem dummy_reads_packet_witness:
  "\<exists>s1 s2 g'. let p = MoveBroadcastResult_init\<lparr>ms_mPlayerId := 1001, ms_mPosX := 500, ms_mPosY := 600\<rparr>; g = \<lparr>seed = 0, draws = 0, lib_calls = 0\<rparr> in
    complete demo_dummy_env ReadHeaderOp False [16, 0, 22, 0] (demo_dummy True [ReadHeaderOp, TimerOp (Some 1000)], g) = Inr (s1, g) \<and>
    complete demo_dummy_env (ReadPayloadOp 12) False (drop 4 (MoveBroadcastResult_bytes p)) (s1, g) = Inr (s2, g') \<and>
    d_pending s2 = [TimerOp (Some 1000), ReadHeaderOp] \<and> d_mPosX s2 = 500 \<and> d_mPosY s2 = 600"
proof -
  let ?p = "MovePacketResult (MoveBroadcastResult_init\<lparr>ms_mPlayerId := 1001, ms_mPosX := 500, ms_mPosY := 600\<rparr>)"
  let ?s = "demo_dummy True [ReadHeaderOp, TimerOp (Some 1000)]" and ?g = "\<lparr>seed = 0, draws = 0, lib_calls = 0\<rparr>"
  have ok: "server_packet_ok ?p" by (simp add: MoveBroadcastResult_init_def)
  have a: "length (d_mReadBuf ?s) = RECV_BUF_SIZE" "d_pending ?s = ReadHeaderOp # [TimerOp (Some 1000)]"
    "\<forall>op \<in> set [TimerOp (Some 1000)]. \<exists>t. op = TimerOp t" by (simp_all add: demo_dummy_def)
  have b: "take 4 (server_bytes ?p) = [16, 0, 22, 0]" "length (server_bytes ?p) - 4 = 12" by code_simp+
  have "d_mPosX (dummy_effect ?p ?s) = 500" "d_mPosY (dummy_effect ?p ?s) = 600" by (simp_all add: demo_dummy_def)
  with conjunct1 [OF dummy_reads_packet [OF ok a, of demo_dummy_env ?g, unfolded b]] show ?thesis
    unfolding Let_def by (simp only: server_bytes.simps is_login.simps if_False list.simps append.simps prod.inject) blast
qed

theorem dummy_tick_witness:
  "\<exists>s' g' p. dummy_OnTick demo_dummy_env (demo_dummy True [ReadHeaderOp], \<lparr>seed = 0, draws = 0, lib_calls = 3\<rparr>) = Inr (s', g') \<and>
    d_written s' = [packet_bytes p] \<and> packet_ok p \<and> d_pending s' = [ReadHeaderOp, TimerOp (Some 1000)]"
proof -
  have "\<not> write_fails demo_dummy_env (lib_calls \<lparr>seed = 0, draws = 0, lib_calls = 3\<rparr>)" by (simp add: demo_dummy_env_def)
  from conjunct2 [OF dummy_tick [OF this, of "demo_dummy True [ReadHeaderOp]"]] show ?thesis
    by (auto simp: demo_dummy_def)
qed

section \<open>The arguments\<close>

text \<open>
  The arguments of the load generator come through. The address is copied as it is, zero byte
  included, and the numbers that were printed in decimal are read back; without arguments the
  program uses its own values. An address of 32 characters or more ends it.
\<close>

theorem dummy_arguments:
  assumes "0 \<notin> set (map of_char ip :: byte list)" and "prog \<notin> {''--ip'', ''--port'', ''--session''}"
    and "ip \<notin> {''--port'', ''--session''}"
  shows "dummy_main_config [prog] = Inr \<lparr>MAX_CONNECTION = 100,
      CONNECT_ADDR = map of_char ''127.0.0.1'' @ replicate 23 0, CONNECT_PORT = 9001\<rparr> \<and>
    (let r = dummy_main_config [prog, ''--ip'', ip, ''--port'', nat_string p, ''--session'', nat_string n] in
     if length ip < 32
     then \<exists>addr. r = Inr \<lparr>MAX_CONNECTION = int n, CONNECT_ADDR = addr, CONNECT_PORT = of_nat p\<rparr> \<and>
       length addr = 32 \<and> c_string addr = map of_char ip
     else r = Inl InvalidParameter)"
proof -
  let ?m = "map of_char ip @ [0 :: byte]" and ?lo = "map of_char ''127.0.0.1'' @ [0 :: byte]"
  have lo: "strcpy_s (replicate 32 0) ?lo = Inr (map of_char ''127.0.0.1'' @ replicate 23 0)" by code_simp
  have get: "GetCommandOption [prog, ''--ip'', ip, ''--port'', nat_string p, ''--session'', nat_string n] ''--ip'' = Some ip"
      "GetCommandOption [prog, ''--ip'', ip, ''--port'', nat_string p, ''--session'', nat_string n] ''--port'' = Some (nat_string p)"
      "GetCommandOption [prog, ''--ip'', ip, ''--port'', nat_string p, ''--session'', nat_string n] ''--session'' = Some (nat_string n)"
    using assms(2,3) by (simp_all add: GetCommandOption_def nat_string_no_option)
  have "strnlen (xs @ [0]) = Some (length xs)" if "0 \<notin> set xs" for xs :: "byte list" using that by (induction xs) auto
  from this [OF assms(1)] have k: "strnlen ?m = Some (length ip)" by simp
  let ?a = "map of_char ''127.0.0.1'' @ replicate 23 (0 :: byte)"
  show ?thesis
  proof (cases "length ip < 32")
    case True
    with strcpy_s_ok [OF k, of ?a] have r: "strcpy_s ?a ?m = Inr (?m @ drop (Suc (length ip)) ?a)" by simp
    have "c_string (?m @ drop (Suc (length ip)) ?a) = map of_char ip"
      using assms(1) takeWhile_append2 [of "map of_char ip" "\<lambda>b. b \<noteq> 0" "0 # drop (Suc (length ip)) ?a"]
      by (auto simp: c_string_def)
    with True lo get r show ?thesis
      by (simp add: dummy_main_config_def atoi_nat_string)
  next
    case False
    with strcpy_s_too_long [OF k, of ?a] lo get show ?thesis
      by (simp add: dummy_main_config_def)
  qed
qed

theorem dummy_arguments_witness:
  "\<exists>addr. dummy_main_config [''dummy'', ''--ip'', ''10.0.0.7'', ''--port'', nat_string 9100, ''--session'', nat_string 20] =
    Inr \<lparr>MAX_CONNECTION = 20, CONNECT_ADDR = addr, CONNECT_PORT = 9100\<rparr> \<and> c_string addr = map of_char ''10.0.0.7''"
  using dummy_arguments [of "''10.0.0.7''" "''dummy''" 9100 20] by (simp add: Let_def) blast

end
