(* ===== verification/Load_Generator.thy ===== *)
theory Load_Generator
  imports Dummy_Client
begin

text \<open>
  The load generator as a whole: all its sessions on one \<open>io_service\<close>, whose \<open>run\<close> completes their
  operations in any order, and a network that gives each session the bytes of its own connection.
\<close>

section \<open>What the network completes\<close>

text \<open>
  \<open>inc k\<close> are the bytes that the connection of session \<open>k\<close> still has to give. \<open>async_read\<close> completes
  with all the bytes it was asked for, or with an error after some of them; a wait or a connect
  completes in any case.
\<close>

type_synonym completion = "nat \<times> async_op \<times> bool \<times> byte list"

fun wanted :: "async_op \<Rightarrow> nat" where
  "wanted ReadHeaderOp = sizeof_PacketHeader"
| "wanted (ReadPayloadOp n) = n"
| "wanted ConnectOp = 0"
| "wanted (TimerOp t) = 0"

inductive completes :: "(nat \<Rightarrow> byte list) \<Rightarrow> dummy_session list \<Rightarrow> completion \<Rightarrow> (nat \<Rightarrow> byte list) \<Rightarrow> bool" for inc ss where
  whole: "k < length ss \<Longrightarrow> op \<in> set (d_pending (ss ! k)) \<Longrightarrow> wanted op \<le> length (inc k) \<Longrightarrow>
    completes inc ss (k, op, err \<and> wanted op = 0, take (wanted op) (inc k)) (inc(k := drop (wanted op) (inc k)))"
| cut: "k < length ss \<Longrightarrow> op \<in> set (d_pending (ss ! k)) \<Longrightarrow> m < wanted op \<Longrightarrow>
    completes inc ss (k, op, True, take m (inc k)) (inc(k := drop m (inc k)))"

text \<open>The states that \<open>run\<close> comes through, from the sessions that \<open>Start\<close> has made.\<close>

inductive load_reaches ::
    "dummy_env \<Rightarrow> (nat \<Rightarrow> byte list) \<Rightarrow> dummy_session list \<times> dummy_lib \<Rightarrow>
     (nat \<Rightarrow> byte list) \<Rightarrow> dummy_session list \<times> dummy_lib \<Rightarrow> bool" for env inc0 sg0 where
  begun: "load_reaches env inc0 sg0 inc0 sg0"
| completed: "load_reaches env inc0 sg0 inc sg \<Longrightarrow> completes inc (fst sg) e inc' \<Longrightarrow>
    io_run env [e] sg = Inr sg' \<Longrightarrow> load_reaches env inc0 sg0 inc' sg'"

lemma io_run_append: "io_run env (es @ fs) sg = rbind (io_run env es sg) (io_run env fs)"
proof (induction env es sg rule: io_run.induct)
  case (2 env k op err bs es ss g)
  then show ?case by (cases "complete env op err bs (ss ! k, g)") auto
qed simp


section \<open>What a session has done\<close>

text \<open>
  \<open>own_position\<close> is where the packets of the server put a player: only the moves under its own id
  count. The reading operations are those that are not waits.
\<close>

fun own_position :: "int32 \<Rightarrow> server_packet list \<Rightarrow> float32 \<times> float32 \<Rightarrow> float32 \<times> float32" where
  "own_position pid [] xy = xy"
| "own_position pid (MovePacketResult p # ps) xy =
     own_position pid ps (if pid = ms_mPlayerId p then (ms_mPosX p, ms_mPosY p) else xy)"
| "own_position pid (_ # ps) xy = own_position pid ps xy"

fun is_wait :: "async_op \<Rightarrow> bool" where
  "is_wait (TimerOp t) = True"
| "is_wait _ = False"

abbreviation reading :: "dummy_session \<Rightarrow> async_op list" where
  "reading s \<equiv> filter (\<lambda>op. \<not> is_wait op) (d_pending s)"

abbreviation login_bytes :: "int32 \<Rightarrow> byte list" where
  "login_bytes pid \<equiv> LoginRequest_bytes (LoginRequest_init\<lparr>lr_mPlayerId := pid\<rparr>)"

text \<open>What a session waits for, when the packets \<open>ps\<close> are still to be handled.\<close>

fun waits_for :: "async_op list \<Rightarrow> server_packet list \<Rightarrow> byte list \<Rightarrow> byte list \<Rightarrow> bool" where
  "waits_for [] ps buf str = True"
| "waits_for [ConnectOp] ps buf str = (str = concat (map server_bytes ps))"
| "waits_for [ReadHeaderOp] ps buf str = (str = concat (map server_bytes ps))"
| "waits_for [ReadPayloadOp n] ps buf str =
     (case ps of [] \<Rightarrow> False
      | p # qs \<Rightarrow> n = length (server_bytes p) - 4 \<and> take 4 buf = take 4 (server_bytes p) \<and>
          str = drop 4 (server_bytes p) @ concat (map server_bytes qs))"
| "waits_for _ ps buf str = False"

definition handled :: "server_packet list \<Rightarrow> server_packet list \<Rightarrow> dummy_session \<Rightarrow> dummy_session \<Rightarrow> byte list \<Rightarrow> bool" where
  "handled qs ps s0 s str \<longleftrightarrow>
     length (d_mReadBuf s) = RECV_BUF_SIZE \<and> d_mPlayerId s = d_mPlayerId s0 \<and>
     d_mLogon s = list_ex is_login qs \<and>
     (d_mPosX s, d_mPosY s) = own_position (d_mPlayerId s0) qs (d_mPosX s0, d_mPosY s0) \<and>
     waits_for (reading s) ps (d_mReadBuf s) str \<and>
     (if reading s = [ConnectOp] then d_written s = [] \<and> qs = []
      else \<exists>rs. d_written s = login_bytes (d_mPlayerId s0) # map packet_bytes rs \<and>
        (\<forall>r \<in> set rs. packet_ok r \<and> tick_request (d_mPlayerId s0) r))"

lemma own_position_append: "own_position pid (xs @ ys) xy = own_position pid ys (own_position pid xs xy)"
  by (induction pid xs xy rule: own_position.induct) simp_all

lemma reading_cancelled [simp]: "filter (\<lambda>op. \<not> is_wait op) (cancelled ops) = filter (\<lambda>op. \<not> is_wait op) ops"
  by (induction ops) (auto split: async_op.splits)

lemma reading_remove_wait [simp]:
  "is_wait op \<Longrightarrow> filter (\<lambda>op. \<not> is_wait op) (remove1 op ops) = filter (\<lambda>op. \<not> is_wait op) ops"
  by (induction ops) auto

lemma reading_remove [simp]:
  "\<not> is_wait op \<Longrightarrow> filter (\<lambda>op. \<not> is_wait op) (remove1 op ops) = remove1 op (filter (\<lambda>op. \<not> is_wait op) ops)"
  by (induction ops) auto

lemma dummy_session_simps [simp]:
  "reading (DoTimer t s) = reading s" "d_mReadBuf (DoTimer t s) = d_mReadBuf s" "d_mLogon (DoTimer t s) = d_mLogon s"
  "d_mPlayerId (DoTimer t s) = d_mPlayerId s" "d_mPosX (DoTimer t s) = d_mPosX s" "d_mPosY (DoTimer t s) = d_mPosY s"
  "d_written (DoTimer t s) = d_written s"
  "reading (PostReadHeader s) = reading s @ [ReadHeaderOp]" "length (d_mReadBuf (PostReadHeader s)) = RECV_BUF_SIZE"
  "d_mLogon (PostReadHeader s) = d_mLogon s" "d_mPlayerId (PostReadHeader s) = d_mPlayerId s"
  "d_mPosX (PostReadHeader s) = d_mPosX s" "d_mPosY (PostReadHeader s) = d_mPosY s"
  "d_written (PostReadHeader s) = d_written s"
  by (simp_all add: DoTimer_def PostReadHeader_def)

lemma dummy_effect_simps [simp]:
  "reading (dummy_effect p s) = reading s" "d_mReadBuf (dummy_effect p s) = d_mReadBuf s"
  "d_mLogon (dummy_effect p s) = (d_mLogon s \<or> is_login p)" "d_mPlayerId (dummy_effect p s) = d_mPlayerId s"
  "d_written (dummy_effect p s) = d_written s"
  "(d_mPosX (dummy_effect p s), d_mPosY (dummy_effect p s)) = own_position (d_mPlayerId s) [p] (d_mPosX s, d_mPosY s)"
  by (cases p; simp)+

section \<open>One completion\<close>

lemma waits_for_one:
  assumes "waits_for ops ps buf str" and "op \<in> set ops"
  shows "ops = [op]"
  using assms by (induction ops ps buf str rule: waits_for.induct) auto

text \<open>A wait that is over.\<close>

lemma handled_tick:
  assumes "handled qs ps s0 s str"
  shows "(\<exists>s' g'. complete env (TimerOp t) err [] (s, g) = Inr (s', g') \<and> handled qs ps s0 s' str) \<or>
    complete env (TimerOp t) err [] (s, g) = Inl Thrown \<and> write_fails env (lib_calls g)"
proof -
  let ?s = "s\<lparr>d_pending := remove1 (TimerOp t) (d_pending s)\<rparr>"
  have h: "handled qs ps s0 ?s str" using assms by (simp add: handled_def)
  show ?thesis
  proof (cases "d_mLogon s")
    case True
    then have "d_mLogon ?s" by simp
    from dummy_OnTick_sends [OF this, of env g] obtain p g' where
      p: "packet_ok p" "tick_request (d_mPlayerId ?s) p" "complete env (TimerOp t) err [] (s, g) =
        (if write_fails env (lib_calls g) then Inl Thrown
         else Inr (DoTimer OnTick_delay (?s\<lparr>d_written := d_written ?s @ [packet_bytes p]\<rparr>), g'))"
      unfolding complete.simps by blast
    moreover have "reading s \<noteq> [ConnectOp]" using assms True by (auto simp: handled_def)
    moreover have "\<exists>rs. d_written s @ [packet_bytes p] = login_bytes (d_mPlayerId s0) # map packet_bytes rs \<and>
        (\<forall>r \<in> set rs. packet_ok r \<and> tick_request (d_mPlayerId s0) r)"
    proof -
      from assms \<open>reading s \<noteq> [ConnectOp]\<close> obtain rs where "d_written s = login_bytes (d_mPlayerId s0) # map packet_bytes rs"
        "\<forall>r \<in> set rs. packet_ok r \<and> tick_request (d_mPlayerId s0) r" by (auto simp: handled_def)
      with p(1,2) assms show ?thesis by (intro exI [of _ "rs @ [p]"]) (auto simp: handled_def)
    qed
    ultimately show ?thesis using h by (auto simp: handled_def)
  qed (use h in \<open>simp add: dummy_OnTick_def\<close>)
qed

lemma handled_connect:
  assumes "handled qs ps s0 s str" and "ConnectOp \<in> set (d_pending s)"
  shows "(\<exists>s' g'. complete env ConnectOp err [] (s, g) = Inr (s', g') \<and> handled qs ps s0 s' str) \<or>
    complete env ConnectOp err [] (s, g) = Inl Thrown \<and> write_fails env (lib_calls g)"
proof -
  from assms have r: "reading s = [ConnectOp]" using waits_for_one [of "reading s" ps "d_mReadBuf s" str ConnectOp]
    by (auto simp: handled_def)
  let ?p = "LoginPacket (LoginRequest_init\<lparr>lr_mPlayerId := d_mPlayerId s\<rparr>)"
  have "packet_ok ?p" by (simp add: LoginRequest_init_def)
  from SendPacket_packet [OF this, of env "PostReadHeader (s\<lparr>d_pending := remove1 ConnectOp (d_pending s)\<rparr>)" g] r assms
  show ?thesis by (auto simp: HandleConnect_def handled_def)
qed

lemma handled_header:
  assumes "handled qs ps s0 s str" and "ReadHeaderOp \<in> set (d_pending s)" and "4 \<le> length str"
    and "\<forall>p \<in> set ps. server_packet_ok p"
  shows "\<exists>s' g'. complete env ReadHeaderOp False (take 4 str) (s, g) = Inr (s', g') \<and> handled qs ps s0 s' (drop 4 str)"
proof -
  from assms(1,2) have r: "reading s = [ReadHeaderOp]" using waits_for_one [of "reading s" ps "d_mReadBuf s" str ReadHeaderOp]
    by (auto simp: handled_def)
  with assms(1) have str: "str = concat (map server_bytes ps)" by (simp add: handled_def)
  with assms(3) obtain p ps' where ps: "ps = p # ps'" by (cases ps) auto
  with assms(4) have p: "server_packet_ok p" by simp
  then have len: "4 < length (server_bytes p)" using length_server_packet [of p] by (cases p; simp)
  have buf: "length (d_mReadBuf s) = RECV_BUF_SIZE" using assms(1) by (simp add: handled_def)
  from str ps len have t: "take 4 str = take 4 (server_bytes p)" "drop 4 str = drop 4 (server_bytes p) @ concat (map server_bytes ps')"
    by simp_all
  with complete_header [OF p buf, of env g] r ps assms(1) len buf show ?thesis
    by (auto simp: handled_def RECV_BUF_SIZE_def)
qed

lemma handled_payload:
  assumes "handled qs ps s0 s str" and "ReadPayloadOp n \<in> set (d_pending s)" and "n \<le> length str"
    and "\<forall>p \<in> set ps. server_packet_ok p"
  shows "0 < n \<and> (\<exists>s' g' p ps'. complete env (ReadPayloadOp n) False (take n str) (s, g) = Inr (s', g') \<and> ps = p # ps' \<and>
    handled (qs @ [p]) ps' s0 s' (drop n str))"
proof -
  from assms(1,2) have r: "reading s = [ReadPayloadOp n]" using waits_for_one [of "reading s" ps "d_mReadBuf s" str "ReadPayloadOp n"]
    by (auto simp: handled_def)
  with assms(1) obtain p ps' where p: "ps = p # ps'" "n = length (server_bytes p) - 4" "take 4 (d_mReadBuf s) = take 4 (server_bytes p)"
    "str = drop 4 (server_bytes p) @ concat (map server_bytes ps')" by (auto simp: handled_def split: list.splits)
  have buf: "length (d_mReadBuf s) = RECV_BUF_SIZE" using assms(1) by (simp add: handled_def)
  from p(1) assms(4) have ok: "server_packet_ok p" by simp
  from p(2,4) have t: "take n str = drop 4 (server_bytes p)" "drop n str = concat (map server_bytes ps')" by simp_all
  let ?t = "dummy_effect p (s\<lparr>d_pending := remove1 (ReadPayloadOp n) (d_pending s),
             d_mReadBuf := server_bytes p @ drop (length (server_bytes p)) (d_mReadBuf s)\<rparr>)"
  from complete_payload [OF ok buf p(3), of env g] obtain g' k where
    c: "complete env (ReadPayloadOp n) False (take n str) (s, g) =
      Inr (PostReadHeader (if is_login p then DoTimer (k mod 1000) ?t else ?t), g')"
    unfolding t(1) p(2) [symmetric] by (auto simp: Let_def)
  have "handled (qs @ [p]) ps' s0 (PostReadHeader (if is_login p then DoTimer (k mod 1000) ?t else ?t)) (drop n str)"
    using assms(1) r t(2) dummy_effect_simps(6) [of p "s\<lparr>d_pending := remove1 (ReadPayloadOp n) (d_pending s),
             d_mReadBuf := server_bytes p @ drop (length (server_bytes p)) (d_mReadBuf s)\<rparr>"]
    by (auto simp: handled_def own_position_append)
  moreover have "0 < n" using length_server_packet [OF ok] p(2) by (cases p) simp_all
  ultimately show ?thesis using c p(1) by blast
qed


text \<open>A read that fails leaves the session without a reading operation.\<close>

lemma handled_cut:
  assumes "handled qs ps s0 s str" and "op \<in> set (d_pending s)" and "m < wanted op" and "\<forall>p \<in> set ps. server_packet_ok p"
  shows "\<exists>s'. complete env op True (take m str) (s, g) = Inr (s', g) \<and> handled qs ps s0 s' (drop m str)"
proof -
  from assms(3) have w: "\<not> is_wait op" "op \<noteq> ConnectOp" by (cases op; simp)+
  with assms(1,2) have r: "reading s = [op]" using waits_for_one [of "reading s" ps "d_mReadBuf s" str op]
    by (auto simp: handled_def)
  have buf: "length (d_mReadBuf s) = RECV_BUF_SIZE" using assms(1) by (simp add: handled_def)
  have fits: "sizeof_PacketHeader + m \<le> RECV_BUF_SIZE"
  proof (cases op)
    case (ReadPayloadOp n)
    with r assms(1) obtain p ps' where "ps = p # ps'" "n = length (server_bytes p) - 4" by (auto simp: handled_def split: list.splits)
    with ReadPayloadOp assms(3,4) length_server_packet [of p] show ?thesis by (cases p) (auto simp: RECV_BUF_SIZE_def sizeof_PacketHeader_def)
  qed (use assms(3) in \<open>simp_all add: RECV_BUF_SIZE_def sizeof_PacketHeader_def\<close>)
  then have "\<exists>s'. complete env op True (take m str) (s, g) = Inr (s', g) \<and> length (d_mReadBuf s') = RECV_BUF_SIZE \<and>
      s' = s\<lparr>d_pending := remove1 op (d_pending s), d_mReadBuf := d_mReadBuf s'\<rparr>"
    using w buf
    by (cases op) (auto simp: complete_read_def mem_write_def HandleReadHeader_def HandleReadPayload_def RECV_BUF_SIZE_def)
  then obtain s' where s': "complete env op True (take m str) (s, g) = Inr (s', g)" "length (d_mReadBuf s') = RECV_BUF_SIZE"
      "s' = s\<lparr>d_pending := remove1 op (d_pending s), d_mReadBuf := d_mReadBuf s'\<rparr>" by blast
  have "reading s' = []" "d_mPlayerId s' = d_mPlayerId s" "d_mLogon s' = d_mLogon s" "d_written s' = d_written s"
      "d_mPosX s' = d_mPosX s" "d_mPosY s' = d_mPosY s"
    using r w by (subst s'(3); simp)+
  with assms(1) s' r w show ?thesis by (auto simp: handled_def)
qed

section \<open>All sessions\<close>

definition load_ok :: "(nat \<Rightarrow> server_packet list) \<Rightarrow> dummy_session list \<Rightarrow> (nat \<Rightarrow> byte list) \<Rightarrow> dummy_session list \<Rightarrow> bool" where
  "load_ok sent ss0 inc ss \<longleftrightarrow> length ss = length ss0 \<and>
     (\<forall>k < length ss. \<exists>qs ps. sent k = qs @ ps \<and> handled qs ps (ss0 ! k) (ss ! k) (inc k))"

lemma load_ok_update:
  assumes "load_ok sent ss0 inc ss" and "k < length ss" and "sent k = qs @ ps" and "handled qs ps (ss0 ! k) s str"
  shows "load_ok sent ss0 (inc(k := str)) (ss[k := s])"
  using assms by (auto simp: load_ok_def nth_list_update)

lemma handled_completes:
  assumes "completes inc ss (k, op, err, bs) inc'" and "handled qs ps s0 (ss ! k) (inc k)" and "\<forall>p \<in> set ps. server_packet_ok p"
  shows "(\<exists>s g' qs' ps'. complete env op err bs (ss ! k, g) = Inr (s, g') \<and> qs @ ps = qs' @ ps' \<and>
      handled qs' ps' s0 s (inc' k)) \<or>
    complete env op err bs (ss ! k, g) = Inl Thrown \<and> write_fails env (lib_calls g)"
  using assms(1)
proof cases
  case whole
  show ?thesis
  proof (cases op)
    case ConnectOp
    with handled_connect [OF assms(2), of env err g] whole show ?thesis by auto
  next
    case ReadHeaderOp
    with handled_header [OF assms(2) _ _ assms(3), of env g] whole show ?thesis
      by (fastforce simp: sizeof_PacketHeader_def)
  next
    case (ReadPayloadOp n)
    with handled_payload [OF assms(2) _ _ assms(3), of n env g] whole show ?thesis
      by fastforce
  next
    case (TimerOp t)
    with handled_tick [OF assms(2), of env t err g] whole show ?thesis by auto
  qed
next
  case (cut m)
  with handled_cut [OF assms(2) _ _ assms(3), of op m env g] show ?thesis by auto
qed


lemma load_ok_step:
  assumes "load_ok sent ss0 inc ss" and "completes inc ss e inc'" and "\<forall>k < length ss0. \<forall>p \<in> set (sent k). server_packet_ok p"
  shows "(\<exists>ss' g'. io_run env [e] (ss, g) = Inr (ss', g') \<and> load_ok sent ss0 inc' ss') \<or>
    io_run env [e] (ss, g) = Inl Thrown \<and> write_fails env (lib_calls g)"
proof -
  obtain k op err bs where e: "e = (k, op, err, bs)" by (cases e)
  with assms(2) obtain str where k: "k < length ss" "op \<in> set (d_pending (ss ! k))" "inc' = inc(k := str)"
    by (auto elim!: completes.cases)
  with assms(1) obtain qs ps where h: "sent k = qs @ ps" "handled qs ps (ss0 ! k) (ss ! k) (inc k)" "length ss = length ss0"
    unfolding load_ok_def by blast
  with assms(3) k(1) have "\<forall>p \<in> set ps. server_packet_ok p" by fastforce
  from handled_completes [OF assms(2) [unfolded e] h(2) this, of env g] h(1) k load_ok_update [OF assms(1) k(1), of _ _ _ str]
  show ?thesis by (auto simp: e)
qed

lemma Start_loop_ok:
  assumes "Start_loop env n i g = (ss, g')" and "\<forall>k. inc k = concat (map server_bytes (sent k))"
  shows "length ss = n \<and> load_ok sent ss inc ss \<and> (\<forall>k < n. d_mPlayerId (ss ! k) = START_PLAYER_ID + i + of_nat k)"
proof -
  have "length ss = n \<and> (\<forall>k < n. reading (ss ! k) = [ConnectOp] \<and> length (d_mReadBuf (ss ! k)) = RECV_BUF_SIZE \<and>
      d_mPlayerId (ss ! k) = START_PLAYER_ID + i + of_nat k \<and> \<not> d_mLogon (ss ! k) \<and> d_written (ss ! k) = [])"
    using assms(1)
  proof (induction n arbitrary: i g ss g')
    case (Suc n)
    then show ?case
      by (fastforce simp: dummy_ClientSession_def dummy_Connect_def draw_def Let_def less_Suc_eq_0_disj split: prod.splits)
  qed simp
  with assms(2) show ?thesis by (auto simp: load_ok_def handled_def intro!: exI [of _ "[]"])
qed

lemma load_reaches_ok:
  assumes "load_reaches env inc0 sg0 inc sg" and "load_ok sent (fst sg0) inc0 (fst sg0)"
    and "\<forall>k < length (fst sg0). \<forall>p \<in> set (sent k). server_packet_ok p"
  shows "load_ok sent (fst sg0) inc (fst sg)"
  using assms(1)
proof induction
  case (completed inc sg e inc' sg')
  from load_ok_step [OF completed.IH completed.hyps(2) assms(3), of env "snd sg"] completed.hyps(3) show ?case by auto
qed (rule assms(2))

lemma load_reaches_run:
  assumes "load_reaches env inc0 sg0 inc sg"
  shows "\<exists>es. io_run env es sg0 = Inr sg"
  using assms
proof induction
  case begun
  show ?case by (cases sg0) (auto intro: exI [of _ "[]"])
next
  case (completed inc sg e inc' sg')
  then obtain es where "io_run env es sg0 = Inr sg" by blast
  with completed.hyps(3) have "io_run env (es @ [e]) sg0 = Inr sg'" by (simp add: io_run_append)
  then show ?case by blast
qed

text \<open>What \<open>main\<close> gives when its sessions have come to such a state.\<close>

lemma dummy_main_reaches:
  assumes "dummy_main_config argv = Inr cfg" and "valid_address env (CONNECT_ADDR cfg)"
    and "load_reaches env inc0 (Start_loop env (nat (MAX_CONNECTION cfg)) 0 g0) inc (ss, g)"
  shows "\<exists>es. dummy_main env es argv g0 = Inr (Some (\<lparr>d_mClientList = ss, d_mTotalDummyCount = MAX_CONNECTION cfg\<rparr>, g))"
proof -
  from load_reaches_run [OF assms(3)] obtain es where
    "io_run env es (Start_loop env (nat (MAX_CONNECTION cfg)) 0 g0) = Inr (ss, g)" by blast
  then have "dummy_main env es argv g0 = Inr (Some (\<lparr>d_mClientList = ss, d_mTotalDummyCount = MAX_CONNECTION cfg\<rparr>, g))"
    using assms(1,2) by (simp add: dummy_main_def dummy_Start_def dummy_ClientManager_def split: prod.splits)
  then show ?thesis by blast
qed

text \<open>
  C14: the load generator as a whole, with any number of sessions whose operations complete in any
  order, some of them with errors: if the server sends well-formed packets, nothing goes wrong, except
  that a write to a broken connection throws, which ends the run. At every time each session has
  handled the first packets of its own connection, each once and in order: it is logged on when one of
  them was a login, it stands where the last of its own moves has put it, and it has written its login
  and after it only well-formed chats and moves of its own player.
\<close>

theorem load_generator_runs:
  assumes "Start_loop env n 0 g0 = (ss0, g1)"
    and "load_reaches env (\<lambda>k. concat (map server_bytes (sent k))) (ss0, g1) inc (ss, g)"
    and "\<forall>k < n. \<forall>p \<in> set (sent k). server_packet_ok p"
  shows "length ss = n \<and>
    (\<forall>e inc'. completes inc ss e inc' \<longrightarrow> (\<exists>r. io_run env [e] (ss, g) = Inr r) \<or>
       io_run env [e] (ss, g) = Inl Thrown \<and> write_fails env (lib_calls g)) \<and>
    (\<forall>k < n. let pid = START_PLAYER_ID + of_nat k; s = ss ! k in
       \<exists>qs ps rs. sent k = qs @ ps \<and> d_mPlayerId s = pid \<and> d_mLogon s = list_ex is_login qs \<and>
         (d_mPosX s, d_mPosY s) = own_position pid qs (d_mPosX (ss0 ! k), d_mPosY (ss0 ! k)) \<and>
         (d_written s = [] \<and> qs = [] \<or>
          d_written s = login_bytes pid # map packet_bytes rs \<and> (\<forall>r \<in> set rs. packet_ok r \<and> tick_request pid r)))"
proof -
  let ?inc = "\<lambda>k. concat (map server_bytes (sent k))"
  from Start_loop_ok [OF assms(1), of ?inc sent] have
    start: "length ss0 = n" "load_ok sent ss0 ?inc ss0" "\<forall>k < n. d_mPlayerId (ss0 ! k) = START_PLAYER_ID + of_nat k" by auto
  from load_reaches_ok [OF assms(2)] start assms(3) have ok: "load_ok sent ss0 inc ss" by simp
  then have n: "length ss = n" using start(1) by (simp add: load_ok_def)
  moreover from load_ok_step [OF ok, of _ _ env g] assms(3) start(1) have "\<forall>e inc'. completes inc ss e inc' \<longrightarrow>
      (\<exists>r. io_run env [e] (ss, g) = Inr r) \<or> io_run env [e] (ss, g) = Inl Thrown \<and> write_fails env (lib_calls g)" by blast
  moreover have "\<exists>qs ps rs. sent k = qs @ ps \<and> d_mPlayerId (ss ! k) = START_PLAYER_ID + of_nat k \<and>
      d_mLogon (ss ! k) = list_ex is_login qs \<and>
      (d_mPosX (ss ! k), d_mPosY (ss ! k)) = own_position (START_PLAYER_ID + of_nat k) qs (d_mPosX (ss0 ! k), d_mPosY (ss0 ! k)) \<and>
      (d_written (ss ! k) = [] \<and> qs = [] \<or> d_written (ss ! k) = login_bytes (START_PLAYER_ID + of_nat k) # map packet_bytes rs \<and>
         (\<forall>r \<in> set rs. packet_ok r \<and> tick_request (START_PLAYER_ID + of_nat k) r))" if "k < n" for k
  proof -
    from ok that n obtain qs ps where h: "sent k = qs @ ps" "handled qs ps (ss0 ! k) (ss ! k) (inc k)"
      unfolding load_ok_def by blast
    with start(3) that show ?thesis
      by (intro exI [of _ qs] exI [of _ ps]) (auto simp: handled_def split: if_splits)
  qed
  ultimately show ?thesis by (simp add: Let_def)
qed


text \<open>One session, to which the server sends a login: it connects, reads the header and the rest, and is logged on.\<close>

definition demo_login :: server_packet where
  "demo_login = LoginPacketResult ((LoginResult_init 0 0)\<lparr>ls_mPlayerId := 1001\<rparr>)"

lemma demo_login_ok: "server_packet_ok demo_login" "length (server_bytes demo_login) = 46" "is_login demo_login"
proof -
  show ok: "server_packet_ok demo_login" by (simp add: demo_login_def LoginResult_init_def terminated_def MAX_NAME_LEN_def)
  from length_server_packet [OF ok] show "length (server_bytes demo_login) = 46" by (simp add: demo_login_def)
qed (simp add: demo_login_def)

definition demo_start :: "dummy_session list \<times> dummy_lib" where
  "demo_start = Start_loop demo_dummy_env 1 0 \<lparr>seed = 0, draws = 0, lib_calls = 0\<rparr>"

lemma demo_load_reaches:
  "\<exists>s g inc. load_reaches demo_dummy_env (\<lambda>k. concat (map server_bytes [demo_login])) demo_start inc ([s], g) \<and> d_mLogon s"
proof -
  let ?inc = "\<lambda>k :: nat. concat (map server_bytes [demo_login])"
  let ?s0 = "\<lparr>d_mReadBuf = map (\<lambda>_. 204) [0..<RECV_BUF_SIZE], d_mLogon = False, d_mPlayerId = 1001,
    d_mPosX = 207, d_mPosY = 107, d_pending = [ConnectOp], d_written = []\<rparr>"
  let ?g = "\<lambda>n. \<lparr>seed = 0, draws = 2, lib_calls = n\<rparr>"
  have start: "demo_start = ([?s0], ?g 1)"
    by (simp add: demo_start_def dummy_ClientSession_def dummy_Connect_def demo_dummy_env_def draw_def START_PLAYER_ID_def)
  let ?s1 = "(PostReadHeader (?s0\<lparr>d_pending := []\<rparr>))\<lparr>d_written := [login_bytes 1001]\<rparr>"
  let ?p = "LoginPacket (LoginRequest_init\<lparr>lr_mPlayerId := 1001\<rparr>)"
  have "packet_ok ?p" by (simp add: LoginRequest_init_def)
  from SendPacket_packet [OF this, of demo_dummy_env "PostReadHeader (?s0\<lparr>d_pending := []\<rparr>)" "?g 1"]
  have 1: "io_run demo_dummy_env [(0, ConnectOp, False, [])] ([?s0], ?g 1) = Inr ([?s1], ?g 2)"
    by (simp add: HandleConnect_def PostReadHeader_def demo_dummy_env_def)
  have c1: "completes ?inc [?s0] (0, ConnectOp, False, []) ?inc"
    using completes.whole [of 0 "[?s0]" ConnectOp ?inc False] by (simp add: fun_upd_idem)
  have buf: "length (d_mReadBuf ?s1) = RECV_BUF_SIZE" by (simp add: PostReadHeader_def)
  let ?s2 = "?s1\<lparr>d_pending := [ReadPayloadOp 42], d_mReadBuf := take 4 (server_bytes demo_login) @ drop 4 (d_mReadBuf ?s1)\<rparr>"
  have "remove1 ReadHeaderOp (d_pending ?s1) = []" by (simp add: PostReadHeader_def)
  with complete_header [OF demo_login_ok(1) buf, of demo_dummy_env "?g 2"]
  have 2: "io_run demo_dummy_env [(0, ReadHeaderOp, False, take 4 (server_bytes demo_login))] ([?s1], ?g 2) = Inr ([?s2], ?g 2)"
    by (simp add: demo_login_ok PostReadHeader_def)
  let ?inc2 = "?inc(0 := drop 4 (server_bytes demo_login))"
  have c2: "completes ?inc [?s1] (0, ReadHeaderOp, False, take 4 (server_bytes demo_login)) ?inc2"
    using completes.whole [of 0 "[?s1]" ReadHeaderOp ?inc False]
    by (simp add: demo_login_ok sizeof_PacketHeader_def PostReadHeader_def)
  have buf: "length (d_mReadBuf ?s2) = RECV_BUF_SIZE" "take 4 (d_mReadBuf ?s2) = take 4 (server_bytes demo_login)"
    by (simp_all add: PostReadHeader_def RECV_BUF_SIZE_def demo_login_ok)
  from complete_payload [OF demo_login_ok(1) buf, of demo_dummy_env "?g 2"] obtain s3 g3 where
    3: "io_run demo_dummy_env [(0, ReadPayloadOp 42, False, drop 4 (server_bytes demo_login))] ([?s2], ?g 2) = Inr ([s3], g3)"
      "d_mLogon s3"
    by (auto simp: demo_login_ok Let_def)
  let ?inc3 = "?inc2(0 := [])"
  have c3: "completes ?inc2 [?s2] (0, ReadPayloadOp 42, False, drop 4 (server_bytes demo_login)) ?inc3"
    using completes.whole [of 0 "[?s2]" "ReadPayloadOp 42" ?inc2 False] by (simp add: demo_login_ok)
  have "load_reaches demo_dummy_env ?inc demo_start ?inc ([?s1], ?g 2)"
    using load_reaches.completed [OF load_reaches.begun _ 1] c1 start by (simp add: start)
  then have "load_reaches demo_dummy_env ?inc demo_start ?inc2 ([?s2], ?g 2)"
    using load_reaches.completed [OF _ _ 2] c2 by (metis fst_conv)
  then have "load_reaches demo_dummy_env ?inc demo_start ?inc3 ([s3], g3)"
    using load_reaches.completed [OF _ _ 3(1)] c3 by (metis fst_conv)
  with 3(2) show ?thesis by blast
qed

theorem load_generator_runs_witness:
  "\<exists>s g inc rs. load_reaches demo_dummy_env (\<lambda>k. concat (map server_bytes [demo_login])) demo_start inc ([s], g) \<and>
    d_mPlayerId s = 1001 \<and> d_mLogon s \<and> d_written s = login_bytes 1001 # map packet_bytes rs"
proof -
  obtain s g inc where r: "load_reaches demo_dummy_env (\<lambda>k. concat (map server_bytes [demo_login])) demo_start inc ([s], g)" "d_mLogon s"
    using demo_load_reaches by blast
  have start: "Start_loop demo_dummy_env 1 0 \<lparr>seed = 0, draws = 0, lib_calls = 0\<rparr> = (fst demo_start, snd demo_start)"
    by (simp add: demo_start_def)
  have "\<forall>k < 1. \<forall>p \<in> set [demo_login]. server_packet_ok p" using demo_login_ok by simp
  from load_generator_runs [OF start, of "\<lambda>_. [demo_login]" inc "[s]" g] r(1) this
  have "\<forall>k < 1. let pid = START_PLAYER_ID + of_nat k; s = [s] ! k in
       \<exists>qs ps rs. [demo_login] = qs @ ps \<and> d_mPlayerId s = pid \<and> d_mLogon s = list_ex is_login qs \<and>
         (d_mPosX s, d_mPosY s) = own_position pid qs (d_mPosX (fst demo_start ! k), d_mPosY (fst demo_start ! k)) \<and>
         (d_written s = [] \<and> qs = [] \<or>
          d_written s = login_bytes pid # map packet_bytes rs \<and> (\<forall>r \<in> set rs. packet_ok r \<and> tick_request pid r))"
    unfolding prod.collapse by blast
  then obtain qs rs where "d_mPlayerId s = START_PLAYER_ID" "d_mLogon s = list_ex is_login qs"
      "d_written s = [] \<and> qs = [] \<or> d_written s = login_bytes START_PLAYER_ID # map packet_bytes rs"
    by (auto simp: Let_def)
  with r show ?thesis by (auto simp: START_PLAYER_ID_def)
qed

end
