(* ===== verification/Crash_Dump.thy ===== *)
theory Crash_Dump
  imports C_Strings
begin

text \<open>
  The crash handler of the server, \<open>EasyServer/EasyServer/Exception.cpp\<close>: stop the other threads, write
  a memory dump, end the process. The results of the Windows calls are an environment; what the
  handler does to the process is a state. The build is a Unicode one, so a character has two bytes.
\<close>

section \<open>State\<close>

record system_time =
  wYear :: nat
  wMonth :: nat
  wDay :: nat
  wHour :: nat
  wMinute :: nat
  wSecond :: nat

record THREADENTRY32 =
  th32ThreadID :: dword
  th32OwnerProcessID :: dword

text \<open>
  \<open>thread_snapshot\<close> is \<open>None\<close> where \<open>CreateToolhelp32Snapshot\<close> fails and else the threads of the whole
  system; \<open>can_open_thread\<close> tells which handles \<open>OpenThread\<close> gives, \<open>can_create_file\<close> which files can be made.
\<close>

record crash_env =
  debugger_present :: bool
  current_thread :: dword
  current_process :: dword
  thread_snapshot :: "THREADENTRY32 list option"
  can_open_thread :: "dword \<Rightarrow> bool"
  system_clock :: system_time
  can_create_file :: "string \<Rightarrow> bool"

text \<open>A dump that was written: of which process, and the thread and exception it names, if any.\<close>

record dump =
  dump_file :: string
  dump_process :: dword
  dump_exception :: "(dword \<times> nat) option"

record crash_state =
  suspended :: "dword list"
  dumps :: "dump list"
  open_handles :: nat

datatype filter_outcome = EXCEPTION_CONTINUE_SEARCH | ExitProcess dword

section \<open>The dump\<close>

definition MAX_BUFF_SIZE :: nat where "MAX_BUFF_SIZE = 1024"

text \<open>\<open>StringCbPrintf\<close> gets the size in bytes and truncates what does not fit beside the final zero.\<close>

definition StringCbPrintf :: "nat \<Rightarrow> string \<Rightarrow> string" where
  "StringCbPrintf cb str = take (cb div 2 - 1) str"

definition dump_name :: "system_time \<Rightarrow> string" where
  "dump_name t = StringCbPrintf MAX_BUFF_SIZE
     (''EasyGameServerDump'' @ ''_'' @ pad_left (CHR '' '') 4 (nat_string (wYear t)) @
      pad_left (CHR ''0'') 2 (nat_string (wMonth t)) @ pad_left (CHR ''0'') 2 (nat_string (wDay t)) @ ''_'' @
      pad_left (CHR ''0'') 2 (nat_string (wHour t)) @ pad_left (CHR ''0'') 2 (nat_string (wMinute t)) @
      pad_left (CHR ''0'') 2 (nat_string (wSecond t)) @ ''.dmp'')"

definition MakeDump :: "crash_env \<Rightarrow> nat option \<Rightarrow> crash_state \<Rightarrow> crash_state" where
  "MakeDump env e st =
     (let tszFileName = dump_name (system_clock env) in
      if \<not> can_create_file env tszFileName then st
      else
        let st = st\<lparr>open_handles := open_handles st + 1\<rparr>;
            st = st\<lparr>dumps := dumps st @
              [\<lparr>dump_file = tszFileName, dump_process = current_process env,
                dump_exception = map_option (\<lambda>ptrs. (current_thread env, ptrs)) e\<rparr>]\<rparr>
        in st\<lparr>open_handles := open_handles st - 1\<rparr>)"

section \<open>The filter\<close>

text \<open>The loop over the snapshot; the handles of the threads are not closed.\<close>

fun suspend_loop :: "crash_env \<Rightarrow> THREADENTRY32 list \<Rightarrow> crash_state \<Rightarrow> crash_state" where
  "suspend_loop env [] st = st"
| "suspend_loop env (te32 # rest) st =
     suspend_loop env rest
       (if th32OwnerProcessID te32 = current_process env \<and> th32ThreadID te32 \<noteq> current_thread env
        then if can_open_thread env (th32ThreadID te32)
             then st\<lparr>open_handles := open_handles st + 1, suspended := suspended st @ [th32ThreadID te32]\<rparr>
             else st
        else st)"

definition ExceptionFilter :: "crash_env \<Rightarrow> nat option \<Rightarrow> crash_state \<Rightarrow> filter_outcome \<times> crash_state" where
  "ExceptionFilter env exceptionInfo st =
     (if debugger_present env then (EXCEPTION_CONTINUE_SEARCH, st)
      else
        let st = (case thread_snapshot env of
                    None \<Rightarrow> st
                  | Some threads \<Rightarrow>
                      let st = suspend_loop env threads (st\<lparr>open_handles := open_handles st + 1\<rparr>)
                      in st\<lparr>open_handles := open_handles st - 1\<rparr>);
            st = MakeDump env exceptionInfo st
        in (ExitProcess 1, st))"

section \<open>What it does\<close>

abbreviation to_suspend :: "crash_env \<Rightarrow> THREADENTRY32 list \<Rightarrow> dword list" where
  "to_suspend env threads \<equiv>
     filter (can_open_thread env) (map th32ThreadID
       (filter (\<lambda>t. th32OwnerProcessID t = current_process env \<and> th32ThreadID t \<noteq> current_thread env) threads))"

lemma suspend_loop_state:
  "suspend_loop env threads st =
     st\<lparr>suspended := suspended st @ to_suspend env threads,
        open_handles := open_handles st + length (to_suspend env threads)\<rparr>"
  by (induction threads arbitrary: st) simp_all

lemma dump_name_fits:
  assumes "wYear t < 10000" "wMonth t < 100" "wDay t < 100" "wHour t < 100" "wMinute t < 100" "wSecond t < 100"
  shows "dump_name t =
     ''EasyGameServerDump'' @ ''_'' @ pad_left (CHR '' '') 4 (nat_string (wYear t)) @
      pad_left (CHR ''0'') 2 (nat_string (wMonth t)) @ pad_left (CHR ''0'') 2 (nat_string (wDay t)) @ ''_'' @
      pad_left (CHR ''0'') 2 (nat_string (wHour t)) @ pad_left (CHR ''0'') 2 (nat_string (wMinute t)) @
      pad_left (CHR ''0'') 2 (nat_string (wSecond t)) @ ''.dmp''"
    and "length (dump_name t) = 38"
proof -
  have "length (pad_left (CHR '' '') 4 (nat_string (wYear t))) = 4" by (rule length_pad_nat) (use assms in simp_all)
  moreover have "length (pad_left (CHR ''0'') 2 (nat_string n)) = 2" if "n < 100" for n
    by (rule length_pad_nat) (use that in simp_all)
  note this [OF assms(2)] this [OF assms(3)] this [OF assms(4)] this [OF assms(5)] this [OF assms(6)]
  ultimately show "dump_name t =
     ''EasyGameServerDump'' @ ''_'' @ pad_left (CHR '' '') 4 (nat_string (wYear t)) @
      pad_left (CHR ''0'') 2 (nat_string (wMonth t)) @ pad_left (CHR ''0'') 2 (nat_string (wDay t)) @ ''_'' @
      pad_left (CHR ''0'') 2 (nat_string (wHour t)) @ pad_left (CHR ''0'') 2 (nat_string (wMinute t)) @
      pad_left (CHR ''0'') 2 (nat_string (wSecond t)) @ ''.dmp''" "length (dump_name t) = 38"
    by (simp_all add: dump_name_def StringCbPrintf_def MAX_BUFF_SIZE_def)
qed

text \<open>The fields of a time that \<open>GetSystemTime\<close> gives.\<close>

definition system_time_ok :: "system_time \<Rightarrow> bool" where
  "system_time_ok t \<longleftrightarrow> wYear t < 10000 \<and> wMonth t \<le> 12 \<and> wDay t \<le> 31 \<and> wHour t < 24 \<and> wMinute t < 60 \<and> wSecond t < 60"

lemma dump_name_inject:
  assumes "system_time_ok s" and "system_time_ok t"
  shows "dump_name s = dump_name t \<longleftrightarrow> s = t"
proof -
  have y: "length (pad_left (CHR '' '') 4 (nat_string (wYear u))) = 4" if "system_time_ok u" for u
    by (rule length_pad_nat) (use that in \<open>simp_all add: system_time_ok_def\<close>)
  have d: "length (pad_left (CHR ''0'') 2 (nat_string n)) = 2" if "n < 100" for n
    by (rule length_pad_nat) (use that in simp_all)
  have "dump_name s = dump_name t \<longleftrightarrow>
      wYear s = wYear t \<and> wMonth s = wMonth t \<and> wDay s = wDay t \<and> wHour s = wHour t \<and> wMinute s = wMinute t \<and> wSecond s = wSecond t"
    using assms y [OF assms(1)] y [OF assms(2)]
    by (simp add: dump_name_fits(1) system_time_ok_def d pad_zero_inject pad_blank_inject)
  then show ?thesis by (auto intro: system_time.equality)
qed


definition demo_crash_env :: crash_env where
  "demo_crash_env = \<lparr>debugger_present = False, current_thread = 12, current_process = 5,
     thread_snapshot = Some [\<lparr>th32ThreadID = 11, th32OwnerProcessID = 5\<rparr>, \<lparr>th32ThreadID = 12, th32OwnerProcessID = 5\<rparr>,
       \<lparr>th32ThreadID = 13, th32OwnerProcessID = 6\<rparr>],
     can_open_thread = \<lambda>_. True,
     system_clock = \<lparr>wYear = 2014, wMonth = 3, wDay = 9, wHour = 17, wMinute = 5, wSecond = 0\<rparr>,
     can_create_file = \<lambda>_. True\<rparr>"


end
