(* ===== verification/Server_Startup.thy ===== *)
theory Server_Startup
  imports Server_System
begin

text \<open>
  How the server comes up: \<open>_tmain\<close> up to its accept loop, the accept loop, and the first part of
  \<open>ClientHandlingThread\<close> (\<open>EasyServer/EasyServer/EasyServer.cpp\<close>), with the thread-local variables
  (\<open>ThreadLocal.h\<close>, \<open>ThreadLocal.cpp\<close>), the constructor of the scheduler (\<open>Scheduler.cpp\<close>) and the
  values of \<open>Config.h\<close> they use. Where all calls succeed the process is the initial state of
  \<^theory_text>\<open>Server_System\<close>.
\<close>

section \<open>Configuration\<close>

definition DB_CONN_STR :: string where
  "DB_CONN_STR = ''..'' @ [char_of (92 :: nat)] @ ''Database'' @ [char_of (92 :: nat)] @ ''user_example.db3''"

definition LISTEN_PORT :: short where "LISTEN_PORT = 9001"

definition APC_TIMER_INTERVAL :: nat where "APC_TIMER_INTERVAL = 100"

section \<open>Threads\<close>

text \<open>The variables that each thread has its own copy of, before the thread has set them.\<close>

record thread_local =
  tls_LThreadType :: int
  tls_LScheduler :: "server_task scheduler option"

definition thread_local_init :: thread_local where
  "thread_local_init = \<lparr>tls_LThreadType = -1, tls_LScheduler = None\<rparr>"

fun ThreadType_value :: "ThreadType \<Rightarrow> int" where
  "ThreadType_value THREAD_MAIN = 1"
| "ThreadType_value THREAD_CLIENT = 2"
| "ThreadType_value THREAD_DATABASE = 3"

definition Scheduler_new :: "dword \<Rightarrow> 'task scheduler" where
  "Scheduler_new tick = \<lparr>mTaskQueue = [], mCurrentTick = tick\<rparr>"

datatype thread_proc = ClientHandlingThread_proc | DatabaseHandlingThread_proc

section \<open>The calls of the system\<close>

text \<open>A call that gives a handle or a socket gives \<open>None\<close> where it fails; the others give their code.\<close>

record startup_env =
  rc_WSAStartup :: int
  rc_socket :: "SOCKET option"
  rc_bind :: int
  rc_listen :: int
  rc_beginthreadex :: "thread_proc \<Rightarrow> bool"
  rc_CreateWaitableTimer :: bool
  rc_SetWaitableTimer :: bool

definition SOCKET_ERROR :: int where "SOCKET_ERROR = -1"

record sockaddr_in =
  sin_family :: short
  sin_port :: short
  sin_s_addr :: int32

text \<open>\<open>htons\<close> on a little-endian machine.\<close>

definition htons :: "short \<Rightarrow> short" where
  "htons w = of_nat (256 * (unat w mod 256) + unat w div 256)"

section \<open>The main thread\<close>

record 'db main_state =
  exception_filter :: bool
  main_tls :: thread_local
  managers_made :: bool
  main_mSqlite :: "'db option"
  winsock_started :: bool
  listenSocket :: "SOCKET option"
  reuse_address :: bool
  bound_to :: "sockaddr_in option"
  listening :: bool
  started_threads :: "thread_proc list"

definition main_state_init :: "'db main_state" where
  "main_state_init = \<lparr>exception_filter = False, main_tls = thread_local_init, managers_made = False,
     main_mSqlite = None, winsock_started = False, listenSocket = None, reuse_address = False,
     bound_to = None, listening = False, started_threads = []\<rparr>"

datatype main_outcome = Returns int | AcceptLoop

definition tmain_start ::
    "startup_env \<Rightarrow> ('db, 'stmt) sqlite_api \<Rightarrow> 'db main_state \<Rightarrow> main_outcome \<times> 'db main_state" where
  "tmain_start os api st =
     (let st = st\<lparr>exception_filter := True\<rparr>;
          st = st\<lparr>main_tls := (main_tls st)\<lparr>tls_LThreadType := ThreadType_value THREAD_MAIN\<rparr>\<rparr>;
          st = st\<lparr>managers_made := True\<rparr>;
          (ok, db) = DbHelper_Initialize api DB_CONN_STR;
          st = st\<lparr>main_mSqlite := db\<rparr>
      in if \<not> ok then (Returns (-1), st)
      else if rc_WSAStartup os \<noteq> 0 then (Returns (-1), st)
      else
        let st = st\<lparr>winsock_started := True, listenSocket := rc_socket os\<rparr> in
        if listenSocket st = None then (Returns (-1), st)
        else
          let st = st\<lparr>reuse_address := True\<rparr>;
              serveraddr = \<lparr>sin_family = 2, sin_port = htons LISTEN_PORT, sin_s_addr = 0\<rparr> in
          if rc_bind os = SOCKET_ERROR then (Returns (-1), st)
          else
            let st = st\<lparr>bound_to := Some serveraddr\<rparr> in
            if rc_listen os = SOCKET_ERROR then (Returns (-1), st)
            else
              let st = st\<lparr>listening := True\<rparr> in
              if \<not> rc_beginthreadex os ClientHandlingThread_proc then (Returns (-1), st)
              else
                let st = st\<lparr>started_threads := started_threads st @ [ClientHandlingThread_proc]\<rparr> in
                if \<not> rc_beginthreadex os DatabaseHandlingThread_proc then (Returns (-1), st)
                else (AcceptLoop, st\<lparr>started_threads := started_threads st @ [DatabaseHandlingThread_proc]\<rparr>))"

text \<open>One round of the accept loop, with what \<open>accept\<close> gives, and some rounds.\<close>

definition accept_turn :: "SOCKET option \<Rightarrow> SOCKET pcq \<Rightarrow> SOCKET pcq res" where
  "accept_turn acceptedSocket pendingAcceptList =
     (case acceptedSocket of
        None \<Rightarrow> Inr pendingAcceptList
      | Some sock \<Rightarrow> rbind (Produce PENDING_ACCEPT pendingAcceptList sock True) (\<lambda>(_, q). Inr q))"

fun accept_loop :: "SOCKET option list \<Rightarrow> SOCKET pcq \<Rightarrow> SOCKET pcq res" where
  "accept_loop [] q = Inr q"
| "accept_loop (r # rs) q = rbind (accept_turn r q) (accept_loop rs)"

text \<open>
  \<open>DbHelper::Finalize\<close>, which stands behind the accept loop; the pointer keeps its value.
  \<open>sqlite3_close\<close> is the argument.
\<close>

definition DbHelper_Finalize :: "('db \<Rightarrow> 'db) \<Rightarrow> 'db option \<Rightarrow> 'db option" where
  "DbHelper_Finalize sqlite3_close mSqlite =
     (case mSqlite of None \<Rightarrow> None | Some db \<Rightarrow> Some (sqlite3_close db))"

text \<open>
  The rest of \<open>_tmain\<close>, which the accept loop never reaches. Closing the handles of the threads does
  not end the threads.
\<close>

definition tmain_shutdown :: "('db \<Rightarrow> 'db) \<Rightarrow> 'db main_state \<Rightarrow> main_outcome \<times> 'db main_state" where
  "tmain_shutdown sqlite3_close st =
     (let st = st\<lparr>winsock_started := False\<rparr>;
          st = st\<lparr>main_mSqlite := DbHelper_Finalize sqlite3_close (main_mSqlite st)\<rparr>;
          st = st\<lparr>managers_made := False\<rparr>
      in (Returns 0, st))"

section \<open>The client thread\<close>

text \<open>The due time in units of 100 nanoseconds, negative when relative, and the period in milliseconds.\<close>

record timer =
  liDueTime :: int
  lPeriod :: nat

text \<open>
  What the thread does before its loop: the code it returns with, or its thread-local variables and
  the timer with which it enters the loop.
\<close>

definition ClientHandlingThread_start ::
    "startup_env \<Rightarrow> environment \<Rightarrow> int + thread_local \<times> timer" where
  "ClientHandlingThread_start os env =
     (let tls = thread_local_init\<lparr>tls_LThreadType := ThreadType_value THREAD_CLIENT\<rparr>;
          tls = tls\<lparr>tls_LScheduler := Some (Scheduler_new (os_GetTickCount env 0))\<rparr>
      in if \<not> rc_CreateWaitableTimer os then Inl (-1)
      else if \<not> rc_SetWaitableTimer os then Inl (-1)
      else Inr (tls, \<lparr>liDueTime = -10000000, lPeriod = APC_TIMER_INTERVAL\<rparr>))"

text \<open>The database thread goes on with \<open>ExecuteDatabaseJobs\<close>, which does not return.\<close>

definition DatabaseHandlingThread_start :: "thread_local \<times> worker" where
  "DatabaseHandlingThread_start =
     (thread_local_init\<lparr>tls_LThreadType := ThreadType_value THREAD_DATABASE\<rparr>, Ready)"

section \<open>Properties\<close>

text \<open>The calls on which \<open>_tmain\<close> depends.\<close>

definition startup_calls_succeed :: "startup_env \<Rightarrow> ('db, 'stmt) sqlite_api \<Rightarrow> bool" where
  "startup_calls_succeed os api \<longleftrightarrow> fst (DbHelper_Initialize api DB_CONN_STR) \<and> rc_WSAStartup os = 0 \<and>
     rc_socket os \<noteq> None \<and> rc_bind os \<noteq> SOCKET_ERROR \<and> rc_listen os \<noteq> SOCKET_ERROR \<and>
     rc_beginthreadex os ClientHandlingThread_proc \<and> rc_beginthreadex os DatabaseHandlingThread_proc"

lemma htons_LISTEN_PORT: "htons LISTEN_PORT = 10531"
  by (simp add: htons_def LISTEN_PORT_def)

text \<open>
  The server starts completely or not at all. \<open>_tmain\<close> reaches its accept loop exactly when every
  call it depends on succeeds, and then the database is open, the socket listens on port 9001 of every
  address, and both threads run, the client thread first; the state of the process is that from which
  \<^theory_text>\<open>Server_System\<close> starts. In every other case it returns -1, and what it leaves running behind is at most
  the client thread.
\<close>

theorem server_starts:
  "(fst (tmain_start os api main_state_init) = AcceptLoop \<longleftrightarrow> startup_calls_succeed os api) \<and>
    fst (tmain_start os api main_state_init) \<in> {AcceptLoop, Returns (-1)} \<and>
    (case tmain_start os api main_state_init of (outcome, st) \<Rightarrow>
       exception_filter st \<and> tls_LThreadType (main_tls st) = 1 \<and>
       (if outcome = AcceptLoop
        then main_mSqlite st \<noteq> None \<and> listenSocket st = rc_socket os \<and> listening st \<and>
          bound_to st = Some \<lparr>sin_family = 2, sin_port = 10531, sin_s_addr = 0\<rparr> \<and>
          started_threads st = [ClientHandlingThread_proc, DatabaseHandlingThread_proc] \<and>
          pending_accept (server_init env zero (the (main_mSqlite st))) = ProducerConsumerQueue PENDING_ACCEPT 0 \<and>
          server_db (server_init env zero (the (main_mSqlite st))) = the (main_mSqlite st)
        else DatabaseHandlingThread_proc \<notin> set (started_threads st) \<and>
          (ClientHandlingThread_proc \<in> set (started_threads st) \<longrightarrow> listening st)))"
proof -
  obtain ok db where i: "DbHelper_Initialize api DB_CONN_STR = (ok, db)" by fastforce
  then have "ok \<Longrightarrow> db \<noteq> None" by (auto simp: DbHelper_Initialize_def split: prod.splits if_splits)
  with i show ?thesis
    by (simp add: tmain_start_def main_state_init_def thread_local_init_def startup_calls_succeed_def htons_LISTEN_PORT
        server_init_def Let_def)
qed

text \<open>A system where all calls succeed, except that the two answers about threads and the timer are given.\<close>

definition demo_startup_env :: "(thread_proc \<Rightarrow> bool) \<Rightarrow> bool \<Rightarrow> startup_env" where
  "demo_startup_env starts timer_set = \<lparr>rc_WSAStartup = 0, rc_socket = Some 3, rc_bind = 0, rc_listen = 0,
     rc_beginthreadex = starts, rc_CreateWaitableTimer = True, rc_SetWaitableTimer = timer_set\<rparr>"

theorem server_starts_witness:
  "fst (tmain_start (demo_startup_env (\<lambda>_. True) True) empty_db main_state_init) = AcceptLoop \<and>
    fst (tmain_start (demo_startup_env (\<lambda>t. t = ClientHandlingThread_proc) True) empty_db main_state_init) = Returns (-1)"
proof -
  have "startup_calls_succeed (demo_startup_env (\<lambda>_. True) True) empty_db"
    "\<not> startup_calls_succeed (demo_startup_env (\<lambda>t. t = ClientHandlingThread_proc) True) empty_db"
    by (simp_all add: startup_calls_succeed_def demo_startup_env_def empty_db_def DbHelper_Initialize_def SOCKET_ERROR_def)
  with conjunct1 [OF server_starts [of "demo_startup_env (\<lambda>_. True) True" empty_db "demo_env 0" demo_job]]
    server_starts [of "demo_startup_env (\<lambda>t. t = ClientHandlingThread_proc) True" empty_db "demo_env 0" demo_job]
  show ?thesis by auto
qed

text \<open>The accept loop on its own, from a queue in which there is room for what comes.\<close>

lemma accept_loop_stores:
  assumes "pcq_ok PENDING_ACCEPT q" and "length (items PENDING_ACCEPT q @ List.map_filter id rs) \<le> PENDING_ACCEPT"
  shows "\<exists>q'. accept_loop rs q = Inr q' \<and> items PENDING_ACCEPT q' = items PENDING_ACCEPT q @ List.map_filter id rs"
  using assms
proof (induction rs arbitrary: q)
  case Nil
  then show ?case by (simp add: map_filter_simps)
next
  case (Cons r rs)
  show ?case
  proof (cases r)
    case None
    with Cons show ?thesis by (simp add: accept_turn_def map_filter_simps)
  next
    case (Some sock)
    with Cons.prems have "length (items PENDING_ACCEPT q) < PENDING_ACCEPT" by (simp add: map_filter_simps)
    from Produce_store [OF Cons.prems(1) this, of sock True] obtain q1 where
      q1: "Produce PENDING_ACCEPT q sock True = Inr (True, q1)" "pcq_ok PENDING_ACCEPT q1"
        "items PENDING_ACCEPT q1 = items PENDING_ACCEPT q @ [sock]" by blast
    with Cons.IH [OF q1(2)] Cons.prems(2) Some show ?thesis
      by (simp add: accept_turn_def map_filter_simps)
  qed
qed

lemma accept_loop_sleeps:
  assumes "pcq_ok PENDING_ACCEPT q" and "PENDING_ACCEPT < length (items PENDING_ACCEPT q @ List.map_filter id rs)"
  shows "accept_loop rs q = Inl Sleeping"
  using assms
proof (induction rs arbitrary: q)
  case Nil
  then show ?case by (simp add: map_filter_simps length_items pcq_ok_def)
next
  case (Cons r rs)
  show ?case
  proof (cases r)
    case None
    with Cons show ?thesis by (simp add: accept_turn_def map_filter_simps)
  next
    case (Some sock)
    show ?thesis
    proof (cases "length (items PENDING_ACCEPT q) < PENDING_ACCEPT")
      case True
      from Produce_store [OF Cons.prems(1) this, of sock True] obtain q1 where
        q1: "Produce PENDING_ACCEPT q sock True = Inr (True, q1)" "pcq_ok PENDING_ACCEPT q1"
          "items PENDING_ACCEPT q1 = items PENDING_ACCEPT q @ [sock]" by blast
      with Cons.IH [OF q1(2)] Cons.prems(2) Some show ?thesis
        by (simp add: accept_turn_def map_filter_simps)
    next
      case False
      with Cons.prems(1) have "length (items PENDING_ACCEPT q) = PENDING_ACCEPT"
        by (simp add: length_items pcq_ok_def)
      from Produce_full [OF Cons.prems(1) this, of sock True] Some show ?thesis by (simp add: accept_turn_def)
    qed
  qed
qed

text \<open>
  A server without a timer. When the timer cannot be made or set the client thread returns, and
  the main thread does not notice: it goes on accepting and queues the first hundred connections
  in their order, failed calls of \<open>accept\<close> left out, and sleeps for ever with the next one. When the
  timer is set the thread enters its loop with the scheduler of the initial world.
\<close>

theorem client_thread_start:
  "(\<not> (rc_CreateWaitableTimer os \<and> rc_SetWaitableTimer os) \<longrightarrow>
      ClientHandlingThread_start os env = Inl (-1) \<and>
      (let socks = List.map_filter id rs; r = accept_loop rs (ProducerConsumerQueue PENDING_ACCEPT 0) in
       if length socks \<le> 100 then \<exists>q. r = Inr q \<and> items PENDING_ACCEPT q = socks else r = Inl Sleeping)) \<and>
    (rc_CreateWaitableTimer os \<and> rc_SetWaitableTimer os \<longrightarrow>
      (\<exists>tls. ClientHandlingThread_start os env = Inr (tls, \<lparr>liDueTime = -10000000, lPeriod = 100\<rparr>) \<and>
        tls_LThreadType tls = ThreadType_value (LThreadType (world_init env zero)) \<and>
        tls_LScheduler tls = Some (scheduler.truncate (world_init env zero))))"
proof -
  have ok: "pcq_ok PENDING_ACCEPT (ProducerConsumerQueue PENDING_ACCEPT (0 :: SOCKET))"
    by (rule pcq_ok_init) (simp_all add: PENDING_ACCEPT_def)
  have "if length (List.map_filter id rs) \<le> 100
      then \<exists>q. accept_loop rs (ProducerConsumerQueue PENDING_ACCEPT 0) = Inr q \<and> items PENDING_ACCEPT q = List.map_filter id rs
      else accept_loop rs (ProducerConsumerQueue PENDING_ACCEPT 0) = Inl Sleeping"
    using accept_loop_stores [OF ok, of rs] accept_loop_sleeps [OF ok, of rs] by (simp add: PENDING_ACCEPT_def)
  then show ?thesis
    by (simp add: ClientHandlingThread_start_def APC_TIMER_INTERVAL_def Scheduler_new_def world_init_def
        scheduler.truncate_def Let_def)
qed

theorem client_thread_start_witness:
  "ClientHandlingThread_start (demo_startup_env (\<lambda>_. True) False) (demo_env 5) = Inl (-1) \<and>
    accept_loop (map Some [0..<101]) (ProducerConsumerQueue PENDING_ACCEPT 0) = Inl Sleeping"
proof -
  have "\<not> rc_SetWaitableTimer (demo_startup_env (\<lambda>_. True) False)" by (simp add: demo_startup_env_def)
  moreover have "length (List.map_filter id (map Some [0..<101])) = 101"
    by (simp add: List.map_filter_def filter_map comp_def del: upt_rec_numeral)
  ultimately show ?thesis
    using client_thread_start [of "demo_startup_env (\<lambda>_. True) False" "demo_env 5" "map Some [0..<101]" demo_job]
    by (simp del: upt_rec_numeral)
qed

end
