(* ===== verification/Sqlite_Usage.thy ===== *)
theory Sqlite_Usage
  imports Db_Pipeline
begin

text \<open>
  How the server uses SQLite, against the rules that \<open>EasyServer/EasyServer/sqlite3.h\<close> states for
  prepared statements, and the numbers of its result codes. The library is still a parameter: the rules are a
  layer over any library that tracks the life of a statement: a value bound against the rules is refused with
  the code the rules give for it, and where the rules leave a call undefined another, arbitrary library
  answers in its place.
\<close>

section \<open>Result codes\<close>

fun sqlite_code :: "sqlite_result \<Rightarrow> nat" where
  "sqlite_code SQLITE_OK = 0" | "sqlite_code SQLITE_ERROR = 1" | "sqlite_code SQLITE_INTERNAL = 2"
| "sqlite_code SQLITE_PERM = 3" | "sqlite_code SQLITE_ABORT = 4" | "sqlite_code SQLITE_BUSY = 5"
| "sqlite_code SQLITE_LOCKED = 6" | "sqlite_code SQLITE_NOMEM = 7" | "sqlite_code SQLITE_READONLY = 8"
| "sqlite_code SQLITE_INTERRUPT = 9" | "sqlite_code SQLITE_IOERR = 10" | "sqlite_code SQLITE_CORRUPT = 11"
| "sqlite_code SQLITE_NOTFOUND = 12" | "sqlite_code SQLITE_FULL = 13" | "sqlite_code SQLITE_CANTOPEN = 14"
| "sqlite_code SQLITE_PROTOCOL = 15" | "sqlite_code SQLITE_EMPTY = 16" | "sqlite_code SQLITE_SCHEMA = 17"
| "sqlite_code SQLITE_TOOBIG = 18" | "sqlite_code SQLITE_CONSTRAINT = 19" | "sqlite_code SQLITE_MISMATCH = 20"
| "sqlite_code SQLITE_MISUSE = 21" | "sqlite_code SQLITE_NOLFS = 22" | "sqlite_code SQLITE_AUTH = 23"
| "sqlite_code SQLITE_FORMAT = 24" | "sqlite_code SQLITE_RANGE = 25" | "sqlite_code SQLITE_NOTADB = 26"
| "sqlite_code SQLITE_NOTICE = 27" | "sqlite_code SQLITE_WARNING = 28" | "sqlite_code SQLITE_ROW = 100"
| "sqlite_code SQLITE_DONE = 101"

text \<open>
  The extended codes, which a connection gives only when asked to: each refines a result code, with
  its number in the second byte.
\<close>

datatype extended_result =
    SQLITE_IOERR_READ | SQLITE_IOERR_SHORT_READ | SQLITE_IOERR_WRITE | SQLITE_IOERR_FSYNC
  | SQLITE_IOERR_DIR_FSYNC | SQLITE_IOERR_TRUNCATE | SQLITE_IOERR_FSTAT | SQLITE_IOERR_UNLOCK
  | SQLITE_IOERR_RDLOCK | SQLITE_IOERR_DELETE | SQLITE_IOERR_BLOCKED | SQLITE_IOERR_NOMEM
  | SQLITE_IOERR_ACCESS | SQLITE_IOERR_CHECKRESERVEDLOCK | SQLITE_IOERR_LOCK | SQLITE_IOERR_CLOSE
  | SQLITE_IOERR_DIR_CLOSE | SQLITE_IOERR_SHMOPEN | SQLITE_IOERR_SHMSIZE | SQLITE_IOERR_SHMLOCK
  | SQLITE_IOERR_SHMMAP | SQLITE_IOERR_SEEK | SQLITE_IOERR_DELETE_NOENT | SQLITE_IOERR_MMAP
  | SQLITE_IOERR_GETTEMPPATH | SQLITE_LOCKED_SHAREDCACHE | SQLITE_BUSY_RECOVERY | SQLITE_BUSY_SNAPSHOT
  | SQLITE_CANTOPEN_NOTEMPDIR | SQLITE_CANTOPEN_ISDIR | SQLITE_CANTOPEN_FULLPATH | SQLITE_CORRUPT_VTAB
  | SQLITE_READONLY_RECOVERY | SQLITE_READONLY_CANTLOCK | SQLITE_READONLY_ROLLBACK | SQLITE_ABORT_ROLLBACK
  | SQLITE_CONSTRAINT_CHECK | SQLITE_CONSTRAINT_COMMITHOOK | SQLITE_CONSTRAINT_FOREIGNKEY
  | SQLITE_CONSTRAINT_FUNCTION | SQLITE_CONSTRAINT_NOTNULL | SQLITE_CONSTRAINT_PRIMARYKEY
  | SQLITE_CONSTRAINT_TRIGGER | SQLITE_CONSTRAINT_UNIQUE | SQLITE_CONSTRAINT_VTAB
  | SQLITE_NOTICE_RECOVER_WAL | SQLITE_NOTICE_RECOVER_ROLLBACK | SQLITE_WARNING_AUTOINDEX

fun extension :: "extended_result \<Rightarrow> sqlite_result \<times> nat" where
  "extension SQLITE_IOERR_READ = (SQLITE_IOERR, 1)"
| "extension SQLITE_IOERR_SHORT_READ = (SQLITE_IOERR, 2)"
| "extension SQLITE_IOERR_WRITE = (SQLITE_IOERR, 3)"
| "extension SQLITE_IOERR_FSYNC = (SQLITE_IOERR, 4)"
| "extension SQLITE_IOERR_DIR_FSYNC = (SQLITE_IOERR, 5)"
| "extension SQLITE_IOERR_TRUNCATE = (SQLITE_IOERR, 6)"
| "extension SQLITE_IOERR_FSTAT = (SQLITE_IOERR, 7)"
| "extension SQLITE_IOERR_UNLOCK = (SQLITE_IOERR, 8)"
| "extension SQLITE_IOERR_RDLOCK = (SQLITE_IOERR, 9)"
| "extension SQLITE_IOERR_DELETE = (SQLITE_IOERR, 10)"
| "extension SQLITE_IOERR_BLOCKED = (SQLITE_IOERR, 11)"
| "extension SQLITE_IOERR_NOMEM = (SQLITE_IOERR, 12)"
| "extension SQLITE_IOERR_ACCESS = (SQLITE_IOERR, 13)"
| "extension SQLITE_IOERR_CHECKRESERVEDLOCK = (SQLITE_IOERR, 14)"
| "extension SQLITE_IOERR_LOCK = (SQLITE_IOERR, 15)"
| "extension SQLITE_IOERR_CLOSE = (SQLITE_IOERR, 16)"
| "extension SQLITE_IOERR_DIR_CLOSE = (SQLITE_IOERR, 17)"
| "extension SQLITE_IOERR_SHMOPEN = (SQLITE_IOERR, 18)"
| "extension SQLITE_IOERR_SHMSIZE = (SQLITE_IOERR, 19)"
| "extension SQLITE_IOERR_SHMLOCK = (SQLITE_IOERR, 20)"
| "extension SQLITE_IOERR_SHMMAP = (SQLITE_IOERR, 21)"
| "extension SQLITE_IOERR_SEEK = (SQLITE_IOERR, 22)"
| "extension SQLITE_IOERR_DELETE_NOENT = (SQLITE_IOERR, 23)"
| "extension SQLITE_IOERR_MMAP = (SQLITE_IOERR, 24)"
| "extension SQLITE_IOERR_GETTEMPPATH = (SQLITE_IOERR, 25)"
| "extension SQLITE_LOCKED_SHAREDCACHE = (SQLITE_LOCKED, 1)"
| "extension SQLITE_BUSY_RECOVERY = (SQLITE_BUSY, 1)"
| "extension SQLITE_BUSY_SNAPSHOT = (SQLITE_BUSY, 2)"
| "extension SQLITE_CANTOPEN_NOTEMPDIR = (SQLITE_CANTOPEN, 1)"
| "extension SQLITE_CANTOPEN_ISDIR = (SQLITE_CANTOPEN, 2)"
| "extension SQLITE_CANTOPEN_FULLPATH = (SQLITE_CANTOPEN, 3)"
| "extension SQLITE_CORRUPT_VTAB = (SQLITE_CORRUPT, 1)"
| "extension SQLITE_READONLY_RECOVERY = (SQLITE_READONLY, 1)"
| "extension SQLITE_READONLY_CANTLOCK = (SQLITE_READONLY, 2)"
| "extension SQLITE_READONLY_ROLLBACK = (SQLITE_READONLY, 3)"
| "extension SQLITE_ABORT_ROLLBACK = (SQLITE_ABORT, 2)"
| "extension SQLITE_CONSTRAINT_CHECK = (SQLITE_CONSTRAINT, 1)"
| "extension SQLITE_CONSTRAINT_COMMITHOOK = (SQLITE_CONSTRAINT, 2)"
| "extension SQLITE_CONSTRAINT_FOREIGNKEY = (SQLITE_CONSTRAINT, 3)"
| "extension SQLITE_CONSTRAINT_FUNCTION = (SQLITE_CONSTRAINT, 4)"
| "extension SQLITE_CONSTRAINT_NOTNULL = (SQLITE_CONSTRAINT, 5)"
| "extension SQLITE_CONSTRAINT_PRIMARYKEY = (SQLITE_CONSTRAINT, 6)"
| "extension SQLITE_CONSTRAINT_TRIGGER = (SQLITE_CONSTRAINT, 7)"
| "extension SQLITE_CONSTRAINT_UNIQUE = (SQLITE_CONSTRAINT, 8)"
| "extension SQLITE_CONSTRAINT_VTAB = (SQLITE_CONSTRAINT, 9)"
| "extension SQLITE_NOTICE_RECOVER_WAL = (SQLITE_NOTICE, 1)"
| "extension SQLITE_NOTICE_RECOVER_ROLLBACK = (SQLITE_NOTICE, 2)"
| "extension SQLITE_WARNING_AUTOINDEX = (SQLITE_WARNING, 1)"

definition extended_code :: "extended_result \<Rightarrow> nat" where
  "extended_code x = (case extension x of (r, n) \<Rightarrow> or (sqlite_code r) (push_bit 8 n))"

section \<open>The life of a prepared statement\<close>

text \<open>
  Between its creation and its end a statement is ready for values, at a row, waiting to be tried
  again, or done. The program never resets a statement.
\<close>

datatype stmt_phase = Prepared | AtRow | Busy | Ended

record 'stmt tracked =
  raw :: 'stmt
  phase :: stmt_phase
  params :: nat

text \<open>
  The index of a value is between 1 and the number of parameters, and no step may have been made; what
  a call returns otherwise.
\<close>

definition bind_index_ok :: "'stmt tracked \<Rightarrow> nat \<Rightarrow> bool" where
  "bind_index_ok t i \<longleftrightarrow> 1 \<le> i \<and> i \<le> params t"

definition bind_outcome :: "'stmt tracked \<Rightarrow> nat \<Rightarrow> sqlite_result \<times> 'stmt \<Rightarrow> sqlite_result \<times> 'stmt tracked" where
  "bind_outcome t i r =
     (if phase t \<noteq> Prepared then (SQLITE_MISUSE, t)
      else if \<not> bind_index_ok t i then (SQLITE_RANGE, t)
      else (fst r, t\<lparr>raw := snd r\<rparr>))"

text \<open>A statement that is done, or has failed, is not to be stepped again; a step moves it on.\<close>

definition step_ok :: "'stmt tracked \<Rightarrow> bool" where
  "step_ok t \<longleftrightarrow> phase t \<noteq> Ended"

definition after_step :: "sqlite_result \<Rightarrow> 'stmt \<Rightarrow> 'stmt tracked \<Rightarrow> 'stmt tracked" where
  "after_step rc st t =
     t\<lparr>raw := st, phase := (if rc = SQLITE_ROW then AtRow else if rc = SQLITE_BUSY then Busy else Ended)\<rparr>"

text \<open>Values may be read from the row that the last step has given, by a column of it.\<close>

definition data_count :: "('db, 'stmt) sqlite_api \<Rightarrow> 'stmt tracked \<Rightarrow> nat" where
  "data_count api t = (if phase t = AtRow then sqlite3_column_count api (raw t) else 0)"

definition column_ok :: "('db, 'stmt) sqlite_api \<Rightarrow> 'stmt tracked \<Rightarrow> nat \<Rightarrow> bool" where
  "column_ok api t i \<longleftrightarrow> i < data_count api t"

text \<open>
  The library \<open>api\<close> with these rules. The connection carries the number of statements finalized. A
  call that is undefined by the rules is answered by \<open>ub\<close>, of which nothing is known.
\<close>

definition ruled ::
    "('db, 'stmt) sqlite_api \<Rightarrow> ('db, 'stmt) sqlite_api \<Rightarrow> ('db \<times> nat, 'stmt tracked) sqlite_api" where
  "ruled ub api =
     \<lparr>sqlite3_open = \<lambda>name. (case sqlite3_open api name of (rc, db) \<Rightarrow> (rc, map_option (\<lambda>d. (d, 0)) db)),
      sqlite3_exec = \<lambda>(db, n) sql. (case sqlite3_exec api db sql of (rc, db) \<Rightarrow> (rc, (db, n))),
      sqlite3_prepare_v2 = \<lambda>(db, n) sql. (case sqlite3_prepare_v2 api db sql of (rc, st) \<Rightarrow>
        (rc, \<lparr>raw = st, phase = Prepared, params = placeholders sql\<rparr>)),
      sqlite3_bind_int = \<lambda>t i v. bind_outcome t i (sqlite3_bind_int api (raw t) i v),
      sqlite3_bind_double = \<lambda>t i v. bind_outcome t i (sqlite3_bind_double api (raw t) i v),
      sqlite3_bind_text = \<lambda>t i v. bind_outcome t i (sqlite3_bind_text api (raw t) i v),
      sqlite3_step = \<lambda>(db, n) t. (case sqlite3_step (if step_ok t then api else ub) db (raw t) of
        (rc, db, st) \<Rightarrow> (rc, (db, n), after_step rc st t)),
      sqlite3_column_count = \<lambda>t. sqlite3_column_count api (raw t),
      sqlite3_column_int = \<lambda>t i. sqlite3_column_int (if column_ok api t i then api else ub) (raw t) i,
      sqlite3_column_double = \<lambda>t i. sqlite3_column_double (if column_ok api t i then api else ub) (raw t) i,
      sqlite3_column_text = \<lambda>t i. sqlite3_column_text (if column_ok api t i then api else ub) (raw t) i,
      sqlite3_finalize = \<lambda>(db, n) t. (sqlite3_finalize api db (raw t), n + 1)\<rparr>"

section \<open>The jobs obey the rules\<close>

lemma bind_values_ruled:
  assumes "phase t = Prepared" and "1 \<le> i" and "i + length vs \<le> params t + 1"
  shows "bind_values (ruled ub api) i vs t = t\<lparr>raw := bind_values api i vs (raw t)\<rparr>"
  using assms
proof (induction vs arbitrary: i t)
  case (Cons v vs)
  then have "bind_value (ruled ub api) t i v = t\<lparr>raw := bind_value api (raw t) i v\<rparr>"
    by (cases v) (simp_all add: ruled_def bind_outcome_def bind_index_ok_def split: prod.splits)
  with Cons show ?case by simp
qed simp

lemma run_statement_ruled:
  assumes "length vs \<le> placeholders sql"
  shows "run_statement (ruled ub api) (db, n) sql vs =
    rbind (run_statement api db sql vs) (\<lambda>(ok, db'). Inr (ok, (db', n + 1)))"
proof -
  obtain rc st where p: "sqlite3_prepare_v2 api db sql = (rc, st)" by fastforce
  let ?t = "\<lparr>raw = st, phase = Prepared, params = placeholders sql\<rparr>"
  have "sqlite3_prepare_v2 (ruled ub api) (db, n) sql = (rc, ?t)" using p by (simp add: ruled_def)
  moreover have "bind_values (ruled ub api) 1 vs ?t = ?t\<lparr>raw := bind_values api 1 vs st\<rparr>"
    using bind_values_ruled [of ?t 1 vs ub api] assms by simp
  moreover have "sqlite3_step (ruled ub api) (db, n) (?t\<lparr>raw := bind_values api 1 vs st\<rparr>) =
      (case sqlite3_step api db (bind_values api 1 vs st) of (rc, db, st') \<Rightarrow> (rc, (db, n), after_step rc st' ?t))"
    by (simp add: ruled_def step_ok_def after_step_def split: prod.split)
  moreover have "sqlite3_finalize (ruled ub api) (db', n) (after_step rc' st' ?t) = (sqlite3_finalize api db' st', n + 1)"
    for db' rc' st' by (simp add: ruled_def after_step_def)
  ultimately show ?thesis using p by (simp add: run_statement_def split: prod.split)
qed

lemma select_row_ruled:
  "select_row (ruled ub api) (db, n) pid =
    rbind (select_row api db pid) (\<lambda>(rc, db', st). Inr (rc, (db', n),
      after_step rc st \<lparr>raw = st, phase = Prepared, params = 1\<rparr>))"
proof -
  obtain rc st where p: "sqlite3_prepare_v2 api db SQL_SelectTest = (rc, st)" by fastforce
  let ?t = "\<lparr>raw = st, phase = Prepared, params = 1 :: nat\<rparr>"
  have "sqlite3_prepare_v2 (ruled ub api) (db, n) SQL_SelectTest = (rc, ?t)"
    using p by (simp add: ruled_def placeholders_SQL)
  moreover have "bind_values (ruled ub api) 1 [SqlInt pid] ?t = ?t\<lparr>raw := bind_values api 1 [SqlInt pid] st\<rparr>"
    using bind_values_ruled [of ?t 1 "[SqlInt pid]" ub api] by simp
  moreover have "sqlite3_step (ruled ub api) (db, n) (?t\<lparr>raw := x\<rparr>) =
      (case sqlite3_step api db x of (rc, db, st') \<Rightarrow> (rc, (db, n), after_step rc st' ?t))" for x
    by (simp add: ruled_def step_ok_def after_step_def split: prod.split)
  ultimately show ?thesis using p
    by (simp add: select_row_def after_step_def del: bind_values.simps split: prod.split)
qed

text \<open>A load, as what it makes of the row that the select finds.\<close>

definition read_row ::
    "('db, 'stmt) sqlite_api \<Rightarrow> 'db \<Rightarrow> 'stmt \<Rightarrow> LoadPlayerDataContext \<Rightarrow> (bool \<times> 'db \<times> LoadPlayerDataContext) res" where
  "read_row api db st c =
     rbind (CRASH_ASSERT (3 < sqlite3_column_count api st)) (\<lambda>_.
     rbind (case sqlite3_column_text api st 0 of
              None \<Rightarrow> Inl InvalidParameter
            | Some s \<Rightarrow> strcpy_s (load_mPlayerName c) s) (\<lambda>n.
     Inr (True, sqlite3_finalize api db st,
       c\<lparr>load_mPosX := sqlite3_column_double api st 1, load_mPosY := sqlite3_column_double api st 2,
         load_mPosZ := sqlite3_column_double api st 3, load_mPlayerName := n\<rparr>)))"

lemma LoadPlayer_select_row:
  "LoadPlayer_OnExecute api db c =
    rbind (select_row api db (load_mPlayerId c)) (\<lambda>(rc, db', st).
      if rc \<noteq> SQLITE_ROW then Inr (False, sqlite3_finalize api db' st, c) else read_row api db' st c)"
  by (auto simp: execute_defs select_row_def read_row_def CRASH_ASSERT_def Let_def numeral_eq_Suc
      split: prod.splits option.splits)

lemma read_row_ruled:
  assumes "phase t = AtRow"
  shows "read_row (ruled ub api) (db, n) t c =
    rbind (read_row api db (raw t) c) (\<lambda>(ok, db', c'). Inr (ok, (db', n + 1), c'))"
proof (cases "3 < sqlite3_column_count api (raw t)")
  case True
  with assms have ok: "column_ok api t 0" "column_ok api t 1" "column_ok api t 2" "column_ok api t 3"
    by (simp_all add: column_ok_def data_count_def)
  then have "sqlite3_column_text (ruled ub api) t 0 = sqlite3_column_text api (raw t) 0"
    "\<forall>i \<in> {1, 2, 3}. sqlite3_column_double (ruled ub api) t i = sqlite3_column_double api (raw t) i"
    by (simp_all add: ruled_def)
  with True show ?thesis
    by (simp add: read_row_def CRASH_ASSERT_def rbind_assoc) (simp add: ruled_def)
qed (simp add: read_row_def CRASH_ASSERT_def ruled_def)

text \<open>A job with the rules is the job without them, and one statement more is finalized.\<close>

lemma job_ruled:
  assumes "job_ok j"
  shows "OnExecute (ruled ub api) (db, n) j =
    rbind (OnExecute api db j) (\<lambda>(ok, db', j'). Inr (ok, (db', n + 1), j'))"
proof (cases j)
  case (LoadPlayer c)
  have "LoadPlayer_OnExecute (ruled ub api) (db, n) c =
      rbind (LoadPlayer_OnExecute api db c) (\<lambda>(ok, db', c'). Inr (ok, (db', n + 1), c'))"
  proof (cases "select_row api db (load_mPlayerId c)")
    case (Inr r)
    obtain rc db' st where r: "r = (rc, db', st)" by (cases r)
    let ?t = "after_step rc st \<lparr>raw = st, phase = Prepared, params = 1\<rparr>"
    have "sqlite3_finalize (ruled ub api) (db', n) ?t = (sqlite3_finalize api db' st, n + 1)"
      by (simp add: ruled_def after_step_def)
    moreover have "read_row (ruled ub api) (db', n) ?t c =
        rbind (read_row api db' st c) (\<lambda>(ok, db', c'). Inr (ok, (db', n + 1), c'))" if "rc = SQLITE_ROW"
      using read_row_ruled [of ?t ub api db' n c] that by (simp add: after_step_def)
    ultimately show ?thesis using Inr r by (simp add: LoadPlayer_select_row select_row_ruled)
  qed (simp add: LoadPlayer_select_row select_row_ruled)
  with LoadPlayer show ?thesis by (simp add: rbind_assoc split_def)
next
  case (CreatePlayer c)
  with assms show ?thesis
    by (simp add: CreatePlayer_statement run_statement_ruled placeholders_SQL rbind_assoc split_def)
next
  case (DeletePlayer c)
  then show ?thesis by (simp add: DeletePlayer_statement run_statement_ruled placeholders_SQL rbind_assoc split_def)
next
  case (UpdatePlayer c)
  with assms show ?thesis
    by (simp add: UpdatePlayer_statement run_statement_ruled placeholders_SQL rbind_assoc split_def)
qed

section \<open>The numbers of the codes\<close>

lemma sqlite_code_inject [simp]: "sqlite_code r = sqlite_code r' \<longleftrightarrow> r = r'"
  by (cases r; cases r'; simp)

lemma sqlite_code_less: "sqlite_code r < 256"
  by (cases r) simp_all

lemma or_push_bit_8: "(m :: nat) < 256 \<Longrightarrow> or m (push_bit 8 n) = m + 256 * n"
proof -
  assume "m < 256"
  then have "take_bit 8 m = m" by (simp add: take_bit_eq_mod)
  then have "\<not> bit m k" if "8 \<le> k" for k using that by (metis bit_take_bit_iff not_le)
  then have "m + push_bit 8 n = or m (push_bit 8 n)"
    by (intro disjunctive_add_eq_or) (auto simp: bit_eq_iff bit_simps)
  then show ?thesis by (simp add: push_bit_eq_mult mult.commute)
qed

lemma extended_code_parts: "extended_code x = sqlite_code (fst (extension x)) + 256 * snd (extension x)"
  using or_push_bit_8 [OF sqlite_code_less] by (simp add: extended_code_def split_def)

lemma extension_inject: "extension x = extension y \<Longrightarrow> x = y"
  by (cases x; cases y; simp)

lemma extension_positive: "0 < snd (extension x)"
  by (cases x) simp_all

text \<open>
  Result codes by number. The codes of \<open>sqlite3.h\<close> are different numbers; the low byte of an
  extended code is the code it refines, and no extended code is the number of a code, so none can
  be taken for \<open>SQLITE_OK\<close>, \<open>SQLITE_ROW\<close> or \<open>SQLITE_DONE\<close>, the three that the server compares with.
  What \<open>FetchRow\<close> returns is what the comparison of these numbers gives.
\<close>

theorem result_codes:
  "(\<forall>r r'. sqlite_code r = sqlite_code r' \<longleftrightarrow> r = r') \<and>
    (\<forall>x. extended_code x mod 256 = sqlite_code (fst (extension x)) \<and> (\<forall>r. extended_code x \<noteq> sqlite_code r)) \<and>
    (\<forall>x y. extended_code x = extended_code y \<longleftrightarrow> x = y) \<and>
    fst (FetchRow api db h) =
      (let result = sqlite_code (fst (sqlite3_step api db (mResult h))) in
       if result \<noteq> 100 \<and> result \<noteq> 101 then RESULT_ERROR
       else if result = 101 then RESULT_DONE else RESULT_ROW)"
proof (intro conjI allI)
  fix x
  show "extended_code x mod 256 = sqlite_code (fst (extension x))"
    using sqlite_code_less [of "fst (extension x)"] by (simp add: extended_code_parts)
  fix r
  show "extended_code x \<noteq> sqlite_code r"
    using sqlite_code_less [of r] extension_positive [of x] by (simp add: extended_code_parts)
next
  fix x y
  show "extended_code x = extended_code y \<longleftrightarrow> x = y"
  proof
    assume eq: "extended_code x = extended_code y"
    have "sqlite_code (fst (extension z)) = extended_code z mod 256" "snd (extension z) = extended_code z div 256" for z
      using sqlite_code_less [of "fst (extension z)"] by (simp_all add: extended_code_parts)
    with eq have "sqlite_code (fst (extension x)) = sqlite_code (fst (extension y))" "snd (extension x) = snd (extension y)"
      by simp_all
    then show "x = y" by (intro extension_inject prod_eqI) simp_all
  qed simp
next
  have "sqlite_code r = 100 \<longleftrightarrow> r = SQLITE_ROW" "sqlite_code r = 101 \<longleftrightarrow> r = SQLITE_DONE" for r
    by (cases r; simp)+
  then show "fst (FetchRow api db h) =
      (let result = sqlite_code (fst (sqlite3_step api db (mResult h))) in
       if result \<noteq> 100 \<and> result \<noteq> 101 then RESULT_ERROR
       else if result = 101 then RESULT_DONE else RESULT_ROW)"
    by (simp add: FetchRow_def Let_def split: prod.split)
qed simp

section \<open>The values of a row\<close>

text \<open>
  Every value has one of five types. What reading it as another type gives is documented; the
  renderings of numbers and the readings of texts are arguments.
\<close>

datatype sql_cell =
    IntegerCell "64 word"
  | FloatCell float64
  | TextCell "byte list"
  | BlobCell "byte list"
  | NullCell

fun cell_type :: "sql_cell \<Rightarrow> nat" where
  "cell_type (IntegerCell _) = 1"
| "cell_type (FloatCell _) = 2"
| "cell_type (TextCell _) = 3"
| "cell_type (BlobCell _) = 4"
| "cell_type NullCell = 5"

record conversions =
  int_to_float :: "64 word \<Rightarrow> float64"
  float_to_int :: "float64 \<Rightarrow> 64 word"
  int_ascii :: "64 word \<Rightarrow> byte list"
  float_ascii :: "float64 \<Rightarrow> byte list"
  text_atoi :: "byte list \<Rightarrow> 64 word"
  text_atof :: "byte list \<Rightarrow> float64"

fun as_integer :: "conversions \<Rightarrow> sql_cell \<Rightarrow> 64 word" where
  "as_integer cv (IntegerCell i) = i"
| "as_integer cv (FloatCell f) = float_to_int cv f"
| "as_integer cv (TextCell t) = text_atoi cv t"
| "as_integer cv (BlobCell b) = text_atoi cv b"
| "as_integer cv NullCell = 0"

fun as_float :: "conversions \<Rightarrow> sql_cell \<Rightarrow> float64" where
  "as_float cv (IntegerCell i) = int_to_float cv i"
| "as_float cv (FloatCell f) = f"
| "as_float cv (TextCell t) = text_atof cv t"
| "as_float cv (BlobCell b) = text_atof cv b"
| "as_float cv NullCell = 0"

text \<open>The memory of a text, with its zero terminator; \<open>NULL\<close> has none.\<close>

fun as_text :: "conversions \<Rightarrow> sql_cell \<Rightarrow> byte list option" where
  "as_text cv (IntegerCell i) = Some (int_ascii cv i @ [0])"
| "as_text cv (FloatCell f) = Some (float_ascii cv f @ [0])"
| "as_text cv (TextCell t) = Some (t @ [0])"
| "as_text cv (BlobCell b) = Some (b @ [0])"
| "as_text cv NullCell = None"

text \<open>The column functions on a statement at a row of such values.\<close>

definition row_of_cells :: "conversions \<Rightarrow> ('db, 'stmt) sqlite_api \<Rightarrow> 'stmt \<Rightarrow> sql_cell list \<Rightarrow> bool" where
  "row_of_cells cv api st cells \<longleftrightarrow> sqlite3_column_count api st = length cells \<and>
     (\<forall>i < length cells. sqlite3_column_int api st i = ucast (as_integer cv (cells ! i)) \<and>
        sqlite3_column_double api st i = as_float cv (cells ! i) \<and>
        sqlite3_column_text api st i = as_text cv (cells ! i))"

text \<open>
  C35: what a load makes of the values that are stored. No row: the job fails. A row: the position is
  that of the row, where a missing coordinate becomes zero, and the name is the stored text up to its
  first zero byte, whatever its type, if it is shorter than 30 bytes; a longer name, or none, ends
  the process in the invalid-parameter handler.
\<close>

theorem load_values:
  assumes "select_row api db (load_mPlayerId c) = Inr (rc, db', st)" and "job_ok (LoadPlayer c)"
    and "rc = SQLITE_ROW \<Longrightarrow> row_of_cells cv api st [name, x, y, z]"
  shows "(rc \<noteq> SQLITE_ROW \<longrightarrow>
      OnExecute api db (LoadPlayer c) = Inr (False, sqlite3_finalize api db' st, LoadPlayer c)) \<and>
    (rc = SQLITE_ROW \<longrightarrow>
      (case as_text cv name of
         None \<Rightarrow> name = NullCell \<and> OnExecute api db (LoadPlayer c) = Inl InvalidParameter
       | Some s \<Rightarrow>
           if length (c_string s) < MAX_NAME_LEN
           then \<exists>n. OnExecute api db (LoadPlayer c) = Inr (True, sqlite3_finalize api db' st, LoadPlayer
               (c\<lparr>load_mPosX := as_float cv x, load_mPosY := as_float cv y, load_mPosZ := as_float cv z,
                 load_mPlayerName := n\<rparr>)) \<and> terminated MAX_NAME_LEN n \<and> c_string n = c_string s
           else OnExecute api db (LoadPlayer c) = Inl InvalidParameter))"
proof (intro conjI impI)
  note out = load_row_outcome [OF assms(1) _ assms(2)]
  assume "rc \<noteq> SQLITE_ROW"
  with out show "OnExecute api db (LoadPlayer c) = Inr (False, sqlite3_finalize api db' st, LoadPlayer c)" by simp
next
  assume rc: "rc = SQLITE_ROW"
  from assms(3) [OF this] have row: "4 \<le> sqlite3_column_count api st" "sqlite3_column_text api st 0 = as_text cv name"
      "sqlite3_column_double api st 1 = as_float cv x" "sqlite3_column_double api st 2 = as_float cv y"
      "sqlite3_column_double api st 3 = as_float cv z"
    by (auto simp: row_of_cells_def numeral_eq_Suc)
  note out = load_row_outcome [OF assms(1) row(1) assms(2), unfolded row]
  have "0 \<in> set s" if "as_text cv name = Some s" for s using that by (cases name) auto
  moreover have "name = NullCell" if "as_text cv name = None" using that by (cases name) auto
  ultimately show "case as_text cv name of
         None \<Rightarrow> name = NullCell \<and> OnExecute api db (LoadPlayer c) = Inl InvalidParameter
       | Some s \<Rightarrow>
           if length (c_string s) < MAX_NAME_LEN
           then \<exists>n. OnExecute api db (LoadPlayer c) = Inr (True, sqlite3_finalize api db' st, LoadPlayer
               (c\<lparr>load_mPosX := as_float cv x, load_mPosY := as_float cv y, load_mPosZ := as_float cv z,
                 load_mPlayerName := n\<rparr>)) \<and> terminated MAX_NAME_LEN n \<and> c_string n = c_string s
           else OnExecute api db (LoadPlayer c) = Inl InvalidParameter"
    using out rc by (cases "as_text cv name") auto
qed

text \<open>A database whose select finds one row of given values.\<close>

definition demo_conversions :: conversions where
  "demo_conversions = \<lparr>int_to_float = \<lambda>i. i, float_to_int = \<lambda>f. f, int_ascii = \<lambda>_. [49], float_ascii = \<lambda>_. [49],
     text_atoi = \<lambda>_. 0, text_atof = \<lambda>_. 0\<rparr>"

definition cells_db :: "sql_cell list \<Rightarrow> (unit, unit) sqlite_api" where
  "cells_db cells = empty_db\<lparr>sqlite3_step := \<lambda>db st. (SQLITE_ROW, db, st), sqlite3_column_count := \<lambda>_. length cells,
     sqlite3_column_int := \<lambda>_ i. ucast (as_integer demo_conversions (cells ! i)),
     sqlite3_column_double := \<lambda>_ i. as_float demo_conversions (cells ! i),
     sqlite3_column_text := \<lambda>_ i. as_text demo_conversions (cells ! i)\<rparr>"

theorem load_values_witness:
  "(\<exists>n. OnExecute (cells_db [TextCell [98, 111, 98], FloatCell 1, NullCell, IntegerCell 3]) () (LoadPlayer (LoadPlayerDataContext_new 5 1001)) =
      Inr (True, (), LoadPlayer ((LoadPlayerDataContext_new 5 1001)
        \<lparr>load_mPosX := 1, load_mPosY := 0, load_mPosZ := 3, load_mPlayerName := n\<rparr>)) \<and> c_string n = [98, 111, 98]) \<and>
    OnExecute (cells_db [NullCell, NullCell, NullCell, NullCell]) () (LoadPlayer (LoadPlayerDataContext_new 5 1001)) =
      Inl InvalidParameter"
proof -
  let ?c = "LoadPlayerDataContext_new 5 1001"
  have row: "select_row (cells_db cs) () (load_mPlayerId ?c) = Inr (SQLITE_ROW, (), ())" for cs
    by (simp add: select_row_def cells_db_def empty_db_def)
  have ok: "job_ok (LoadPlayer ?c)" by (simp add: LoadPlayerDataContext_new_def terminated_def MAX_NAME_LEN_def)
  have cells: "row_of_cells demo_conversions (cells_db cs) () cs" for cs by (simp add: row_of_cells_def cells_db_def)
  note out = load_values [OF row ok cells]
  from out [of "TextCell [98, 111, 98]" "FloatCell 1" NullCell "IntegerCell 3"] out [of NullCell NullCell NullCell NullCell]
  show ?thesis by (simp add: c_string_def MAX_NAME_LEN_def demo_conversions_def del: OnExecute.simps) blast
qed

end
