(* ===== verification/Sqlite_Connection.thy ===== *)
theory Sqlite_Connection
  imports Sqlite_Usage
begin

text \<open>
  Connections to SQLite as \<open>EasyServer/EasyServer/sqlite3.h\<close> documents them - opening, the execution of
  a text of statements, closing - and the static functions of \<open>DbHelper\<close> that use them
  (\<open>DbHelper.cpp\<close>). The text is cut into statements by an argument.
\<close>

section \<open>Opening flags\<close>

datatype open_flag =
    SQLITE_OPEN_READONLY | SQLITE_OPEN_READWRITE | SQLITE_OPEN_CREATE | SQLITE_OPEN_DELETEONCLOSE
  | SQLITE_OPEN_EXCLUSIVE | SQLITE_OPEN_AUTOPROXY | SQLITE_OPEN_URI | SQLITE_OPEN_MEMORY
  | SQLITE_OPEN_MAIN_DB | SQLITE_OPEN_TEMP_DB | SQLITE_OPEN_TRANSIENT_DB | SQLITE_OPEN_MAIN_JOURNAL
  | SQLITE_OPEN_TEMP_JOURNAL | SQLITE_OPEN_SUBJOURNAL | SQLITE_OPEN_MASTER_JOURNAL | SQLITE_OPEN_NOMUTEX
  | SQLITE_OPEN_FULLMUTEX | SQLITE_OPEN_SHAREDCACHE | SQLITE_OPEN_PRIVATECACHE | SQLITE_OPEN_WAL

fun open_flag_bits :: "open_flag \<Rightarrow> int32" where
  "open_flag_bits SQLITE_OPEN_READONLY = 0x1" | "open_flag_bits SQLITE_OPEN_READWRITE = 0x2"
| "open_flag_bits SQLITE_OPEN_CREATE = 0x4" | "open_flag_bits SQLITE_OPEN_DELETEONCLOSE = 0x8"
| "open_flag_bits SQLITE_OPEN_EXCLUSIVE = 0x10" | "open_flag_bits SQLITE_OPEN_AUTOPROXY = 0x20"
| "open_flag_bits SQLITE_OPEN_URI = 0x40" | "open_flag_bits SQLITE_OPEN_MEMORY = 0x80"
| "open_flag_bits SQLITE_OPEN_MAIN_DB = 0x100" | "open_flag_bits SQLITE_OPEN_TEMP_DB = 0x200"
| "open_flag_bits SQLITE_OPEN_TRANSIENT_DB = 0x400" | "open_flag_bits SQLITE_OPEN_MAIN_JOURNAL = 0x800"
| "open_flag_bits SQLITE_OPEN_TEMP_JOURNAL = 0x1000" | "open_flag_bits SQLITE_OPEN_SUBJOURNAL = 0x2000"
| "open_flag_bits SQLITE_OPEN_MASTER_JOURNAL = 0x4000" | "open_flag_bits SQLITE_OPEN_NOMUTEX = 0x8000"
| "open_flag_bits SQLITE_OPEN_FULLMUTEX = 0x10000" | "open_flag_bits SQLITE_OPEN_SHAREDCACHE = 0x20000"
| "open_flag_bits SQLITE_OPEN_PRIVATECACHE = 0x40000" | "open_flag_bits SQLITE_OPEN_WAL = 0x80000"

text \<open>
  What the three modes do with a file that exists or not, \<open>protected\<close> by the system or not; without
  one of them the behaviour is undefined.
\<close>

datatype open_outcome = OpenedReadOnly | OpenedReadWrite | CreatedReadWrite | OpenFails

definition open_v2_outcome :: "int32 \<Rightarrow> bool \<Rightarrow> bool \<Rightarrow> open_outcome option" where
  "open_v2_outcome flags there protected =
     (let mode = and flags 7; found = (if protected then OpenedReadOnly else OpenedReadWrite) in
      if mode = open_flag_bits SQLITE_OPEN_READONLY then Some (if there then OpenedReadOnly else OpenFails)
      else if mode = open_flag_bits SQLITE_OPEN_READWRITE then Some (if there then found else OpenFails)
      else if mode = or (open_flag_bits SQLITE_OPEN_READWRITE) (open_flag_bits SQLITE_OPEN_CREATE)
      then Some (if there then found else CreatedReadWrite)
      else None)"

definition sqlite3_open_flags :: int32 where
  "sqlite3_open_flags = or (open_flag_bits SQLITE_OPEN_READWRITE) (open_flag_bits SQLITE_OPEN_CREATE)"

text \<open>A flag is one bit, and no two flags are the same bit, so that a combination can be taken apart.\<close>

lemma open_flag_single_bit: "open_flag_bits f \<noteq> 0 \<and> and (open_flag_bits f) (open_flag_bits f - 1) = 0"
  by (cases f) simp_all

lemma open_flags_disjoint: "and (open_flag_bits f) (open_flag_bits g) = 0 \<longleftrightarrow> f \<noteq> g"
  by (cases f; cases g; simp)

text \<open>\<open>sqlite3_open\<close> does not fail because a file is missing: it makes an empty one.\<close>

lemma sqlite3_open_creates:
  "open_v2_outcome sqlite3_open_flags False protected = Some CreatedReadWrite"
  "open_v2_outcome sqlite3_open_flags True protected = Some (if protected then OpenedReadOnly else OpenedReadWrite)"
  by (simp_all add: open_v2_outcome_def sqlite3_open_flags_def)

section \<open>Opening and closing\<close>

text \<open>
  A connection is usually given even if opening it fails, and is to be closed all the same; without
  one, the result is an error.
\<close>

definition open_result_ok :: "sqlite_result \<times> 'db option \<Rightarrow> bool" where
  "open_result_ok r \<longleftrightarrow> (snd r = None \<longrightarrow> fst r \<noteq> SQLITE_OK)"

text \<open>
  \<open>sqlite3_close\<close> with the number of statements that are not finalized: the result, and whether the
  connection is still there.
\<close>

definition close_result :: "'db option \<Rightarrow> nat \<Rightarrow> sqlite_result \<times> 'db option" where
  "close_result C unfinalized =
     (case C of
        None \<Rightarrow> (SQLITE_OK, None)
      | Some db \<Rightarrow> if 0 < unfinalized then (SQLITE_BUSY, Some db) else (SQLITE_OK, None))"

section \<open>Executing a text\<close>

text \<open>Steps until there is no further row; the rows are ignored when there is no callback.\<close>

partial_function (option) step_all ::
    "('db, 'stmt) sqlite_api \<Rightarrow> 'db \<Rightarrow> 'stmt \<Rightarrow> (sqlite_result \<times> 'db \<times> 'stmt) option" where
  "step_all api db st =
     (case sqlite3_step api db st of (rc, db', st') \<Rightarrow>
        if rc = SQLITE_ROW then step_all api db' st' else Some (rc, db', st'))"

text \<open>
  The statements one after another; an error stops the current one and skips the others. The last
  component tells whether an error message was put into memory that the caller has to free.
\<close>

fun exec_statements ::
    "('db, 'stmt) sqlite_api \<Rightarrow> 'db \<Rightarrow> string list \<Rightarrow> (sqlite_result \<times> 'db \<times> bool) option" where
  "exec_statements api db [] = Some (SQLITE_OK, db, False)"
| "exec_statements api db (s # ss) =
     (case sqlite3_prepare_v2 api db s of (rc, st) \<Rightarrow>
        if rc \<noteq> SQLITE_OK then Some (rc, db, True)
        else case step_all api db st of
            None \<Rightarrow> None
          | Some (rc, db', st') \<Rightarrow>
              let db'' = sqlite3_finalize api db' st' in
              if rc = SQLITE_DONE then exec_statements api db'' ss else Some (rc, db'', True))"

text \<open>
  A library whose \<open>sqlite3_exec\<close> is this wrapper, for a way to cut a text into statements. A step is
  never answered by \<open>SQLITE_OK\<close>.
\<close>

definition exec_documented :: "('db, 'stmt) sqlite_api \<Rightarrow> (byte list \<Rightarrow> string list) \<Rightarrow> bool" where
  "exec_documented api split_sql \<longleftrightarrow>
     (\<forall>db st. fst (sqlite3_step api db st) \<noteq> SQLITE_OK) \<and>
     (\<forall>db sql rc db' msg. exec_statements api db (split_sql sql) = Some (rc, db', msg) \<longrightarrow> sqlite3_exec api db sql = (rc, db'))"

section \<open>What the helper makes of it\<close>

text \<open>A text runs through when each of its statements can be prepared and steps to its end.\<close>

inductive runs_through :: "('db, 'stmt) sqlite_api \<Rightarrow> 'db \<Rightarrow> string list \<Rightarrow> 'db \<Rightarrow> bool" for api where
  none: "runs_through api db [] db"
| one: "sqlite3_prepare_v2 api db s = (SQLITE_OK, st) \<Longrightarrow> step_all api db st = Some (SQLITE_DONE, db', st') \<Longrightarrow>
    runs_through api (sqlite3_finalize api db' st') ss db'' \<Longrightarrow> runs_through api db (s # ss) db''"

lemma step_all_not_OK:
  assumes "step_all api db st = Some (rc, db', st')" and "\<forall>db st. fst (sqlite3_step api db st) \<noteq> SQLITE_OK"
  shows "rc \<noteq> SQLITE_OK"
proof -
  have "api = api \<longrightarrow> fst (rc, db', st') \<noteq> SQLITE_OK" using assms(1)
  proof (rule step_all.raw_induct [where P = "\<lambda>a d s r. a = api \<longrightarrow> fst r \<noteq> SQLITE_OK", rotated], intro impI)
    fix loop a d s r
    assume IH: "\<And>a d s r. loop a d s = Some r \<Longrightarrow> a = api \<longrightarrow> fst r \<noteq> SQLITE_OK"
      and eq: "(case sqlite3_step a d s of (rc, db', st') \<Rightarrow>
        if rc = SQLITE_ROW then loop a db' st' else Some (rc, db', st')) = Some r" and a: "a = api"
    obtain rc1 d1 s1 where step: "sqlite3_step a d s = (rc1, d1, s1)" by (cases "sqlite3_step a d s")
    show "fst r \<noteq> SQLITE_OK"
    proof (cases "rc1 = SQLITE_ROW")
      case True
      with eq step a IH [of a d1 s1 r] show ?thesis by simp
    next
      case False
      with eq step have "r = (rc1, d1, s1)" by simp
      with step a assms(2) show ?thesis by (metis fst_conv)
    qed
  qed
  then show ?thesis by simp
qed

lemma exec_statements_OK:
  assumes "\<forall>db st. fst (sqlite3_step api db st) \<noteq> SQLITE_OK"
  shows "exec_statements api db ss = Some (SQLITE_OK, db', msg) \<Longrightarrow> \<not> msg \<and> runs_through api db ss db'"
proof (induction ss arbitrary: db)
  case Nil
  then show ?case by (auto intro: runs_through.none)
next
  case (Cons s ss)
  with step_all_not_OK [OF _ assms] show ?case
    by (auto simp: Let_def intro: runs_through.one split: prod.splits if_splits option.splits)
qed

lemma runs_through_exec: "runs_through api db ss db' \<Longrightarrow> exec_statements api db ss = Some (SQLITE_OK, db', False)"
  by (induction rule: runs_through.induct) simp_all

lemma exec_statements_message:
  "exec_statements api db ss = Some (rc, db', msg) \<Longrightarrow> rc \<noteq> SQLITE_OK \<Longrightarrow> msg"
  by (induction api db ss rule: exec_statements.induct) (auto simp: Let_def split: prod.splits if_splits option.splits)


section \<open>A database that is not there\<close>

text \<open>
  Without its file the server starts on an empty database, in which no statement on the table of
  players can be prepared; the first login then ends the process.
\<close>

lemma missing_database:
  assumes "sqlite3_open api db_name = (SQLITE_OK, Some empty)"
    and "fst (sqlite3_prepare_v2 api empty SQL_SelectTest) = SQLITE_ERROR"
  shows "DbHelper_Initialize api db_name = (True, Some empty)"
    and "OnExecute api empty (LoadPlayer c) = Inl CrashAsserted"
  using assms
  by (auto simp: DbHelper_Initialize_def LoadPlayer_select_row select_row_def split: prod.splits)

section \<open>Texts that are given to the library\<close>

text \<open>
  The text of a statement, read up to its first zero byte, or of at most \<open>nByte\<close> bytes; the helper
  gives -1.
\<close>

definition prepared_text :: "byte list \<Rightarrow> int \<Rightarrow> byte list" where
  "prepared_text zSql nByte =
     (if nByte < 0 then takeWhile (\<lambda>b. b \<noteq> 0) zSql else takeWhile (\<lambda>b. b \<noteq> 0) (take (nat nByte) zSql))"

text \<open>The value of a text that is bound: \<open>NULL\<close>, up to its zero byte, or the number of bytes given.\<close>

definition bound_text :: "byte list option \<Rightarrow> int \<Rightarrow> byte list option" where
  "bound_text ptr n =
     (case ptr of None \<Rightarrow> None
      | Some s \<Rightarrow> Some (if n < 0 then takeWhile (\<lambda>b. b \<noteq> 0) s else take (nat n) s))"

text \<open>
  The helper gives the length that \<open>strlen\<close> counts; the value is the same as with -1, the string
  without its zero byte and without an embedded one.
\<close>

lemma bound_text_strlen:
  assumes "strlen s = Inr k"
  shows "bound_text (Some s) (int k) = bound_text (Some s) (-1)" and "bound_text (Some s) (int k) = Some (c_string s)"
    and "0 \<notin> set (c_string s)" and "prepared_text s (-1) = c_string s"
proof -
  from assms have k: "strnlen s = Some k" by (simp add: strlen_def split: option.splits)
  from strnlen_c_string [OF this] show "bound_text (Some s) (int k) = Some (c_string s)"
    "bound_text (Some s) (int k) = bound_text (Some s) (-1)"
    by (simp_all add: bound_text_def c_string_def)
  show "0 \<notin> set (c_string s)" by (auto simp: c_string_def dest: set_takeWhileD)
  show "prepared_text s (-1) = c_string s" by (simp add: prepared_text_def c_string_def)
qed

section \<open>The end of a statement\<close>

text \<open>
  What \<open>sqlite3_finalize\<close> returns after the last step, if any, and whether the statement is
  still busy.
\<close>

definition finalize_result :: "sqlite_result option \<Rightarrow> sqlite_result" where
  "finalize_result stepped =
     (case stepped of None \<Rightarrow> SQLITE_OK
      | Some rc \<Rightarrow> if rc = SQLITE_ROW \<or> rc = SQLITE_DONE then SQLITE_OK else rc)"

definition stmt_busy :: "'stmt tracked option \<Rightarrow> bool" where
  "stmt_busy S = (case S of None \<Rightarrow> False | Some t \<Rightarrow> phase t = AtRow)"

text \<open>
  The helper does not look at the result of \<open>sqlite3_finalize\<close>, and need not: the flag that a
  statement job returns is this result. A load finalizes a statement that is busy; it
  never takes a second row.
\<close>

lemma finalize_result_flag:
  assumes "sqlite3_prepare_v2 api db sql = (SQLITE_OK, st)"
    and "sqlite3_step api db (bind_values api 1 vs st) = (rc, db', st')" and "rc \<noteq> SQLITE_OK"
  shows "run_statement api db sql vs = Inr (finalize_result (Some rc) = SQLITE_OK, sqlite3_finalize api db' st')"
  using assms by (simp add: run_statement_def finalize_result_def)

lemma stmt_busy_after_step: "stmt_busy (Some (after_step rc st t)) \<longleftrightarrow> rc = SQLITE_ROW"
  by (simp add: stmt_busy_def after_step_def)

section \<open>A run of the server\<close>

text \<open>The jobs that the database thread executes one after another.\<close>

fun run_jobs :: "('db, 'stmt) sqlite_api \<Rightarrow> 'db \<Rightarrow> job list \<Rightarrow> (bool list \<times> 'db) res" where
  "run_jobs api db [] = Inr ([], db)"
| "run_jobs api db (j # js) =
     rbind (OnExecute api db j) (\<lambda>(ok, db, _). rbind (run_jobs api db js) (\<lambda>(oks, db). Inr (ok # oks, db)))"

lemma run_jobs_ruled:
  "\<forall>j \<in> set js. job_ok j \<Longrightarrow> run_jobs (ruled ub api) (db, n) js =
    rbind (run_jobs api db js) (\<lambda>(oks, db'). Inr (oks, (db', n + length js)))"
  by (induction js arbitrary: db n) (simp_all add: job_ruled rbind_assoc split_def)

text \<open>
  C22: the database jobs keep to the rules of the library. Whatever a call against the rules would do
  - a value bound to an index that the statement does not have or after a step, a step of a statement
  that is done, a column read without a row or beyond its columns - any sequence of jobs does to the
  database and returns what it does with the plain library. Each job finalizes the one statement it
  has prepared, exactly once, so that the connection can be closed between any two jobs.
\<close>

theorem jobs_obey_rules:
  assumes "\<forall>j \<in> set js. job_ok j"
  shows "run_jobs (ruled ub api) (db, 0) js =
      rbind (run_jobs api db js) (\<lambda>(oks, db'). Inr (oks, (db', length js))) \<and>
    (\<forall>oks db' finalized. run_jobs (ruled ub api) (db, 0) js = Inr (oks, (db', finalized)) \<longrightarrow>
      length oks = length js \<and> close_result (Some db') (length js - finalized) = (SQLITE_OK, None))"
proof -
  have "length oks = length js" if "run_jobs api db js = Inr (oks, db')" for oks db'
    using that by (induction js arbitrary: db oks) (auto simp: rbind_eq_Inr)
  with run_jobs_ruled [OF assms, of ub api db 0] show ?thesis
    by (auto simp: rbind_eq_Inr close_result_def)
qed

text \<open>A library that answers where a rule is broken: a step fails, columns are \<open>NULL\<close>.\<close>

definition broken_db :: "(unit, unit) sqlite_api" where
  "broken_db = (one_row_db None)\<lparr>sqlite3_step := \<lambda>db st. (SQLITE_ERROR, db, st)\<rparr>"

theorem jobs_obey_rules_witness:
  "run_jobs (ruled broken_db (one_row_db (Some [98, 111, 98, 0]))) ((), 0)
      [LoadPlayer (LoadPlayerDataContext_new 5 1001), LoadPlayer (LoadPlayerDataContext_new 6 1001)] =
    Inr ([True, True], ((), 2))"
proof -
  let ?js = "[LoadPlayer (LoadPlayerDataContext_new 5 1001), LoadPlayer (LoadPlayerDataContext_new 6 1001)]"
  let ?api = "one_row_db (Some [98, 111, 98, 0])"
  have ok: "\<forall>j \<in> set ?js. job_ok j" by (simp add: LoadPlayerDataContext_new_def terminated_def MAX_NAME_LEN_def)
  have "\<exists>n. strcpy_s (load_mPlayerName (LoadPlayerDataContext_new k 1001)) [98, 111, 98, 0] = Inr n" for k
    by (simp add: LoadPlayerDataContext_new_def MAX_NAME_LEN_def strcpy_s_def numeral_eq_Suc)
  note name = this
  have "\<exists>j'. OnExecute ?api () (LoadPlayer (LoadPlayerDataContext_new k 1001)) = Inr (True, (), j')" for k
    using name [of k] by (auto simp: LoadPlayer_select_row select_row_def one_row_db_def empty_db_def read_row_def CRASH_ASSERT_def)
  then have "run_jobs ?api () ?js = Inr ([True, True], ())"
    by (metis (no_types, lifting) run_jobs.simps rbind.simps(2) case_prod_conv)
  with conjunct1 [OF jobs_obey_rules [OF ok, of broken_db ?api "()"]] show ?thesis by simp
qed

text \<open>A library on an empty database: each statement is done after its first step.\<close>

definition quick_db :: "(nat, unit) sqlite_api" where
  "quick_db = \<lparr>sqlite3_open = \<lambda>_. (SQLITE_OK, Some 0), sqlite3_exec = \<lambda>db sql. (SQLITE_OK, db + 2),
     sqlite3_prepare_v2 = \<lambda>_ _. (SQLITE_OK, ()), sqlite3_bind_int = \<lambda>st _ _. (SQLITE_OK, st),
     sqlite3_bind_double = \<lambda>st _ _. (SQLITE_OK, st), sqlite3_bind_text = \<lambda>st _ _. (SQLITE_OK, st),
     sqlite3_step = \<lambda>db st. (SQLITE_DONE, db + 1, st), sqlite3_column_count = \<lambda>_. 0, sqlite3_column_int = \<lambda>_ _. 0,
     sqlite3_column_double = \<lambda>_ _. 0, sqlite3_column_text = \<lambda>_ _. None, sqlite3_finalize = \<lambda>db _. db\<rparr>"


end
