(* ===== verification/Spec2Isabelle.thy ===== *)
theory Spec2Isabelle
  imports Login_Trip Shared_Screens Load_Generator Crash_Dump Server_Startup Sqlite_Connection
begin

text \<open>
  \<^bold>\<open>EasyGameServer\<close>

  A game server in C++ for Windows, a game client on cocos2d-x, and a load generator. This development
  models all three, function by function, and proves what makes them correct and where they are not.

  \<^bold>\<open>The program.\<close> The server (\<open>EasyServer/EasyServer\<close>) has three threads. The main thread accepts
  connections into a bounded queue. The client thread takes them out, makes a session of each, starts
  overlapped receives and sends, and between them sleeps in \<open>SleepEx\<close>, where completion routines and
  a timer run. It gives database jobs to the database thread through one bounded queue and takes the
  results from another. The game client (\<open>Cocos2dxGameClient/Classes\<close>) has a network thread that cuts
  packets out of the stream and posts functions to the thread of the engine, and a scene that sends
  requests on keys. The load generator (\<open>DummyClient/DummyClient\<close>) runs many sessions as chains of
  asynchronous operations. All share the packets of \<open>PacketType.h\<close>.

  \<^bold>\<open>Theories.\<close>

  \<^item> \<^theory_text>\<open>EGS_Prelude\<close>: machine types, faults and results, bounded memory, C strings, the ordered map of
    the C++ library. \<^theory_text>\<open>C_Strings\<close>: numbers as text.
  \<^item> \<^theory_text>\<open>Circular_Buffer\<close>: \<open>CircularBuffer.h/.cpp\<close> of the server, refined to a byte queue (locale
    \<^theory_text>\<open>byte_queue\<close>). \<^theory_text>\<open>Client_Buffer\<close>: the copy of the game client, with \<open>BufferReset\<close>.
  \<^item> \<^theory_text>\<open>Packet_Type\<close>: the packed structures of \<open>PacketType.h\<close> as bytes and back. \<^theory_text>\<open>Packet_Streams\<close>: how a
    stream falls into packets, shared by all receivers.
  \<^item> \<^theory_text>\<open>Producer_Consumer_Queue\<close>: the ring (locale \<^theory_text>\<open>bounded_queue\<close>) and the monitor of any number of
    threads with its lock and condition variables as a step relation.
  \<^item> \<^theory_text>\<open>Object_Pool\<close>: \<open>ObjectPool.h\<close> over a memory of links (locale \<^theory_text>\<open>object_allocator\<close>).
  \<^item> \<^theory_text>\<open>Task_Scheduler\<close>: \<open>Scheduler.h/.cpp\<close> (locales \<^theory_text>\<open>priority_queue\<close> and \<^theory_text>\<open>task_runner\<close>); the tick has 32 bits.
  \<^item> \<^theory_text>\<open>Db_Helper\<close>, \<^theory_text>\<open>Db_Jobs\<close>, \<^theory_text>\<open>Db_Pipeline\<close>: \<open>DbHelper.cpp\<close>, \<open>DatabaseJobContext.cpp\<close>,
    \<open>DatabaseJobManager.cpp\<close>, with SQLite as a parameter, and the pipeline of the two threads as a step
    relation. \<^theory_text>\<open>Sqlite_Usage\<close>, \<^theory_text>\<open>Sqlite_Connection\<close>: the codes and rules that \<open>sqlite3.h\<close> states, as a layer
    over that parameter, and that the jobs keep to them.
  \<^item> \<^theory_text>\<open>Server_State\<close>, \<^theory_text>\<open>Client_Session\<close>, \<^theory_text>\<open>Client_Manager\<close>, \<^theory_text>\<open>Packet_Handling\<close>, \<^theory_text>\<open>Server_Main\<close>: the state of
    the client thread and one definition per function of \<open>ClientSession.cpp\<close>, \<open>ClientManager.cpp\<close>,
    \<open>PacketHandling.cpp\<close> and \<open>EasyServer.cpp\<close>. \<^theory_text>\<open>Server_Startup\<close>: \<open>_tmain\<close> and the start of the client thread.
  \<^item> \<^theory_text>\<open>Server_Invariant\<close>: the invariant of that state and that every function keeps it.
    \<^theory_text>\<open>Server_System\<close>: the whole process as a step relation, and the invariant in every reachable state.
    \<^theory_text>\<open>Read_Loop\<close>, \<^theory_text>\<open>Server_Properties\<close>: what the functions do.
  \<^item> \<^theory_text>\<open>Crash_Dump\<close>: \<open>Exception.cpp\<close>.
  \<^item> \<^theory_text>\<open>Tcp_Client\<close>, \<^theory_text>\<open>Client_Properties\<close>: \<open>TcpClient.cpp\<close>. \<^theory_text>\<open>Hello_World_Scene\<close>: \<open>HelloWorldScene.cpp\<close>,
    \<open>AppDelegate.cpp\<close> and \<open>WinMain\<close>. \<^theory_text>\<open>Game_Client\<close>: the process, with the network thread, the functions
    posted to the engine, the keys and the calls of the application in any order.
  \<^item> \<^theory_text>\<open>Dummy_Client\<close>: the load generator. \<^theory_text>\<open>Load_Generator\<close>: all its sessions on one \<open>io_service\<close>, whose
    operations complete in any order.
  \<^item> \<^theory_text>\<open>Simulations\<close>: runs of events, and programs that play them (locale \<^theory_text>\<open>simulation\<close>). \<^theory_text>\<open>Game_Room\<close>: what
    the server promises its players, as a room in which members join, log on, speak, read, drop and
    leave. \<^theory_text>\<open>Room_Sessions\<close>, \<^theory_text>\<open>Room_Requests\<close>, \<^theory_text>\<open>Room_Server\<close>: the functions of the server play
    this room, from \<open>SendRequest\<close> to the step relation. \<^theory_text>\<open>Room_Properties\<close>: what follows for the players.
  \<^item> \<^theory_text>\<open>Client_Server\<close>, \<^theory_text>\<open>End_To_End\<close>, \<^theory_text>\<open>Login_Trip\<close>: a move, a line of chat and a login from one
    client through the server, and for a login the database thread, to the screen of a client.
    \<^theory_text>\<open>Shared_Screens\<close>: the room and all game clients together.

  \<^bold>\<open>How the code is modelled.\<close> Objects are records with the fields of the class; sessions and
  singletons live in maps from addresses, so that a freed object is found out. A function that can go
  wrong returns a sum whose left side names the fault: an access out of bounds, a null or dangling pointer, a failed
  assertion, the invalid-parameter handler, a thread that sleeps on a full or empty queue. A loop that may not end is a
  \<^theory_text>\<open>partial_function\<close> into options, and that it returns is proved as such; there is no fuel anywhere.
  Sizes of the 32-bit build are natural numbers with the wrap-around written out, packet fields and ticks are
  words. What comes from outside - system calls, the engine, \<open>boost::asio\<close>, SQLite, random numbers, floating-point
  arithmetic - is a field of an environment, over which the theorems quantify.

  \<^bold>\<open>What is shown.\<close> No action of the running server accesses memory out of bounds, through a null or a
  dangling pointer, or fails an assertion, and no session is deleted while anything refers to it. The
  buffer, the queues, the pool and the scheduler are refined to their abstract contracts, the queues
  with any number of threads. Reading, broadcasting, logging in, collecting garbage, the database jobs and both
  clients do what they are meant to do, packet by packet; a move, a line of chat and a login go from the
  client through the server to a client. The whole server refines the game room: all players get the
  chats and moves in one order, without a gap from the moment they join, and nobody speaks under an id
  that no login has given to it. No action of the running game client or of the load generator goes
  wrong as long as the server sends well-formed packets, whatever the order of events, where the theorem on
  the client assumes that sockets can be made and take what they are given, and the one on the load
  generator leaves the exception of a failed write, which ends it: the screen shows the moves that were handled, and each session of the load generator follows its own connection. Together:
  the screens of all connected clients follow one log of broadcasts, each as far as its bytes have come.
  The relation \<^theory_text>\<open>shows_room\<close> ties a session to a member by its fields and
  the bytes that wait in its send buffer; a member whose buffer is crowded may be dropped, and when the
  system refuses the option that \<open>Disconnect\<close> sets (\<^theory_text>\<open>flaky\<close>) it may stay and miss a packet. Other theorems state what the code does although it is not meant to: the
  inputs on which the read loop or the scheduler never return, the messages that end the server, the deadlock
  of the two threads, the bytes that are sent twice or not at all.

  \<^bold>\<open>Choices.\<close> Jobs that are due at the same time stay in the order of their insertion, which the C++
  library leaves open. \<open>strcpy_s\<close> and \<open>sprintf_s\<close> end the process when the target is too small, as the release
  runtime does. Contexts of database jobs are values, since at each time one thread has them. A completion routine
  or a timer call is one step of the client thread, as in the program; a step that would sleep on a
  full queue is a fault of the step, not of the process. \<open>atoi\<close> is total over the integers.

  \<^bold>\<open>Not modelled.\<close> Console output, except that a printed string has to be terminated. The contents of
  SQLite, of the engine and of the dump, which are not in the repository. The parts of \<open>sqlite3.h\<close> and
  \<open>sqlite3ext.h\<close> the server does not use. The rules of \<open>sqlite3.h\<close> about the life of bound
  texts, which values cannot break. The Linux half of the
  conditional code of the client. The loops of the engine and of \<open>io_service::run\<close>: every order of their
  calls is allowed instead. Precompiled headers, resource numbers and compiler switches, which hold no code.
\<close>

end
